(* ===== verification/Prelude.thy ===== *)
theory Prelude
  imports Main "HOL-Library.Char_ord" "HOL-Library.List_Lexorder"
begin

text \<open>
  The part of JavaScript that every component of the development uses: values, objects as
  ordered dictionaries, arrays, strings, decimal numbers and thrown errors.

  Objects are association lists in enumeration order (the order of \<open>for ... in\<close> and of
  \<open>Object.keys\<close>): integer-like keys ascending, then the other keys in order of creation.
  Numbers are the integers, with \<open>NaN\<close> beside them; the components that compute with
  fractions use rationals of their own. Strings are lists of characters with codes below 256.
  A function or a widget stored in an object is a named reference.
\<close>

named_theorems js_simps \<open>characteristic equations of the object, array and string operations\<close>

section \<open>Values and errors\<close>

datatype jsval =
    Undef
  | Null
  | Bool bool
  | Num int
  | NaN
  | Str string
  | Arr "jsval list"
  | Obj "(string \<times> jsval) list"
  | Fn string
  | Widget nat

datatype jserr =
    TypeError
  | RangeError
  | Thrown string

type_synonym 'a res = "jserr + 'a"
type_synonym 'a dict = "(string \<times> 'a) list"
type_synonym obj = "jsval dict"

fun res_bind :: "'a res \<Rightarrow> ('a \<Rightarrow> 'b res) \<Rightarrow> 'b res" where
  "res_bind (Inl e) f = Inl e"
| "res_bind (Inr x) f = f x"

lemma res_bind_Inr [simp]: "res_bind r f = Inr y \<longleftrightarrow> (\<exists>x. r = Inr x \<and> f x = Inr y)"
  by (cases r) auto

text \<open>\<open>Boolean(v)\<close>: what \<open>if\<close>, \<open>!\<close>, \<open>&&\<close> and \<open>||\<close> test.\<close>

fun truthy :: "jsval \<Rightarrow> bool" where
  "truthy Undef = False"
| "truthy Null = False"
| "truthy (Bool b) = b"
| "truthy (Num n) = (n \<noteq> 0)"
| "truthy NaN = False"
| "truthy (Str s) = (s \<noteq> [])"
| "truthy (Arr _) = True"
| "truthy (Obj _) = True"
| "truthy (Fn _) = True"
| "truthy (Widget _) = True"

definition js_or :: "jsval \<Rightarrow> jsval \<Rightarrow> jsval" where
  "js_or a b = (if truthy a then a else b)"

definition js_and :: "jsval \<Rightarrow> jsval \<Rightarrow> jsval" where
  "js_and a b = (if truthy a then b else a)"

section \<open>Decimal numerals\<close>

definition digit_char :: "nat \<Rightarrow> char" where
  "digit_char d = char_of (48 + d)"

definition is_digit :: "char \<Rightarrow> bool" where
  "is_digit c \<longleftrightarrow> 48 \<le> (of_char c :: nat) \<and> (of_char c :: nat) \<le> 57"

definition digit_val :: "char \<Rightarrow> nat" where
  "digit_val c = of_char c - 48"

lemma of_digit_char: "d < 10 \<Longrightarrow> (of_char (digit_char d) :: nat) = 48 + d"
  by (simp add: digit_char_def)

lemma is_digit_char [simp]: "d < 10 \<Longrightarrow> is_digit (digit_char d)"
  by (simp add: is_digit_def of_digit_char)

lemma digit_val_char [simp]: "d < 10 \<Longrightarrow> digit_val (digit_char d) = d"
  by (simp add: digit_val_def of_digit_char)

fun show_nat :: "nat \<Rightarrow> string" where
  "show_nat n = (if n < 10 then [digit_char n] else show_nat (n div 10) @ [digit_char (n mod 10)])"

declare show_nat.simps [simp del]

definition show_int :: "int \<Rightarrow> string" where
  "show_int i = (if i < 0 then CHR ''-'' # show_nat (nat (- i)) else show_nat (nat i))"

definition nat_of_digits :: "string \<Rightarrow> nat" where
  "nat_of_digits = foldl (\<lambda>n c. 10 * n + digit_val c) 0"

lemma nat_of_digits_Nil [simp]: "nat_of_digits [] = 0"
  by (simp add: nat_of_digits_def)

lemma nat_of_digits_snoc [simp]: "nat_of_digits (s @ [c]) = 10 * nat_of_digits s + digit_val c"
  by (simp add: nat_of_digits_def)

lemma show_nat_nonempty [simp]: "show_nat n \<noteq> []"
  by (subst show_nat.simps) simp

lemma show_nat_digits: "\<forall>c \<in> set (show_nat n). is_digit c"
proof (induction n rule: show_nat.induct)
  case (1 n)
  then show ?case
    by (cases "n < 10") (auto simp: show_nat.simps [of n])
qed

lemma nat_of_show_nat [simp]: "nat_of_digits (show_nat n) = n"
proof (induction n rule: show_nat.induct)
  case (1 n)
  show ?case
  proof (cases "n < 10")
    case True
    then show ?thesis
      using nat_of_digits_snoc [of "[]" "digit_char n"] by (simp add: show_nat.simps [of n])
  next
    case False
    with "1" show ?thesis
      by (simp add: show_nat.simps [of n])
  qed
qed

lemma show_nat_inject [simp]: "show_nat m = show_nat n \<longleftrightarrow> m = n"
  by (metis nat_of_show_nat)

lemma takeWhile_digits_show: "takeWhile is_digit (show_nat n) = show_nat n"
  using show_nat_digits [of n] by simp

text \<open>White space as \<open>trim\<close>, \<open>parseInt\<close> and the class \<open>\s\<close> of regular expressions see it.\<close>

definition is_space :: "char \<Rightarrow> bool" where
  "is_space c \<longleftrightarrow> (of_char c :: nat) \<in> {9, 10, 11, 12, 13, 32, 160}"

lemma digit_not_space: "is_digit c \<Longrightarrow> \<not> is_space c"
  by (auto simp: is_digit_def is_space_def)

lemma digit_not_sign: "is_digit c \<Longrightarrow> c \<noteq> CHR ''-'' \<and> c \<noteq> CHR ''+''"
  by (auto simp: is_digit_def)

text \<open>\<open>parseInt(s, 10)\<close>: the longest numeral at the start of the string, or NaN.\<close>

definition parse_digits :: "bool \<Rightarrow> string \<Rightarrow> jsval" where
  "parse_digits neg s =
     (let ds = takeWhile is_digit s
      in if ds = [] then NaN
         else Num (if neg then - int (nat_of_digits ds) else int (nat_of_digits ds)))"

definition parseInt :: "string \<Rightarrow> jsval" where
  "parseInt s =
     (case dropWhile is_space s of
        [] \<Rightarrow> NaN
      | c # cs \<Rightarrow> if c = CHR ''-'' then parse_digits True cs
                  else if c = CHR ''+'' then parse_digits False cs
                  else parse_digits False (c # cs))"

lemma parseInt_show_nat [simp]: "parseInt (show_nat n) = Num (int n)"
proof -
  obtain c cs where s: "show_nat n = c # cs"
    using show_nat_nonempty [of n] by (cases "show_nat n") blast+
  then have "is_digit c" using show_nat_digits [of n] by simp
  then show ?thesis
    using digit_not_space [of c] digit_not_sign [of c] takeWhile_digits_show [of n] nat_of_show_nat [of n]
    by (simp add: parseInt_def parse_digits_def s del: takeWhile_eq_all_conv)
qed

lemma parseInt_show_int [simp]: "parseInt (show_int i) = Num i"
proof (cases "i < 0")
  case True
  have "\<not> is_space (CHR ''-'')" by (simp add: is_space_def)
  with True show ?thesis
    by (simp add: show_int_def parseInt_def parse_digits_def takeWhile_digits_show)
next
  case False
  then show ?thesis by (simp add: show_int_def)
qed

lemma show_int_inject [simp]: "show_int i = show_int j \<longleftrightarrow> i = j"
  by (metis jsval.inject(2) parseInt_show_int)

section \<open>Strings\<close>

definition starts_with :: "string \<Rightarrow> string \<Rightarrow> bool" where
  "starts_with p s \<longleftrightarrow> take (length p) s = p"

lemma starts_with_append [simp]: "starts_with p (p @ s)"
  by (simp add: starts_with_def)

lemma starts_with_iff: "starts_with p s \<longleftrightarrow> (\<exists>r. s = p @ r)"
  by (metis append_eq_conv_conj append_take_drop_id starts_with_def)

fun index_of :: "string \<Rightarrow> string \<Rightarrow> nat option" where
  "index_of p [] = (if p = [] then Some 0 else None)"
| "index_of p (c # s) = (if starts_with p (c # s) then Some 0 else map_option Suc (index_of p s))"

lemma index_of_Some: "index_of p s = Some i \<Longrightarrow> \<exists>a b. s = a @ p @ b \<and> length a = i"
proof (induction s arbitrary: i)
  case Nil
  then show ?case by (auto split: if_splits)
next
  case (Cons c s)
  show ?case
  proof (cases "starts_with p (c # s)")
    case True
    then obtain r where r: "c # s = p @ r" by (auto simp: starts_with_iff)
    have "i = 0" using Cons.prems True by simp
    with r show ?thesis by (intro exI [of _ "[]"] exI [of _ r]) simp
  next
    case False
    then obtain j where "index_of p s = Some j" "i = Suc j" using Cons.prems by auto
    with Cons.IH obtain a b where "s = a @ p @ b" "length a = j" by blast
    with \<open>i = Suc j\<close> show ?thesis by (intro exI [of _ "c # a"] exI [of _ b]) simp
  qed
qed

lemma index_of_None: "index_of p s = None \<longleftrightarrow> (\<nexists>a b. s = a @ p @ b)"
proof (induction s)
  case Nil
  then show ?case by simp
next
  case (Cons c s)
  show ?case
  proof
    assume n: "index_of p (c # s) = None"
    then have ns: "\<not> starts_with p (c # s)" and "index_of p s = None"
      by (auto split: if_splits)
    with Cons.IH have nt: "\<nexists>a b. s = a @ p @ b" by blast
    show "\<nexists>a b. c # s = a @ p @ b"
    proof
      assume "\<exists>a b. c # s = a @ p @ b"
      then obtain a b where ab: "c # s = a @ p @ b" by blast
      show False
        using ab ns nt by (cases a) (auto simp: starts_with_iff)
    qed
  next
    assume no: "\<nexists>a b. c # s = a @ p @ b"
    then have "\<not> starts_with p (c # s)" by (metis append_Nil starts_with_iff)
    moreover have "\<nexists>a b. s = a @ p @ b" using no by (metis append_Cons)
    ultimately show "index_of p (c # s) = None" using Cons.IH by auto
  qed
qed

text \<open>\<open>String.prototype.contains\<close>, added by boot.js where the browser lacks it.\<close>

definition str_contains :: "string \<Rightarrow> string \<Rightarrow> bool" where
  "str_contains s needle \<longleftrightarrow> index_of needle s \<noteq> None"

fun join :: "string \<Rightarrow> string list \<Rightarrow> string" where
  "join sep [] = []"
| "join sep [w] = w"
| "join sep (w # v # ws) = w @ sep @ join sep (v # ws)"

fun split_on :: "char \<Rightarrow> string \<Rightarrow> string list" where
  "split_on c [] = [[]]"
| "split_on c (x # xs) =
     (if x = c then [] # split_on c xs
      else (case split_on c xs of [] \<Rightarrow> [[x]] | w # ws \<Rightarrow> (x # w) # ws))"

lemma split_on_nonempty [simp]: "split_on c s \<noteq> []"
  by (induction s) (auto split: list.splits)

lemma join_split_on: "join [c] (split_on c s) = s"
proof (induction s)
  case Nil
  then show ?case by simp
next
  case (Cons x s)
  obtain w ws where "split_on c s = w # ws" using split_on_nonempty by (cases "split_on c s") blast+
  with Cons show ?case by (cases ws) auto
qed

lemma split_on_no_sep: "c \<notin> set w \<Longrightarrow> split_on c w = [w]"
  by (induction w) auto

lemma split_on_append: "c \<notin> set w \<Longrightarrow> split_on c (w @ c # s) = w # split_on c s"
  by (induction w) auto

lemma split_on_join:
  "ws \<noteq> [] \<Longrightarrow> \<forall>w \<in> set ws. c \<notin> set w \<Longrightarrow> split_on c (join [c] ws) = ws"
  by (induction "[c]" ws rule: join.induct) (auto simp: split_on_no_sep split_on_append)

lemma split_on_parts: "\<forall>w \<in> set (split_on c s). c \<notin> set w"
  by (induction s) (auto split: list.splits)

definition trim :: "string \<Rightarrow> string" where
  "trim s = rev (dropWhile is_space (rev (dropWhile is_space s)))"

definition lower_char :: "char \<Rightarrow> char" where
  "lower_char c = (if 65 \<le> (of_char c :: nat) \<and> (of_char c :: nat) \<le> 90 then char_of (of_char c + 32 :: nat) else c)"

definition to_lower :: "string \<Rightarrow> string" where
  "to_lower = map lower_char"

lemma lower_char_idem [simp]: "lower_char (lower_char c) = lower_char c"
  by (auto simp: lower_char_def)

lemma to_lower_idem [simp]: "to_lower (to_lower s) = to_lower s"
  by (simp add: to_lower_def)

section \<open>Arrays\<close>

fun find_index :: "('a \<Rightarrow> bool) \<Rightarrow> 'a list \<Rightarrow> nat option" where
  "find_index P [] = None"
| "find_index P (x # xs) = (if P x then Some 0 else map_option Suc (find_index P xs))"

lemma find_index_None: "find_index P xs = None \<longleftrightarrow> (\<forall>x \<in> set xs. \<not> P x)"
  by (induction xs) auto

lemma find_index_Some:
  "find_index P xs = Some i \<Longrightarrow> i < length xs \<and> P (xs ! i) \<and> (\<forall>j < i. \<not> P (xs ! j))"
proof (induction xs arbitrary: i)
  case Nil
  then show ?case by simp
next
  case (Cons x xs)
  then show ?case by (auto split: if_splits simp: less_Suc_eq_0_disj)
qed

text \<open>\<open>xs.splice(i, 1)\<close>.\<close>

definition splice1 :: "nat \<Rightarrow> 'a list \<Rightarrow> 'a list" where
  "splice1 i xs = take i xs @ drop (Suc i) xs"

lemma splice1_0 [simp]: "splice1 0 (x # xs) = xs"
  by (simp add: splice1_def)

lemma splice1_Suc [simp]: "splice1 (Suc i) (x # xs) = x # splice1 i xs"
  by (simp add: splice1_def)

lemma splice1_find_index_Some: "find_index (\<lambda>y. y = v) xs = Some i \<Longrightarrow> splice1 i xs = remove1 v xs"
  by (induction xs arbitrary: i) (auto split: if_splits)

lemma splice1_find_index:
  "(case find_index (\<lambda>y. y = v) xs of None \<Rightarrow> xs | Some i \<Rightarrow> splice1 i xs) = remove1 v xs"
proof (cases "find_index (\<lambda>y. y = v) xs")
  case None
  then have "v \<notin> set xs" by (auto simp: find_index_None)
  with None show ?thesis by (simp add: remove1_idem)
next
  case (Some i)
  then show ?thesis by (simp add: splice1_find_index_Some)
qed

lemma length_splice1: "i < length xs \<Longrightarrow> length (splice1 i xs) = length xs - 1"
  by (simp add: splice1_def)

lemma set_splice1: "set (splice1 i xs) \<subseteq> set xs"
  by (auto simp: splice1_def dest: in_set_takeD in_set_dropD)

lemma map_splice1: "map f (splice1 i xs) = splice1 i (map f xs)"
  by (simp add: splice1_def take_map drop_map)

lemma distinct_splice1: "distinct xs \<Longrightarrow> distinct (splice1 i xs)"
proof (induction xs arbitrary: i)
  case Nil
  then show ?case by (simp add: splice1_def)
next
  case (Cons x xs)
  then show ?case using set_splice1 [of _ xs] by (cases i) auto
qed

text \<open>\<open>xs[i]\<close>: reading out of range gives undefined.\<close>

definition arr_at :: "jsval list \<Rightarrow> nat \<Rightarrow> jsval" where
  "arr_at xs i = (if i < length xs then xs ! i else Undef)"

text \<open>\<open>xs[i] = v\<close>: writing past the end extends the array with holes.\<close>

definition arr_set :: "nat \<Rightarrow> 'a \<Rightarrow> 'a \<Rightarrow> 'a list \<Rightarrow> 'a list" where
  "arr_set i hole v xs =
     (if i < length xs then xs[i := v] else xs @ replicate (i - length xs) hole @ [v])"

lemma length_arr_set [simp]: "length (arr_set i h v xs) = max (length xs) (Suc i)"
  by (simp add: arr_set_def)

lemma nth_arr_set [simp]:
  "j < length (arr_set i h v xs) \<Longrightarrow>
   arr_set i h v xs ! j = (if j = i then v else if j < length xs then xs ! j else h)"
  by (auto simp: arr_set_def nth_append nth_Cons' split: if_splits)

section \<open>Objects as ordered dictionaries\<close>

text \<open>An array index among the keys: a canonical numeral below \<open>2^32 - 1\<close>.\<close>

definition is_index :: "string \<Rightarrow> bool" where
  "is_index k \<longleftrightarrow> k \<noteq> [] \<and> list_all is_digit k \<and> (k = ''0'' \<or> hd k \<noteq> CHR ''0'')
     \<and> nat_of_digits k < 4294967295"

fun ins_index :: "string \<Rightarrow> 'a \<Rightarrow> 'a dict \<Rightarrow> 'a dict" where
  "ins_index k v [] = [(k, v)]"
| "ins_index k v ((k', v') # d) =
     (if is_index k' \<and> nat_of_digits k' < nat_of_digits k then (k', v') # ins_index k v d
      else (k, v) # (k', v') # d)"

definition has_key :: "'a dict \<Rightarrow> string \<Rightarrow> bool" where
  "has_key d k \<longleftrightarrow> k \<in> set (map fst d)"

definition dput :: "string \<Rightarrow> 'a \<Rightarrow> 'a dict \<Rightarrow> 'a dict" where
  "dput k v d =
     (if has_key d k then map (\<lambda>(k', v'). if k' = k then (k, v) else (k', v')) d
      else if is_index k then ins_index k v d
      else d @ [(k, v)])"

definition ddel :: "string \<Rightarrow> 'a dict \<Rightarrow> 'a dict" where
  "ddel k d = filter (\<lambda>(k', v'). k' \<noteq> k) d"

definition keys :: "'a dict \<Rightarrow> string list" where
  "keys d = map fst d"

definition wf_dict :: "'a dict \<Rightarrow> bool" where
  "wf_dict d \<longleftrightarrow> distinct (keys d)"

lemma has_key_iff: "has_key d k \<longleftrightarrow> map_of d k \<noteq> None"
  by (auto simp: has_key_def map_of_eq_None_iff)

lemma map_of_ins_index_at:
  "\<not> has_key d k \<Longrightarrow> map_of (ins_index k v d) x = (if x = k then Some v else map_of d x)"
proof (induction d)
  case Nil
  then show ?case by simp
next
  case (Cons p d)
  then show ?case by (cases p) (auto simp: has_key_def)
qed

lemma map_of_ins_index: "\<not> has_key d k \<Longrightarrow> map_of (ins_index k v d) = (map_of d)(k \<mapsto> v)"
  by (rule ext) (simp add: map_of_ins_index_at)

lemma map_of_replace_other:
  "x \<noteq> k \<Longrightarrow> map_of (map (\<lambda>(k', v'). if k' = k then (k, v) else (k', v')) d) x = map_of d x"
  by (induction d) auto

lemma map_of_replace_same:
  "has_key d k \<Longrightarrow> map_of (map (\<lambda>(k', v'). if k' = k then (k, v) else (k', v')) d) k = Some v"
  by (induction d) (auto simp: has_key_def)

lemma map_of_dput [simp]: "map_of (dput k v d) = (map_of d)(k \<mapsto> v)"
proof (rule ext)
  fix x
  show "map_of (dput k v d) x = ((map_of d)(k \<mapsto> v)) x"
  proof (cases "has_key d k")
    case True
    then show ?thesis
      by (cases "x = k") (simp_all add: dput_def map_of_replace_same map_of_replace_other)
  next
    case False
    then have "map_of d k = None" by (simp add: has_key_iff)
    with False show ?thesis
      by (cases "x = k"; cases "map_of d x")
        (simp_all add: dput_def map_of_ins_index_at map_add_def del: map_of_eq_None_iff)
  qed
qed

lemma set_ins_index: "set (ins_index k v d) = insert (k, v) (set d)"
proof (induction d)
  case Nil
  then show ?case by simp
next
  case (Cons p d)
  then show ?case by (cases p) (simp add: insert_commute)
qed

lemma map_of_ddel [simp]: "map_of (ddel k d) = (map_of d)(k := None)"
  by (induction d) (auto simp: ddel_def fun_eq_iff)

lemma dput_noop:
  assumes "has_key d k" and "\<And>v'. (k, v') \<in> set d \<Longrightarrow> v' = v"
  shows "dput k v d = d"
  using assms by (auto simp: dput_def intro!: map_idI)

lemma in_dput_same: "(k, v') \<in> set (dput k v d) \<Longrightarrow> v' = v"
  by (auto simp: dput_def set_ins_index has_key_def image_iff split: if_splits)

lemma has_key_dput [simp]: "has_key (dput k v d) k' \<longleftrightarrow> k' = k \<or> has_key d k'"
  by (auto simp: has_key_iff)

lemma dput_dput [simp]: "dput k v (dput k v d) = dput k v d"
  by (rule dput_noop) (auto dest: in_dput_same)

lemma set_keys: "set (keys d) = dom (map_of d)"
  by (simp add: keys_def dom_map_of_conv_image_fst)

lemma keys_ins_index_set: "set (keys (ins_index k v d)) = insert k (set (keys d))"
  by (simp add: keys_def set_ins_index)

lemma distinct_ins_index: "\<not> has_key d k \<Longrightarrow> wf_dict d \<Longrightarrow> wf_dict (ins_index k v d)"
proof (induction d)
  case Nil
  then show ?case by (simp add: wf_dict_def keys_def)
next
  case (Cons p d)
  obtain k' v' where p: "p = (k', v')" by fastforce
  from Cons.prems have "\<not> has_key d k" "wf_dict d" "k' \<notin> set (keys d)" "k \<noteq> k'" "k \<notin> set (keys d)"
    by (auto simp: p wf_dict_def keys_def has_key_def)
  with Cons.IH have "distinct (keys (ins_index k v d))" and "k' \<notin> set (keys (ins_index k v d))"
    by (simp_all add: wf_dict_def keys_ins_index_set)
  with \<open>k' \<notin> set (keys d)\<close> \<open>k \<noteq> k'\<close> \<open>k \<notin> set (keys d)\<close> \<open>wf_dict d\<close> show ?case
    by (simp add: p wf_dict_def keys_def)
qed

lemma keys_replace: "keys (map (\<lambda>(k', v'). if k' = k then (k, v) else (k', v')) d) = keys d"
  by (induction d) (auto simp: keys_def)

lemma keys_dput_old [simp]: "has_key d k \<Longrightarrow> keys (dput k v d) = keys d"
  by (simp add: dput_def keys_replace)

lemma wf_dput [simp, intro]: "wf_dict d \<Longrightarrow> wf_dict (dput k v d)"
proof (cases "has_key d k")
  case True
  then show "wf_dict d \<Longrightarrow> wf_dict (dput k v d)" by (simp add: wf_dict_def)
next
  case False
  assume "wf_dict d"
  with False show ?thesis
    by (auto simp: dput_def distinct_ins_index) (auto simp: wf_dict_def keys_def has_key_def)
qed

lemma wf_ddel [simp, intro]: "wf_dict d \<Longrightarrow> wf_dict (ddel k d)"
  by (induction d) (auto simp: wf_dict_def ddel_def keys_def)

lemma wf_Nil [simp]: "wf_dict []"
  by (simp add: wf_dict_def keys_def)

lemma set_keys_dput [simp]: "set (keys (dput k v d)) = insert k (set (keys d))"
  by (auto simp: set_keys)

lemma keys_dput_new: "\<not> has_key d k \<Longrightarrow> \<not> is_index k \<Longrightarrow> keys (dput k v d) = keys d @ [k]"
  by (simp add: dput_def keys_def)

text \<open>\<open>o[k]\<close> on an object: the value, or undefined.\<close>

definition dget :: "obj \<Rightarrow> string \<Rightarrow> jsval" where
  "dget d k = (case map_of d k of None \<Rightarrow> Undef | Some v \<Rightarrow> v)"

lemma dget_Nil [simp]: "dget [] k = Undef"
  by (simp add: dget_def)

lemma dget_Cons [simp]: "dget ((k', v) # d) k = (if k = k' then v else dget d k)"
  by (simp add: dget_def)

lemma dget_dput [simp]: "dget (dput k v d) k' = (if k' = k then v else dget d k')"
  by (simp add: dget_def)

lemma dget_ddel [simp]: "dget (ddel k d) k' = (if k' = k then Undef else dget d k')"
  by (simp add: dget_def)

text \<open>
  The contract of a dictionary, as the components use it: what a lookup returns after a store
  or a delete, and that the keys stay distinct.
\<close>

locale dictionary =
  fixes lookup :: "'d \<Rightarrow> string \<Rightarrow> 'v option"
    and store :: "string \<Rightarrow> 'v \<Rightarrow> 'd \<Rightarrow> 'd"
    and erase :: "string \<Rightarrow> 'd \<Rightarrow> 'd"
    and wf :: "'d \<Rightarrow> bool"
  assumes lookup_store: "wf d \<Longrightarrow> lookup (store k v d) = (lookup d)(k \<mapsto> v)"
    and lookup_erase: "wf d \<Longrightarrow> lookup (erase k d) = (lookup d)(k := None)"
    and wf_store: "wf d \<Longrightarrow> wf (store k v d)"
    and wf_erase: "wf d \<Longrightarrow> wf (erase k d)"
begin

lemma lookup_store_same: "wf d \<Longrightarrow> lookup (store k v d) k = Some v"
  by (simp add: lookup_store)

lemma store_all:
  "wf d \<Longrightarrow> wf (fold (\<lambda>(k, v). store k v) kvs d)
     \<and> lookup (fold (\<lambda>(k, v). store k v) kvs d) = lookup d ++ map_of (rev kvs)"
proof (induction kvs arbitrary: d)
  case Nil
  then show ?case by simp
next
  case (Cons kv kvs)
  obtain k v where kv: "kv = (k, v)" by fastforce
  from Cons.prems have "wf (store k v d)" by (rule wf_store)
  with Cons.IH [of "store k v d"] show ?case
    by (simp add: kv lookup_store Cons.prems map_add_def fun_eq_iff split: option.splits)
qed

lemma store_erase_commute:
  "wf d \<Longrightarrow> k \<noteq> k' \<Longrightarrow> lookup (erase k (store k' v d)) = lookup (store k' v (erase k d))"
  by (auto simp: lookup_store lookup_erase wf_store wf_erase)

end

interpretation jd: dictionary map_of dput ddel wf_dict
  by unfold_locales auto

section \<open>Conversions to text\<close>

text \<open>\<open>String(v)\<close> of the values that \<open>+\<close> and \<open>toString\<close> meet in the program; objects and
  functions print as the runtime prints a plain object.\<close>

fun to_string :: "jsval \<Rightarrow> string" where
  "to_string Undef = ''undefined''"
| "to_string Null = ''null''"
| "to_string (Bool b) = (if b then ''true'' else ''false'')"
| "to_string (Num n) = show_int n"
| "to_string NaN = ''NaN''"
| "to_string (Str s) = s"
| "to_string (Arr vs) = join '','' (map (\<lambda>v. if v = Undef \<or> v = Null then [] else to_string v) vs)"
| "to_string (Obj _) = ''[object Object]''"
| "to_string (Fn f) = ''function '' @ f"
| "to_string (Widget _) = ''[object Object]''"

section \<open>Machines\<close>

text \<open>
  A component whose state is changed by steps. A property of its starting states that every step keeps holds in every
  state it can reach.
\<close>

locale machine =
  fixes start :: "'s \<Rightarrow> bool" and step :: "'s \<Rightarrow> 's \<Rightarrow> bool" and inv :: "'s \<Rightarrow> bool"
  assumes inv_start: "start s \<Longrightarrow> inv s"
    and inv_step: "inv s \<Longrightarrow> step s t \<Longrightarrow> inv t"
begin

lemma inv_steps: "step\<^sup>*\<^sup>* s t \<Longrightarrow> inv s \<Longrightarrow> inv t"
  by (induction rule: rtranclp_induct) (auto intro: inv_step)

lemma inv_reachable: "start s \<Longrightarrow> step\<^sup>*\<^sup>* s t \<Longrightarrow> inv t"
  using inv_steps inv_start by blast

end

end
