(* ===== verification/Boot.thy ===== *)
theory Boot
  imports Complex_Main Prelude
begin

text \<open>
  \<^verbatim>\<open>elasticsearch-head-master/src/app/base/boot.js\<close>: the namespace function, the \<open>acx\<close>
  helpers (object iteration, augmentation, type tests, two dimensional vectors) and the
  extensions of \<open>Object\<close>, \<open>Array\<close> and \<open>String\<close> that the rest of the
  application relies on.
\<close>

section \<open>Namespaces\<close>

text \<open>
  A namespace is an object with its own \<open>ns\<close> function. \<open>ns("a.b")\<close> walks the path and
  creates what is missing or falsy; the model returns the updated root. A truthy value that is
  not an object ends the walk here.
\<close>

fun ns_path :: "string list \<Rightarrow> obj \<Rightarrow> obj" where
  "ns_path [] space = space"
| "ns_path (name # names) space =
     (case dget space name of
        Obj sub \<Rightarrow> dput name (Obj (ns_path names sub)) space
      | v \<Rightarrow> if truthy v then space
             else dput name (Obj (ns_path names [(''ns'', Fn ''ns'')])) space)"

definition ns :: "string \<Rightarrow> obj \<Rightarrow> obj" where
  "ns namespace space = ns_path (split_on CHR ''.'' namespace) space"

fun ns_at :: "string list \<Rightarrow> obj \<Rightarrow> obj option" where
  "ns_at [] space = Some space"
| "ns_at (name # names) space =
     (case dget space name of Obj sub \<Rightarrow> ns_at names sub | _ \<Rightarrow> None)"

text \<open>A namespace path whose every step is an object (or is missing) ends in an object.\<close>

fun ns_free :: "string list \<Rightarrow> obj \<Rightarrow> bool" where
  "ns_free [] space = True"
| "ns_free (name # names) space =
     (case dget space name of Obj sub \<Rightarrow> ns_free names sub | v \<Rightarrow> \<not> truthy v)"

lemma ns_path_idem: "ns_path names (ns_path names space) = ns_path names space"
proof (induction names arbitrary: space)
  case Nil
  then show ?case by simp
next
  case (Cons name names)
  show ?case
    by (cases "dget space name") (simp_all add: Cons.IH)
qed

lemma ns_at_fresh: "ns_at names (ns_path names [(''ns'', Fn ''ns'')]) \<noteq> None \<or> ''ns'' \<in> set names"
proof (induction names)
  case Nil
  then show ?case by simp
next
  case (Cons n ns)
  then show ?case by auto
qed

lemma ns_at_reached:
  "ns_free names space \<Longrightarrow> ''ns'' \<notin> set names \<Longrightarrow> ns_at names (ns_path names space) \<noteq> None"
proof (induction names arbitrary: space)
  case Nil
  then show ?case by simp
next
  case (Cons n ns)
  then show ?case
    using ns_at_fresh [of ns] by (cases "dget space n") auto
qed

section \<open>Object helpers\<close>

definition eachMap :: "'a dict \<Rightarrow> (string \<Rightarrow> 'a \<Rightarrow> 'b) \<Rightarrow> 'b list" where
  "eachMap obj fn = map (\<lambda>(n, v). fn n v) obj"

text \<open>\<open>acx.augment\<close>: a property that exists already keeps its value.\<close>

definition augment1 :: "'a dict \<Rightarrow> 'a dict \<Rightarrow> 'a dict" where
  "augment1 arg src = fold (\<lambda>(n, v) src. if has_key src n then src else dput n v src) arg src"

definition augment :: "'a dict \<Rightarrow> 'a dict list \<Rightarrow> 'a dict" where
  "augment src args = fold augment1 args src"

definition isArray :: "jsval \<Rightarrow> bool" where
  "isArray v = (case v of Arr _ \<Rightarrow> True | _ \<Rightarrow> False)"

definition isObject :: "jsval \<Rightarrow> bool" where
  "isObject v = (case v of Obj _ \<Rightarrow> True | Widget _ \<Rightarrow> True | _ \<Rightarrow> False)"

definition isEmpty :: "jsval \<Rightarrow> bool \<Rightarrow> bool" where
  "isEmpty value allowBlank \<longleftrightarrow>
     value = Null \<or> value = Undef \<or> value = Arr [] \<or> (if \<not> allowBlank then value = Str [] else False)"

definition object_keys :: "'a dict \<Rightarrow> string list" where
  "object_keys obj = fold (\<lambda>(n, v) ret. ret @ [n]) obj []"

lemma object_keys_eq: "object_keys obj = keys obj"
proof -
  have "fold (\<lambda>(n, v) ret. ret @ [n]) obj acc = acc @ keys obj" for acc
    by (induction obj arbitrary: acc) (auto simp: keys_def)
  then show ?thesis by (simp add: object_keys_def)
qed

lemma augment1_Cons:
  "augment1 ((n, v) # arg) src = augment1 arg (if has_key src n then src else dput n v src)"
  by (simp add: augment1_def)

lemma augment1_lookup: "map_of (augment1 arg src) = map_of arg ++ map_of src"
proof (induction arg arbitrary: src)
  case Nil
  then show ?case by (simp add: augment1_def)
next
  case (Cons p arg)
  obtain n v where p: "p = (n, v)" by fastforce
  show ?case
  proof (cases "map_of src n")
    case None
    then have "\<not> has_key src n" by (simp add: has_key_iff)
    with None show ?thesis
      by (simp add: p augment1_Cons Cons.IH map_add_def fun_eq_iff split: option.split)
  next
    case (Some w)
    then have "has_key src n" by (simp add: has_key_iff)
    with Some show ?thesis
      by (simp add: p augment1_Cons Cons.IH map_add_def fun_eq_iff split: option.split)
  qed
qed

lemma augment_lookup: "map_of (augment src args) = fold (\<lambda>arg m. map_of arg ++ m) args (map_of src)"
  unfolding augment_def
  by (induction args arbitrary: src) (simp_all add: augment1_lookup)

section \<open>Vectors\<close>

record vector =
  vx :: rat
  vy :: rat

text \<open>The constructor takes two numbers, or one object with \<open>x, y\<close> or \<open>left, top\<close>.\<close>

datatype varg = VUndef | VNum rat | VObj "rat dict"

fun vprop :: "varg \<Rightarrow> string \<Rightarrow> rat option" where
  "vprop (VObj d) k = map_of d k"
| "vprop _ k = None"

fun vnum :: "varg \<Rightarrow> rat option" where
  "vnum (VNum r) = Some r"
| "vnum _ = None"

fun first_finite :: "rat option list \<Rightarrow> rat" where
  "first_finite [] = 0"
| "first_finite (None # os) = first_finite os"
| "first_finite (Some r # os) = r"

definition vector_Init :: "varg \<Rightarrow> varg \<Rightarrow> vector" where
  "vector_Init x0 y =
     (let x = (if x0 = VUndef then VNum 0 else x0)
      in \<lparr> vx = first_finite [vprop x ''x'', vprop x ''left'', vnum x],
           vy = first_finite [vprop x ''y'', vprop x ''top'', vnum y] \<rparr>)"

definition vec :: "vector \<Rightarrow> varg" where
  "vec v = VObj [(''y'', vy v), (''x'', vx v)]"

definition vec_add :: "vector \<Rightarrow> varg \<Rightarrow> varg \<Rightarrow> vector" where
  "vec_add v i j = (let d = vector_Init i j in vector_Init (VNum (vx v + vx d)) (VNum (vy v + vy d)))"

definition vec_sub :: "vector \<Rightarrow> varg \<Rightarrow> varg \<Rightarrow> vector" where
  "vec_sub v i j = (let d = vector_Init i j in vector_Init (VNum (vx v - vx d)) (VNum (vy v - vy d)))"

definition vec_addX :: "vector \<Rightarrow> rat \<Rightarrow> vector" where
  "vec_addX v i = vector_Init (VNum (vx v + i)) (VNum (vy v))"

definition vec_addY :: "vector \<Rightarrow> rat \<Rightarrow> vector" where
  "vec_addY v j = vector_Init (VNum (vx v)) (VNum (vy v + j))"

definition vec_mod :: "vector \<Rightarrow> (rat \<Rightarrow> rat) \<Rightarrow> vector" where
  "vec_mod v fn = vector_Init (VObj [(''x'', fn (vx v)), (''y'', fn (vy v))]) VUndef"

definition vec_within :: "vector \<Rightarrow> vector \<Rightarrow> vector \<Rightarrow> bool" where
  "vec_within v p q \<longleftrightarrow>
     vx v \<ge> (if vx p < vx q then vx p else vx q) \<and> vx v \<le> (if vx p > vx q then vx p else vx q) \<and>
     vy v \<ge> (if vy p < vy q then vy p else vy q) \<and> vy v \<le> (if vy p > vy q then vy p else vy q)"

definition asOffset :: "vector \<Rightarrow> rat dict" where
  "asOffset v = [(''top'', vy v), (''left'', vx v)]"

definition asSize :: "vector \<Rightarrow> rat dict" where
  "asSize v = [(''height'', vy v), (''width'', vx v)]"

lemma vector_Init_simps [simp]:
  "vx (vector_Init (VNum a) (VNum b)) = a" "vy (vector_Init (VNum a) (VNum b)) = b"
  "vector_Init (vec v) j = \<lparr> vx = vx v, vy = vy v \<rparr>"
  "vector_Init (VObj (asOffset v)) j = \<lparr> vx = vx v, vy = vy v \<rparr>"
  by (simp_all add: vector_Init_def vec_def asOffset_def)

lemma vec_ops [simp]:
  "vx (vec_add v (vec w) j) = vx v + vx w" "vy (vec_add v (vec w) j) = vy v + vy w"
  "vx (vec_sub v (vec w) j) = vx v - vx w" "vy (vec_sub v (vec w) j) = vy v - vy w"
  "vx (vec_add v (VNum a) (VNum b)) = vx v + a" "vy (vec_add v (VNum a) (VNum b)) = vy v + b"
  "vx (vec_sub v (VNum a) (VNum b)) = vx v - a" "vy (vec_sub v (VNum a) (VNum b)) = vy v - b"
  "vx (vec_addX v a) = vx v + a" "vy (vec_addX v a) = vy v"
  "vx (vec_addY v b) = vx v" "vy (vec_addY v b) = vy v + b"
  "vx (vec_mod v f) = f (vx v)" "vy (vec_mod v f) = f (vy v)"
  by (simp_all add: vec_add_def vec_sub_def vec_addX_def vec_addY_def vec_mod_def vector_Init_def Let_def vec_def)

lemma vec_sub_add: "vec_sub (vec_add v (vec w) j) (vec w) j' = \<lparr> vx = vx v, vy = vy v \<rparr>"
  by (simp add: vec_sub_def vec_add_def Let_def vector_Init_def vec_def)

lemma vec_within_iff:
  "vec_within v p q \<longleftrightarrow>
     min (vx p) (vx q) \<le> vx v \<and> vx v \<le> max (vx p) (vx q) \<and>
     min (vy p) (vy q) \<le> vy v \<and> vy v \<le> max (vy p) (vy q)"
  by (auto simp: vec_within_def min_def max_def)

section \<open>Array extensions\<close>

definition contains :: "'a list \<Rightarrow> 'a \<Rightarrow> bool" where
  "contains xs needle \<longleftrightarrow> find_index (\<lambda>x. x = needle) xs \<noteq> None"

definition intersection :: "'a list \<Rightarrow> 'a list \<Rightarrow> 'a list" where
  "intersection xs b = fold (\<lambda>x ret. if contains b x then ret @ [x] else ret) xs []"

definition arr_remove :: "'a \<Rightarrow> 'a list \<Rightarrow> 'a list" where
  "arr_remove value xs =
     (case find_index (\<lambda>x. x = value) xs of None \<Rightarrow> xs | Some i \<Rightarrow> splice1 i xs)"

lemma contains_iff [simp, code]: "contains xs x \<longleftrightarrow> x \<in> set xs"
  by (auto simp: contains_def find_index_None)

lemma intersection_eq: "intersection xs b = filter (\<lambda>x. x \<in> set b) xs"
proof -
  have "fold (\<lambda>x ret. if contains b x then ret @ [x] else ret) xs acc = acc @ filter (\<lambda>x. x \<in> set b) xs" for acc
    by (induction xs arbitrary: acc) auto
  then show ?thesis by (simp add: intersection_def)
qed

lemma arr_remove_eq [simp]: "arr_remove v xs = remove1 v xs"
  by (simp add: arr_remove_def splice1_find_index)

section \<open>String extensions\<close>

definition equalsIgnoreCase :: "string \<Rightarrow> string \<Rightarrow> bool" where
  "equalsIgnoreCase s match \<longleftrightarrow> to_lower s = to_lower match"

text \<open>\<open>s.replace(/c/g, r)\<close> for a single character \<open>c\<close>.\<close>

definition replace_char :: "char \<Rightarrow> string \<Rightarrow> string \<Rightarrow> string" where
  "replace_char c r s = concat (map (\<lambda>x. if x = c then r else [x]) s)"

definition escapeHtml :: "string \<Rightarrow> string" where
  "escapeHtml s =
     replace_char CHR ''>'' ''&gt;'' (replace_char CHR ''<'' ''&lt;'' (replace_char CHR ''&'' ''&amp;'' s))"

definition zeroPad :: "nat \<Rightarrow> string \<Rightarrow> string" where
  "zeroPad len s = drop (nat (int (length s) - int len + 10)) (replicate 10 CHR ''0'' @ s)"

definition hex_digit :: "nat \<Rightarrow> char" where
  "hex_digit d = (if d < 10 then char_of (48 + d) else char_of (87 + d))"

fun show_hex :: "nat \<Rightarrow> string" where
  "show_hex n = (if n < 16 then [hex_digit n] else show_hex (n div 16) @ [hex_digit (n mod 16)])"

declare show_hex.simps [simp del]

abbreviation (input) backslash :: char where "backslash \<equiv> CHR 0x5C"
abbreviation (input) dquote :: char where "dquote \<equiv> CHR 0x22"

definition escape_meta :: "char \<Rightarrow> string option" where
  "escape_meta c = map_of
     [(dquote, [backslash, dquote]), (backslash, [backslash, backslash]), (CHR ''/'', [backslash, CHR ''/'']),
      (CHR 0x08, [backslash, CHR ''b'']), (CHR 0x0C, [backslash, CHR ''f'']), (CHR 0x0A, [backslash, CHR ''n'']),
      (CHR 0x0D, [backslash, CHR ''r'']), (CHR 0x09, [backslash, CHR ''t''])] c"

definition needs_escape :: "char \<Rightarrow> bool" where
  "needs_escape c \<longleftrightarrow> c = dquote \<or> c = backslash \<or> (of_char c :: nat) \<le> 31 \<or> 127 \<le> (of_char c :: nat)"

definition escape_xfrm :: "char \<Rightarrow> string" where
  "escape_xfrm c =
     (case escape_meta c of Some e \<Rightarrow> e
      | None \<Rightarrow> [backslash, CHR ''u''] @ zeroPad 4 (show_hex (of_char c)))"

definition escapeJS :: "string \<Rightarrow> string" where
  "escapeJS s = concat (map (\<lambda>c. if needs_escape c then escape_xfrm c else [c]) s)"

definition regexp_meta :: string where
  "regexp_meta = backslash # ''^$*+?.()=|{,}[]-''"

definition escapeRegExp :: "string \<Rightarrow> string" where
  "escapeRegExp s =
     fold (\<lambda>c ret. ret @ (if str_contains regexp_meta [c] then [backslash] else []) @ [c]) s []"

section \<open>What the escapes preserve\<close>

text \<open>The reader of an escaped JavaScript literal, as the specification of \<open>escapeJS\<close>.\<close>

definition hex_val :: "char \<Rightarrow> nat" where
  "hex_val c = (if is_digit c then of_char c - 48 else of_char c - 87)"

definition read_hex :: "string \<Rightarrow> nat" where
  "read_hex = foldl (\<lambda>n c. 16 * n + hex_val c) 0"

definition unescape_short :: "char \<Rightarrow> char" where
  "unescape_short c =
     (if c = CHR ''b'' then CHR 0x08 else if c = CHR ''f'' then CHR 0x0C else if c = CHR ''n'' then CHR 0x0A
      else if c = CHR ''r'' then CHR 0x0D else if c = CHR ''t'' then CHR 0x09 else c)"

function unescapeJS :: "string \<Rightarrow> string" where
  "unescapeJS [] = []"
| "unescapeJS (x # s) =
     (if x \<noteq> backslash then x # unescapeJS s
      else (case s of [] \<Rightarrow> [x]
            | c # s' \<Rightarrow> if c = CHR ''u'' then char_of (read_hex (take 4 s')) # unescapeJS (drop 4 s')
                        else unescape_short c # unescapeJS s'))"
  by pat_completeness auto
termination
  by (relation "measure length") auto

declare unescapeJS.simps(2) [simp del]

lemma of_hex_digit: "d < 16 \<Longrightarrow> hex_val (hex_digit d) = d"
  by (auto simp: hex_val_def hex_digit_def is_digit_def)

lemma read_hex_snoc: "read_hex (s @ [c]) = 16 * read_hex s + hex_val c"
  by (simp add: read_hex_def)

lemma read_hex_single [simp]: "read_hex [c] = hex_val c"
  by (simp add: read_hex_def)

lemma read_show_hex [simp]: "read_hex (show_hex n) = n"
proof (induction n rule: show_hex.induct)
  case (1 n)
  then show ?case
    by (cases "n < 16") (simp_all add: show_hex.simps [of n] read_hex_snoc of_hex_digit)
qed

lemma show_hex_small: "n < 16 \<Longrightarrow> show_hex n = [hex_digit n]"
  by (simp add: show_hex.simps)

lemma show_hex_byte: "16 \<le> n \<Longrightarrow> n < 256 \<Longrightarrow> show_hex n = [hex_digit (n div 16), hex_digit (n mod 16)]"
  by (subst show_hex.simps) (simp add: show_hex_small)

lemma length_show_hex_byte: "n < 256 \<Longrightarrow> length (show_hex n) \<in> {1, 2}"
  by (cases "n < 16") (simp_all add: show_hex_small show_hex_byte)

lemma read_hex_zeros: "read_hex (replicate k CHR ''0'' @ s) = read_hex s"
proof -
  have "foldl (\<lambda>n c. 16 * n + hex_val c) 0 (replicate k CHR ''0'') = (0::nat)"
    by (induction k) (simp_all add: hex_val_def is_digit_def)
  then show ?thesis by (simp add: read_hex_def)
qed

lemma zeroPad_short:
  "length s \<le> len \<Longrightarrow> len \<le> length s + 10 \<Longrightarrow> zeroPad len s = replicate (len - length s) CHR ''0'' @ s"
  by (simp add: zeroPad_def nat_diff_distrib' algebra_simps)

lemma zeroPad_long: "len \<le> length s \<Longrightarrow> zeroPad len s = drop (length s - len) s"
  by (simp add: zeroPad_def nat_add_distrib nat_diff_distrib' algebra_simps)

lemma length_zeroPad: "len \<le> length s + 10 \<Longrightarrow> length (zeroPad len s) = len"
  by (cases "length s \<le> len") (simp_all add: zeroPad_short zeroPad_long)

lemma escape_u:
  "escape_meta c = None \<Longrightarrow>
   \<exists>h. escape_xfrm c = backslash # CHR ''u'' # h \<and> length h = 4 \<and> read_hex h = of_char c"
proof -
  assume n: "escape_meta c = None"
  let ?s = "show_hex (of_char c)"
  have "length ?s \<in> {1, 2}" using length_show_hex_byte [of "of_char c"] by simp
  then have "zeroPad 4 ?s = replicate (4 - length ?s) CHR ''0'' @ ?s" "length (zeroPad 4 ?s) = 4"
    by (auto intro!: zeroPad_short length_zeroPad)
  with n show ?thesis by (simp add: escape_xfrm_def read_hex_zeros)
qed

lemma escape_short:
  "escape_meta c = Some e \<Longrightarrow> \<exists>x. e = [backslash, x] \<and> x \<noteq> CHR ''u'' \<and> unescape_short x = c"
  unfolding escape_meta_def by (drule map_of_SomeD) (auto simp: unescape_short_def)

abbreviation (input) printable :: "char \<Rightarrow> bool" where
  "printable c \<equiv> 32 \<le> (of_char c :: nat) \<and> (of_char c :: nat) < 127"

lemma hex_digit_printable: "d < 16 \<Longrightarrow> printable (hex_digit d)"
  by (auto simp: hex_digit_def)

lemma show_hex_printable: "c \<in> set (show_hex n) \<Longrightarrow> printable c"
proof (induction n rule: show_hex.induct)
  case (1 n)
  then show ?case
    using hex_digit_printable [of "n mod 16"] hex_digit_printable [of n]
    by (cases "n < 16") (auto simp: show_hex.simps [of n])
qed

lemma zeroPad_printable: "(\<And>c. c \<in> set s \<Longrightarrow> printable c) \<Longrightarrow> c \<in> set (zeroPad n s) \<Longrightarrow> printable c"
  unfolding zeroPad_def by (drule in_set_dropD) auto

lemma escape_meta_printable: "escape_meta c = Some e \<Longrightarrow> x \<in> set e \<Longrightarrow> printable x"
  unfolding escape_meta_def by (drule map_of_SomeD) auto

lemma escape_printable:
  "\<forall>x \<in> set (if needs_escape c then escape_xfrm c else [c]). printable x"
proof (cases "needs_escape c")
  case False
  then show ?thesis by (simp add: needs_escape_def)
next
  case True
  show ?thesis
  proof (cases "escape_meta c")
    case None
    have "printable x" if "x \<in> set (zeroPad 4 (show_hex (of_char c)))" for x
      by (rule zeroPad_printable [OF _ that]) (rule show_hex_printable)
    with True None show ?thesis by (auto simp: escape_xfrm_def)
  next
    case (Some e)
    then show ?thesis using escape_meta_printable [OF Some] True by (simp add: escape_xfrm_def)
  qed
qed

lemma unescapeJS_char: "unescapeJS ((if needs_escape c then escape_xfrm c else [c]) @ s) = c # unescapeJS s"
proof (cases "needs_escape c")
  case False
  then have "c \<noteq> backslash" by (auto simp: needs_escape_def)
  with False show ?thesis by (simp add: unescapeJS.simps(2))
next
  case True
  show ?thesis
  proof (cases "escape_meta c")
    case None
    then obtain h where "escape_xfrm c = backslash # CHR ''u'' # h" "length h = 4" "read_hex h = of_char c"
      using escape_u by blast
    with True show ?thesis by (simp add: unescapeJS.simps(2))
  next
    case (Some e)
    then obtain x where "e = [backslash, x]" "x \<noteq> CHR ''u''" "unescape_short x = c"
      using escape_short by blast
    with True Some show ?thesis by (simp add: unescapeJS.simps(2) escape_xfrm_def)
  qed
qed

text \<open>\<open>String.prototype.escapeJS\<close> loses nothing and is safe inside a double-quoted literal:
  reading the escaped text back gives the string, and every character of the escaped text is
  printable ASCII.\<close>

theorem escapeJS_roundtrip:
  "unescapeJS (escapeJS s) = s \<and> list_all (\<lambda>c. 32 \<le> (of_char c :: nat) \<and> (of_char c :: nat) < 127) (escapeJS s)"
proof (induction s)
  case Nil
  then show ?case by (simp add: escapeJS_def)
next
  case (Cons c s)
  let ?e = "if needs_escape c then escape_xfrm c else [c]"
  have cons: "escapeJS (c # s) = ?e @ escapeJS s" by (simp add: escapeJS_def)
  have "\<forall>x \<in> set ?e. 32 \<le> (of_char x :: nat) \<and> (of_char x :: nat) < 127"
    by (rule escape_printable)
  then show ?case
    using Cons.IH by (auto simp: cons unescapeJS_char list_all_iff)
qed

text \<open>The reader of escaped HTML text.\<close>

function unescapeHtml :: "string \<Rightarrow> string" where
  "unescapeHtml [] = []"
| "unescapeHtml (c # s) =
     (if starts_with ''&amp;'' (c # s) then CHR ''&'' # unescapeHtml (drop 5 (c # s))
      else if starts_with ''&lt;'' (c # s) then CHR ''<'' # unescapeHtml (drop 4 (c # s))
      else if starts_with ''&gt;'' (c # s) then CHR ''>'' # unescapeHtml (drop 4 (c # s))
      else c # unescapeHtml s)"
  by pat_completeness auto
termination
  by (relation "measure length") auto

declare unescapeHtml.simps(2) [simp del]

lemma replace_char_Nil [simp]: "replace_char c r [] = []"
  by (simp add: replace_char_def)

lemma replace_char_append: "replace_char c r (s @ t) = replace_char c r s @ replace_char c r t"
  by (simp add: replace_char_def)

lemma replace_char_Cons: "replace_char c r (x # s) = (if x = c then r else [x]) @ replace_char c r s"
  by (simp add: replace_char_def)

lemma escapeHtml_Nil [simp]: "escapeHtml [] = []"
  by (simp add: escapeHtml_def replace_char_def)

lemma escapeHtml_Cons:
  "escapeHtml (c # s) =
     (if c = CHR ''&'' then ''&amp;'' else if c = CHR ''<'' then ''&lt;''
      else if c = CHR ''>'' then ''&gt;'' else [c]) @ escapeHtml s"
  by (simp add: escapeHtml_def replace_char_Cons replace_char_append)

text \<open>\<open>String.prototype.escapeHtml\<close> neutralises markup and loses nothing: the escaped text
  holds no angle bracket, and reading its entities back gives the string.\<close>

theorem escapeHtml_safe:
  "unescapeHtml (escapeHtml s) = s \<and> CHR ''<'' \<notin> set (escapeHtml s) \<and> CHR ''>'' \<notin> set (escapeHtml s)"
proof (induction s)
  case Nil
  then show ?case by simp
next
  case (Cons c s)
  then show ?case
    by (auto simp: escapeHtml_Cons unescapeHtml.simps(2) starts_with_def)
qed

text \<open>\<open>zeroPad(len)\<close> gives exactly \<open>len\<close> characters as long as at most ten zeros are
  missing: a shorter text is filled with zeros on the left, a longer one loses its leading
  characters.\<close>

theorem zeroPad_width:
  assumes "len \<le> length s + 10"
  shows "length (zeroPad len s) = len
     \<and> (length s \<le> len \<longrightarrow> zeroPad len s = replicate (len - length s) CHR ''0'' @ s)
     \<and> (len \<le> length s \<longrightarrow> zeroPad len s = drop (length s - len) s)"
  using assms by (simp add: length_zeroPad zeroPad_short zeroPad_long)

theorem zeroPad_width_witness:
  "length (zeroPad 4 ''1f'') = 4 \<and> zeroPad 4 ''1f'' = ''001f'' \<and> zeroPad 2 ''123'' = ''23''"
  using zeroPad_width [of 4 "''1f''"] zeroPad_width [of 2 "''123''"]
  by (simp add: numeral_eq_Suc)

text \<open>\<open>acx.augment\<close> never overwrites: a property of the first object keeps its value, and a
  new one takes the value of the first argument that has it.\<close>

theorem augment_first_wins:
  "map_of (augment src args) k =
     (case map_of src k of Some v \<Rightarrow> Some v
      | None \<Rightarrow> (case filter (\<lambda>arg. has_key arg k) args of [] \<Rightarrow> None | arg # _ \<Rightarrow> map_of arg k))"
proof -
  have "fold (\<lambda>arg m. map_of arg ++ m) args m k =
      (case m k of Some v \<Rightarrow> Some v
       | None \<Rightarrow> (case filter (\<lambda>arg. has_key arg k) args of [] \<Rightarrow> None | arg # _ \<Rightarrow> map_of arg k))" for m
    by (induction args arbitrary: m) (auto simp: has_key_iff map_add_def split: option.splits)
  then show ?thesis by (simp add: augment_lookup)
qed

end
