(* ===== verification/Observable.thy ===== *)
theory Observable
  imports Boot
begin

text \<open>
  \<^verbatim>\<open>ux/class.js\<close>, \<^verbatim>\<open>ux/observable.js\<close> and \<^verbatim>\<open>ux/singleton.js\<close> of
  elasticsearch-head: classes with configuration defaults and \<open>_super\<close> calls, objects that
  fire events to their observers, and classes with a single instance.
\<close>

section \<open>Classes\<close>

text \<open>\<open>$.extend(target, arg)\<close>: later properties win, undefined ones are skipped.\<close>

definition jq_extend :: "obj \<Rightarrow> obj \<Rightarrow> obj" where
  "jq_extend target arg = fold (\<lambda>(n, v) d. if v = Undef then d else dput n v d) arg target"

text \<open>
  A member of a class body: a method, with the text that names it and whether its source mentions
  \<open>_super\<close> (the test \<open>fnTest\<close>), or a plain value.
\<close>

datatype member = Method string bool | Value jsval

type_synonym class_body = "member dict"

text \<open>
  A class is its body on top of those of its ancestors, the most derived first. What a member
  name means in an instance: a value, or a function with the function that \<open>this._super\<close> is
  bound to while it runs (none when the method was not wrapped).
\<close>

datatype bound = Bound_method string "bound option" | Bound_value jsval

fun proto_member :: "class_body list \<Rightarrow> string \<Rightarrow> bound option" where
  "proto_member [] name = None"
| "proto_member (prop # supers) name =
     (case map_of prop name of
        None \<Rightarrow> proto_member supers name
      | Some (Value v) \<Rightarrow> Some (Bound_value v)
      | Some (Method m mentions_super) \<Rightarrow>
          (case proto_member supers name of
             Some (Bound_method m' s') \<Rightarrow>
               Some (Bound_method m (if mentions_super then Some (Bound_method m' s') else None))
           | _ \<Rightarrow> Some (Bound_method m None)))"

definition class_extend :: "class_body \<Rightarrow> class_body list \<Rightarrow> class_body list" where
  "class_extend prop parent = prop # parent"

text \<open>
  The configuration of a new instance: the \<open>defaults\<close> seen from every class of the chain, the root
  first, and then the last argument of the constructor.
\<close>

definition defaults_of :: "class_body list \<Rightarrow> obj" where
  "defaults_of chain = (case proto_member chain ''defaults'' of Some (Bound_value (Obj d)) \<Rightarrow> d | _ \<Rightarrow> [])"

fun proto_config :: "class_body list \<Rightarrow> obj" where
  "proto_config [] = []"
| "proto_config (prop # supers) = jq_extend (proto_config supers) (defaults_of (prop # supers))"

definition instance_config :: "class_body list \<Rightarrow> obj \<Rightarrow> obj" where
  "instance_config chain arg = jq_extend (proto_config chain) arg"

lemma jq_extend_lookup:
  "wf_dict arg \<Longrightarrow> dget (jq_extend target arg) k = (if dget arg k = Undef then dget target k else dget arg k)"
proof (induction arg arbitrary: target)
  case Nil
  then show ?case by (simp add: jq_extend_def)
next
  case (Cons p arg)
  obtain n v where p: "p = (n, v)" by fastforce
  have wf: "wf_dict arg" and notin: "n \<notin> set (keys arg)"
    using Cons.prems by (auto simp: p wf_dict_def keys_def)
  then have "map_of arg n = None" by (simp add: set_keys domIff)
  then have undef: "dget arg n = Undef" by (simp add: dget_def)
  have step: "jq_extend target (p # arg) = jq_extend (if v = Undef then target else dput n v target) arg"
    by (simp add: p jq_extend_def)
  show ?case
    using undef by (simp add: step Cons.IH [OF wf]) (simp add: p)
qed

section \<open>Observables\<close>

text \<open>A registered observer: the callback, its bound first arguments and its \<open>this\<close>.\<close>

record observer =
  cb :: string
  args :: "jsval list"
  cx :: jsval

type_synonym observers = "observer list dict"

definition obs_of :: "observers \<Rightarrow> string \<Rightarrow> observer list" where
  "obs_of os type = (case map_of os (to_lower type) of None \<Rightarrow> [] | Some l \<Rightarrow> l)"

text \<open>\<open>_getObs\<close> also installs an empty list for a type it has not seen.\<close>

definition getObs :: "observers \<Rightarrow> string \<Rightarrow> observers \<times> observer list" where
  "getObs os type =
     (case map_of os (to_lower type) of
        None \<Rightarrow> (dput (to_lower type) [] os, [])
      | Some l \<Rightarrow> (os, l))"

definition set_obs :: "string \<Rightarrow> observer list \<Rightarrow> observers \<Rightarrow> observers" where
  "set_obs type l os = dput (to_lower type) l os"

text \<open>\<open>on(type, fn, params, thisp)\<close>; \<open>self\<close> is the observable itself.\<close>

definition on :: "jsval \<Rightarrow> string \<Rightarrow> string \<Rightarrow> jsval list \<Rightarrow> jsval \<Rightarrow> observers \<Rightarrow> observers" where
  "on self type fn params thisp os =
     (let (os', l) = getObs os type
      in set_obs type (l @ [\<lparr> cb = fn, args = params, cx = js_or thisp self \<rparr>]) os')"

text \<open>
  \<open>fire\<close>: the calls that are made, in order, each with its \<open>this\<close> and its arguments. They are
  fixed before the first one runs (the list of observers is sliced), so what a callback registers
  or removes does not change this round.
\<close>

type_synonym call = "string \<times> jsval \<times> jsval list"

definition fire :: "observers \<Rightarrow> string \<Rightarrow> jsval list \<Rightarrow> observers \<times> call list" where
  "fire os type params =
     (let (os', l) = getObs os type
      in (os', map (\<lambda>ob. (cb ob, cx ob, args ob @ params)) l))"

definition removeAllObservers :: "observers \<Rightarrow> observers" where
  "removeAllObservers os = []"

text \<open>The index that the \<open>reduce\<close> of \<open>removeObserver\<close> computes: the last match.\<close>

definition last_index :: "string \<Rightarrow> observer list \<Rightarrow> nat option" where
  "last_index fn l =
     snd (fold (\<lambda>t (i, p). (Suc i, if cb t = fn then Some i else p)) l (0, None))"

definition removeObserver :: "string \<Rightarrow> string \<Rightarrow> observers \<Rightarrow> observers" where
  "removeObserver type fn os =
     (let (os', l) = getObs os type
      in case last_index fn l of None \<Rightarrow> os' | Some i \<Rightarrow> set_obs type (splice1 i l) os')"

definition hasObserver :: "observers \<Rightarrow> string \<Rightarrow> bool" where
  "hasObserver os type \<longleftrightarrow> snd (getObs os type) \<noteq> []"

text \<open>
  \<open>init\<close>: every configuration option whose name starts with \<open>on\<close> becomes an observer of the rest
  of its name.
\<close>

definition observable_init :: "jsval \<Rightarrow> obj \<Rightarrow> observers" where
  "observable_init self config =
     fold (\<lambda>(opt, v) os. if index_of ''on'' opt = Some 0
             then on self (drop 2 opt) (to_string v) [] Undef os else os) config []"

lemma getObs_snd [simp]: "snd (getObs os type) = obs_of os type"
  by (auto simp: getObs_def obs_of_def split: option.split)

lemma obs_of_getObs [simp]: "obs_of (fst (getObs os type)) type' = obs_of os type'"
  by (auto simp: getObs_def obs_of_def split: option.split)

lemma obs_of_set_obs [simp]:
  "obs_of (set_obs type l os) type' = (if to_lower type' = to_lower type then l else obs_of os type')"
  by (simp add: set_obs_def obs_of_def)

lemma obs_of_on [simp]:
  "obs_of (on self type fn params thisp os) type' =
     (if to_lower type' = to_lower type then obs_of os type @ [\<lparr> cb = fn, args = params, cx = js_or thisp self \<rparr>]
      else obs_of os type')"
  using getObs_snd [of os type] obs_of_getObs [of os type]
  by (cases "getObs os type") (simp add: on_def)

lemma last_index_snoc: "last_index fn (l @ [t]) = (if cb t = fn then Some (length l) else last_index fn l)"
proof -
  have "fst (fold (\<lambda>t (i, p). (Suc i, if cb t = fn then Some i else p)) l (0, None)) = length l"
    by (induction l rule: rev_induct) (auto split: prod.split)
  then show ?thesis
    by (simp add: last_index_def split: prod.split) (metis fst_conv)
qed

lemma last_index_None: "last_index fn l = None \<longleftrightarrow> (\<forall>ob \<in> set l. cb ob \<noteq> fn)"
proof (induction l rule: rev_induct)
  case Nil
  then show ?case by (simp add: last_index_def)
next
  case (snoc t l)
  then show ?case by (simp add: last_index_snoc)
qed

lemma last_index_Some:
  "last_index fn l = Some i \<Longrightarrow> \<exists>a ob b. l = a @ ob # b \<and> length a = i \<and> cb ob = fn \<and> (\<forall>o' \<in> set b. cb o' \<noteq> fn)"
proof (induction l rule: rev_induct)
  case Nil
  then show ?case by (simp add: last_index_def)
next
  case (snoc t l)
  show ?case
  proof (cases "cb t = fn")
    case True
    with snoc.prems show ?thesis
      by (intro exI [of _ l] exI [of _ t] exI [of _ "[]"]) (simp add: last_index_snoc)
  next
    case False
    with snoc.prems have "last_index fn l = Some i" by (simp add: last_index_snoc)
    with snoc.IH obtain a ob b where
      "l = a @ ob # b" "length a = i" "cb ob = fn" "\<forall>o' \<in> set b. cb o' \<noteq> fn" by blast
    with False show ?thesis
      by (intro exI [of _ a] exI [of _ ob] exI [of _ "b @ [t]"]) auto
  qed
qed

lemma obs_of_removeObserver:
  "obs_of (removeObserver type fn os) type' =
     (if to_lower type' = to_lower type
      then (case last_index fn (obs_of os type) of None \<Rightarrow> obs_of os type | Some i \<Rightarrow> splice1 i (obs_of os type))
      else obs_of os type')"
proof -
  obtain os' l where g: "getObs os type = (os', l)" by fastforce
  then have l: "l = obs_of os type" and os': "\<And>ty. obs_of os' ty = obs_of os ty"
    using getObs_snd [of os type] obs_of_getObs [of os type] by simp_all
  have cong: "to_lower type' = to_lower type \<Longrightarrow> obs_of os type' = obs_of os type"
    by (simp add: obs_of_def)
  then show ?thesis
    by (auto simp: removeObserver_def g l os' split: option.split)
qed

definition fired :: "observers \<Rightarrow> string \<Rightarrow> jsval list \<Rightarrow> call list" where
  "fired os type params = snd (fire os type params)"

lemma fired_eq: "fired os type params = map (\<lambda>ob. (cb ob, cx ob, args ob @ params)) (obs_of os type)"
  using getObs_snd [of os type] by (cases "getObs os type") (simp add: fired_def fire_def)

text \<open>
  The contract of an event source, as the views use it: a subscription is called last, for its own
  event only, and removing the callback that was subscribed last undoes the subscription.
\<close>

locale event_source =
  fixes calls :: "'s \<Rightarrow> string \<Rightarrow> jsval list \<Rightarrow> call list"
    and subscribe :: "string \<Rightarrow> string \<Rightarrow> jsval \<Rightarrow> 's \<Rightarrow> 's"
    and unsubscribe :: "string \<Rightarrow> string \<Rightarrow> 's \<Rightarrow> 's"
    and same :: "string \<Rightarrow> string \<Rightarrow> bool"
  assumes calls_subscribe: "calls (subscribe t fn thisp s) t' ps = calls s t' ps @ (if same t' t then [(fn, thisp, ps)] else [])"
    and unsubscribe_subscribe: "calls (unsubscribe t fn (subscribe t fn thisp s)) t' ps = calls s t' ps"
    and same_refl: "same t t"
begin

lemma subscribe_called: "(fn, thisp, ps) \<in> set (calls (subscribe t fn thisp s) t ps)"
  by (simp add: calls_subscribe same_refl)

lemma subscribe_all:
  "calls (fold (\<lambda>(t, fn, thisp). subscribe t fn thisp) subs s) t' ps
     = calls s t' ps @ map (\<lambda>(t, fn, thisp). (fn, thisp, ps)) (filter (\<lambda>(t, fn, thisp). same t' t) subs)"
  by (induction subs arbitrary: s) (auto simp: calls_subscribe)

end

interpretation obs: event_source fired
    "\<lambda>t fn thisp. on thisp t fn [] thisp" removeObserver "\<lambda>t t'. to_lower t = to_lower t'"
proof
  show "fired (on thisp t fn [] thisp s) t' ps =
      fired s t' ps @ (if to_lower t' = to_lower t then [(fn, thisp, ps)] else [])" for t fn thisp s t' ps
  proof -
    have "to_lower t' = to_lower t \<Longrightarrow> obs_of s t' = obs_of s t" by (simp add: obs_of_def)
    then show ?thesis by (simp add: fired_eq js_or_def)
  qed
  show "fired (removeObserver t fn (on thisp t fn [] thisp s)) t' ps = fired s t' ps" for t fn thisp s t' ps
    by (simp add: fired_eq obs_of_removeObserver last_index_snoc splice1_def)
      (simp add: obs_of_def)
qed simp

text \<open>firing an event calls, in the order of registration, exactly the observers of that event
  (event names differ by case only), each with its bound arguments followed by the event's; an
  observer added with \<open>on\<close> comes last and hears no other event.\<close>

theorem fire_after_on:
  "fired (on self type fn params thisp os) type' ps =
     fired os type' ps @
     (if to_lower type' = to_lower type then [(fn, js_or thisp self, params @ ps)] else [])"
proof -
  have "to_lower type' = to_lower type \<Longrightarrow> obs_of os type' = obs_of os type"
    by (simp add: obs_of_def)
  then show ?thesis by (simp add: fired_eq)
qed

text \<open>\<open>removeObserver\<close> removes exactly one registration, the most recent one of that callback for
  that event, keeps the order of the others and touches no other event.\<close>

theorem removeObserver_latest:
  "if \<exists>ob \<in> set (obs_of os type). cb ob = fn
   then \<exists>a ob b. obs_of os type = a @ ob # b \<and> cb ob = fn \<and> (\<forall>o' \<in> set b. cb o' \<noteq> fn)
        \<and> obs_of (removeObserver type fn os) type = a @ b
        \<and> (\<forall>type'. to_lower type' \<noteq> to_lower type \<longrightarrow> obs_of (removeObserver type fn os) type' = obs_of os type')
   else \<forall>type'. obs_of (removeObserver type fn os) type' = obs_of os type'"
proof (cases "last_index fn (obs_of os type)")
  case None
  then have "\<not> (\<exists>ob \<in> set (obs_of os type). cb ob = fn)" by (simp add: last_index_None)
  moreover have "to_lower type' = to_lower type \<Longrightarrow> obs_of os type' = obs_of os type" for type'
    by (simp add: obs_of_def)
  ultimately show ?thesis
    using None obs_of_removeObserver [of type fn os] by (metis option.simps(4))
next
  case (Some i)
  then obtain a ob b where l: "obs_of os type = a @ ob # b" "length a = i" "cb ob = fn"
    "\<forall>o' \<in> set b. cb o' \<noteq> fn" using last_index_Some by blast
  then have "splice1 i (obs_of os type) = a @ b" by (simp add: splice1_def)
  with Some l show ?thesis by (auto simp: obs_of_removeObserver)
qed

definition two_handlers :: observers where
  "two_handlers = on Null ''Click'' ''f'' [] Null (on Null ''data'' ''g'' [] Null (on Null ''click'' ''f'' [] Null []))"

theorem removeObserver_latest_witness:
  "(\<exists>ob \<in> set (obs_of two_handlers ''click''). cb ob = ''f'')
   \<and> length (obs_of (removeObserver ''click'' ''f'' two_handlers) ''click'') = 1
   \<and> length (obs_of (removeObserver ''click'' ''f'' two_handlers) ''data'') = 1"
proof -
  have two: "length (obs_of two_handlers ''click'') = 2" "length (obs_of two_handlers ''data'') = 1"
    and mem: "\<exists>ob \<in> set (obs_of two_handlers ''click''). cb ob = ''f''"
    and differ: "to_lower ''data'' \<noteq> to_lower ''click''"
    by code_simp+
  then obtain a ob b where l: "obs_of two_handlers ''click'' = a @ ob # b"
    "obs_of (removeObserver ''click'' ''f'' two_handlers) ''click'' = a @ b"
    "obs_of (removeObserver ''click'' ''f'' two_handlers) ''data'' = obs_of two_handlers ''data''"
    using removeObserver_latest [of two_handlers "''click''" "''f''"] by auto
  from l(1) two(1) have "length (a @ b) = 1" by simp
  with l two mem show ?thesis by simp
qed

section \<open>Singletons\<close>

text \<open>
  \<open>Self.instance\<close> on a class object: the instance is built on the first call and kept as the own
  property \<open>me\<close> of the class, or found on it. \<open>make\<close> is the constructor, which numbers what it
  builds.
\<close>

record class_object =
  me :: "nat option"

definition instance_of :: "nat \<Rightarrow> class_object \<Rightarrow> nat \<times> class_object \<times> nat" where
  "instance_of next_id c =
     (case me c of Some i \<Rightarrow> (i, c, next_id) | None \<Rightarrow> (next_id, c\<lparr> me := Some next_id \<rparr>, Suc next_id))"

lemma instance_of_stable:
  "instance_of n c = (i, c', n') \<Longrightarrow> instance_of m c' = (i, c', m)"
  by (auto simp: instance_of_def split: option.splits)

end
