(* ===== verification/Templates.thy ===== *)
theory Templates
  imports Observable
begin

text \<open>
  \<^verbatim>\<open>ux/templates/templates.js\<close>: the small templates that the pages share, among them the two
  formatters of byte sizes and of counts.

  The formatters divide a double repeatedly. A division by 1024 is exact on doubles, so the size is
  computed on rationals; a division by 1000 is not, and is followed by the rounding of the 53 bit
  significand. Both are meant for integers from 0 to \<open>2^53\<close>, the sizes and counts that
  Elasticsearch reports.
\<close>

section \<open>Templates\<close>

definition option_template :: "jsval \<Rightarrow> jsval" where
  "option_template v = Obj [(''tag'', Str ''OPTION''), (''value'', v), (''text'', v)]"

definition require_template :: "obj \<Rightarrow> jsval" where
  "require_template f =
     (if truthy (dget f ''require'')
      then Obj [(''tag'', Str ''SPAN''), (''cls'', Str ''require''), (''text'', Str ''*'')]
      else Null)"

section \<open>Fixed-point numerals\<close>

text \<open>\<open>x.toFixed(f)\<close> for \<open>x \<ge> 0\<close>: the nearest multiple of \<open>10^-f\<close>, the larger one on a tie.\<close>

definition fixed_units :: "nat \<Rightarrow> rat \<Rightarrow> nat" where
  "fixed_units f x = nat \<lfloor>x * 10 ^ f + 1 / 2\<rfloor>"

definition toFixed :: "nat \<Rightarrow> rat \<Rightarrow> string" where
  "toFixed f x =
     (let m = show_nat (fixed_units f x)
      in if f = 0 then m
         else let z = replicate (Suc f - length m) CHR ''0'' @ m
              in take (length z - f) z @ ''.'' @ drop (length z - f) z)"

lemma fixed_units_error: "0 \<le> x \<Longrightarrow> \<bar>of_nat (fixed_units f x) / 10 ^ f - x\<bar> \<le> 1 / (2 * 10 ^ f)"
proof -
  assume x: "0 \<le> x"
  let ?y = "x * 10 ^ f"
  have pos: "(0::rat) < 10 ^ f" by simp
  from x have "0 \<le> \<lfloor>?y + 1 / 2\<rfloor>" by simp
  then have m: "(of_nat (fixed_units f x) :: rat) = of_int \<lfloor>?y + 1 / 2\<rfloor>"
    by (simp add: fixed_units_def)
  have "of_int \<lfloor>?y + 1 / 2\<rfloor> \<le> ?y + 1 / 2" "?y + 1 / 2 < of_int \<lfloor>?y + 1 / 2\<rfloor> + 1"
    using floor_correct [of "?y + 1 / 2"] by simp_all
  then have d: "\<bar>of_int \<lfloor>?y + 1 / 2\<rfloor> - ?y\<bar> \<le> 1 / 2" by linarith
  have "of_int \<lfloor>?y + 1 / 2\<rfloor> / 10 ^ f - x = (of_int \<lfloor>?y + 1 / 2\<rfloor> - ?y) / 10 ^ f"
    using pos by (simp add: field_simps)
  then have "\<bar>of_int \<lfloor>?y + 1 / 2\<rfloor> / 10 ^ f - x\<bar> = \<bar>of_int \<lfloor>?y + 1 / 2\<rfloor> - ?y\<bar> / 10 ^ f"
    using pos by simp
  also have "\<dots> \<le> (1 / 2) / 10 ^ f"
    using d pos by (intro divide_right_mono) simp_all
  finally show ?thesis by (simp add: m)
qed

text \<open>The number of digits after the point: three significant digits in all.\<close>

definition frac_digits :: "rat \<Rightarrow> nat" where
  "frac_digits n = 3 - length (show_nat (nat \<lfloor>n\<rfloor>))"

section \<open>Byte sizes\<close>

definition sib_prefix :: "string list" where
  "sib_prefix = [''B'', ''ki'', ''Mi'', ''Gi'', ''Ti'', ''Pi'', ''Ei'', ''Zi'', ''Yi'']"

function byteSize_loop :: "rat \<Rightarrow> nat \<Rightarrow> rat \<times> nat" where
  "byteSize_loop n i = (if n \<ge> 1000 then byteSize_loop (n / 1024) (Suc i) else (n, i))"
  by pat_completeness auto
termination
proof (relation "measure (\<lambda>(n, i). nat \<lfloor>n\<rfloor>)", goal_cases)
  case 1
  then show ?case by simp
next
  case (2 n i)
  then have "n / 1024 < n - 1" by (simp add: field_simps)
  then have "\<lfloor>n / 1024\<rfloor> < \<lfloor>n\<rfloor>" by linarith
  moreover have "0 < \<lfloor>n\<rfloor>" using 2 by (simp add: le_floor_iff)
  ultimately show ?case by simp
qed

declare byteSize_loop.simps [simp del]

definition prefix_at :: "string list \<Rightarrow> nat \<Rightarrow> string" where
  "prefix_at ps i = (if i < length ps \<and> ps ! i \<noteq> [] then ps ! i else ''..E'')"

definition byteSize_template :: "int \<Rightarrow> string" where
  "byteSize_template n0 =
     (let (n, i) = byteSize_loop (of_int n0) 0
      in (if i = 0 then show_int n0 else toFixed (frac_digits n) n) @ prefix_at sib_prefix i)"

lemma byteSize_loop_scale:
  "byteSize_loop n i = (m, j) \<Longrightarrow> i \<le> j \<and> n = m * 1024 ^ (j - i) \<and> m < 1000 \<and> (i < j \<longrightarrow> 1000 / 1024 \<le> m)"
proof (induction n i rule: byteSize_loop.induct)
  case (1 n i)
  show ?case
  proof (cases "n \<ge> 1000")
    case True
    with "1.prems" have "byteSize_loop (n / 1024) (Suc i) = (m, j)"
      by (simp add: byteSize_loop.simps [of n i])
    with "1.IH" [OF True] have IH: "Suc i \<le> j" "n / 1024 = m * 1024 ^ (j - Suc i)" "m < 1000"
      "Suc i < j \<longrightarrow> 1000 / 1024 \<le> m" by simp_all
    have "n = m * 1024 ^ (j - i)"
      using IH(1,2) by (simp add: Suc_diff_Suc [symmetric] field_simps power_Suc [symmetric] del: power_Suc)
    moreover have "1000 / 1024 \<le> m"
      using IH True by (cases "Suc i < j") (simp_all add: field_simps)
    ultimately show ?thesis using IH by simp
  next
    case False
    with "1.prems" show ?thesis by (simp add: byteSize_loop.simps [of n i])
  qed
qed

text \<open>a byte size is printed with the unit that fits it: the number before the unit, \<open>m\<close>, is the
  size divided by the matching power of 1024, it lies below 1000 (and is at least 1000/1024 when the
  unit is not the byte), and its printed form is within half a unit of its last digit, with up to
  two digits after the point.\<close>

theorem byteSize_template_scaled:
  assumes "0 \<le> n"
  shows "\<exists>m i. byteSize_loop (of_int n) 0 = (m, i) \<and> of_int n = m * 1024 ^ i \<and> m < 1000
     \<and> (0 < i \<longrightarrow> 1000 / 1024 \<le> m)
     \<and> \<bar>of_nat (fixed_units (frac_digits m) m) / 10 ^ frac_digits m - m\<bar> \<le> 1 / (2 * 10 ^ frac_digits m)
     \<and> byteSize_template n =
         (if i = 0 then show_int n @ ''B'' else toFixed (frac_digits m) m @ prefix_at sib_prefix i)"
proof -
  obtain m i where l: "byteSize_loop (of_int n) 0 = (m, i)" by fastforce
  then have s: "of_int n = m * 1024 ^ i" "m < 1000" "0 < i \<longrightarrow> 1000 / 1024 \<le> m"
    using byteSize_loop_scale [of "of_int n" 0 m i] by simp_all
  from s(1) assms have "0 \<le> m * 1024 ^ i" by (metis of_int_0_le_iff)
  moreover have "(0::rat) < 1024 ^ i" by simp
  ultimately have "0 \<le> m" by (meson mult_neg_pos not_le)
  then have e: "\<bar>of_nat (fixed_units (frac_digits m) m) / 10 ^ frac_digits m - m\<bar> \<le> 1 / (2 * 10 ^ frac_digits m)"
    by (rule fixed_units_error)
  have t: "byteSize_template n =
      (if i = 0 then show_int n @ ''B'' else toFixed (frac_digits m) m @ prefix_at sib_prefix i)"
    by (simp add: byteSize_template_def l prefix_at_def sib_prefix_def)
  show ?thesis using l s e t by blast
qed

theorem byteSize_template_scaled_witness:
  "(0::int) \<le> 1536 \<and> (\<exists>m i. byteSize_loop (of_int 1536) 0 = (m, i) \<and> of_int 1536 = m * 1024 ^ i \<and> m < 1000)"
  using byteSize_template_scaled [of 1536] by auto

section \<open>Counts\<close>

text \<open>
  Rounding to the nearest double, ties to even, for \<open>1 \<le> x < 2^53\<close>: the unit in the last
  place of a number with \<open>k + 1\<close> integer bits is \<open>2^(k - 52)\<close>.
\<close>

fun flog2 :: "nat \<Rightarrow> nat" where
  "flog2 n = (if n \<le> 1 then 0 else Suc (flog2 (n div 2)))"

declare flog2.simps [simp del]

definition round_even :: "rat \<Rightarrow> int" where
  "round_even y =
     (let d = y - of_int \<lfloor>y\<rfloor>
      in if d < 1 / 2 \<or> d = 1 / 2 \<and> even \<lfloor>y\<rfloor> then \<lfloor>y\<rfloor> else \<lfloor>y\<rfloor> + 1)"

definition fl53 :: "rat \<Rightarrow> rat" where
  "fl53 x = (let s = 2 ^ (52 - flog2 (nat \<lfloor>x\<rfloor>)) in of_int (round_even (x * s)) / s)"

lemma round_even_error: "\<bar>of_int (round_even y) - y\<bar> \<le> 1 / 2"
  using floor_correct [of y] by (auto simp: round_even_def Let_def)

lemma flog2_bounds: "1 \<le> n \<Longrightarrow> 2 ^ flog2 n \<le> n \<and> n < 2 * 2 ^ flog2 n"
proof (induction n rule: flog2.induct)
  case (1 n)
  show ?case
  proof (cases "n \<le> 1")
    case True
    with "1.prems" show ?thesis by (simp add: flog2.simps)
  next
    case False
    with "1.IH" have "2 ^ flog2 (n div 2) \<le> n div 2" "n div 2 < 2 * 2 ^ flog2 (n div 2)" by simp_all
    moreover have "2 * (n div 2) \<le> n" "n < 2 * (n div 2) + 2" by simp_all
    ultimately have "2 * 2 ^ flog2 (n div 2) \<le> n" "n < 2 * (2 * 2 ^ flog2 (n div 2))" by linarith+
    with False show ?thesis by (simp add: flog2.simps [of n])
  qed
qed

lemma flog2_less: "n < 2 ^ 53 \<Longrightarrow> flog2 n \<le> 52"
proof (cases "1 \<le> n")
  case True
  assume "n < 2 ^ 53"
  with flog2_bounds [OF True] have "(2::nat) ^ flog2 n < 2 ^ 53" by linarith
  then have "flog2 n < 53" by (rule power_less_imp_less_exp [rotated]) simp
  then show ?thesis by simp
next
  case False
  then show ?thesis by (simp add: flog2.simps)
qed

text \<open>The relative error of one rounding is at most \<open>2^-53\<close>.\<close>

lemma fl53_error:
  assumes "1 \<le> x" "x < 2 ^ 53"
  shows "\<bar>fl53 x - x\<bar> \<le> x / 2 ^ 53"
proof -
  let ?k = "flog2 (nat \<lfloor>x\<rfloor>)" and ?s = "(2::rat) ^ (52 - flog2 (nat \<lfloor>x\<rfloor>))"
  have one: "1 \<le> \<lfloor>x\<rfloor>" using assms by (simp add: le_floor_iff)
  have fx: "of_int \<lfloor>x\<rfloor> \<le> x" by simp
  have lt: "nat \<lfloor>x\<rfloor> < 2 ^ 53"
  proof -
    have "(of_int \<lfloor>x\<rfloor> :: rat) < of_int (2 ^ 53)" using fx assms(2) by simp
    then have "\<lfloor>x\<rfloor> < 2 ^ 53" by (simp only: of_int_less_iff)
    then show ?thesis using assms by (simp add: nat_less_iff floor_less_iff)
  qed
  have k: "2 ^ ?k \<le> nat \<lfloor>x\<rfloor>" "?k \<le> 52"
    using flog2_bounds [of "nat \<lfloor>x\<rfloor>"] flog2_less [OF lt] one by linarith+
  have "(2::rat) ^ ?k \<le> of_nat (nat \<lfloor>x\<rfloor>)"
    using k(1) by (metis of_nat_le_iff of_nat_numeral of_nat_power)
  also have "\<dots> = of_int \<lfloor>x\<rfloor>" using one by simp
  also note fx
  finally have kx: "(2::rat) ^ ?k \<le> x" .
  have ps: "0 < ?s" by simp
  have "?s * 2 ^ ?k = 2 ^ 52" using k(2) by (simp add: power_add [symmetric])
  then have "2 ^ 52 \<le> ?s * x" using kx ps by (metis mult_left_mono less_imp_le)
  then have hx: "1 / 2 \<le> ?s * x / 2 ^ 53" by simp
  have "fl53 x - x = (of_int (round_even (x * ?s)) - x * ?s) / ?s"
    using ps by (simp add: fl53_def Let_def field_simps)
  then have "\<bar>fl53 x - x\<bar> = \<bar>of_int (round_even (x * ?s)) - x * ?s\<bar> / ?s"
    using ps by simp
  also have "\<dots> \<le> (1 / 2) / ?s"
    using round_even_error [of "x * ?s"] ps by (intro divide_right_mono) simp_all
  also have "\<dots> \<le> (?s * x / 2 ^ 53) / ?s"
    using hx ps by (intro divide_right_mono) simp_all
  also have "\<dots> = x / 2 ^ 53" using ps by simp
  finally show ?thesis .
qed

lemma fl53_near:
  assumes "1 \<le> x"
  shows "\<bar>fl53 x - x\<bar> \<le> 1 / 2" and "1 \<le> fl53 x"
proof -
  let ?s = "(2::rat) ^ (52 - flog2 (nat \<lfloor>x\<rfloor>))"
  have s: "1 \<le> ?s" by simp
  have d: "fl53 x - x = (of_int (round_even (x * ?s)) - x * ?s) / ?s"
    using s by (simp add: fl53_def Let_def field_simps)
  have "\<bar>fl53 x - x\<bar> = \<bar>of_int (round_even (x * ?s)) - x * ?s\<bar> / ?s"
    using s by (simp add: d)
  also have "\<dots> \<le> (1 / 2) / ?s"
    using round_even_error [of "x * ?s"] s by (intro divide_right_mono) simp_all
  also have "\<dots> \<le> 1 / 2" using s by (simp add: divide_le_eq)
  finally show "\<bar>fl53 x - x\<bar> \<le> 1 / 2" .
  have "of_int (2 ^ (52 - flog2 (nat \<lfloor>x\<rfloor>))) \<le> x * ?s"
    using mult_right_mono [OF assms, of ?s] s by simp
  then have "2 ^ (52 - flog2 (nat \<lfloor>x\<rfloor>)) \<le> \<lfloor>x * ?s\<rfloor>" by (simp only: le_floor_iff)
  then have "2 ^ (52 - flog2 (nat \<lfloor>x\<rfloor>)) \<le> round_even (x * ?s)" by (simp add: round_even_def Let_def)
  then have "?s \<le> of_int (round_even (x * ?s))"
    by (metis of_int_le_iff of_int_numeral of_int_power)
  then show "1 \<le> fl53 x" using s by (simp add: fl53_def Let_def le_divide_eq)
qed

definition sid_prefix :: "string list" where
  "sid_prefix = [[], ''k'', ''M'', ''G'', ''T'', ''P'', ''E'', ''Z'', ''Y'']"

function count_loop :: "rat \<Rightarrow> nat \<Rightarrow> rat \<times> nat" where
  "count_loop n i = (if n \<ge> 1000 then count_loop (fl53 (n / 1000)) (Suc i) else (n, i))"
  by pat_completeness auto
termination
proof (relation "measure (\<lambda>(n, i). nat \<lfloor>n\<rfloor>)", goal_cases)
  case 1
  then show ?case by simp
next
  case (2 n i)
  have "fl53 (n / 1000) - n / 1000 \<le> 1 / 2"
    by (rule abs_le_D1, rule fl53_near(1)) (use 2 in simp)
  with 2 have "fl53 (n / 1000) < n - 1" by linarith
  then have "\<lfloor>fl53 (n / 1000)\<rfloor> < \<lfloor>n\<rfloor>" by linarith
  moreover have "0 < \<lfloor>n\<rfloor>" using 2 by (simp add: le_floor_iff)
  ultimately show ?case by simp
qed

declare count_loop.simps [simp del]

definition count_template :: "int \<Rightarrow> string" where
  "count_template n0 =
     (let (n, i) = count_loop (of_int n0) 0
      in if i = 0 then show_int n0 else toFixed (frac_digits n) n @ prefix_at sid_prefix i)"

text \<open>The unit roundoff of a double.\<close>

definition u53 :: rat where
  "u53 = 1 / 2 ^ 53"

lemma u53_pos: "0 \<le> u53"
  by (simp add: u53_def)

lemma fl53_step:
  assumes "1000 \<le> n" "n < 2 ^ 53"
  shows "\<bar>1000 * fl53 (n / 1000) - n\<bar> \<le> n * u53" and "fl53 (n / 1000) < 2 ^ 53"
proof -
  let ?r = "fl53 (n / 1000)"
  have "\<bar>?r - n / 1000\<bar> \<le> n / 1000 * u53"
    using fl53_error [of "n / 1000"] assms by (simp add: u53_def)
  then have "1000 * \<bar>?r - n / 1000\<bar> \<le> n * u53" by simp
  moreover have "1000 * \<bar>?r - n / 1000\<bar> = \<bar>1000 * (?r - n / 1000)\<bar>"
    by (simp only: abs_mult abs_numeral)
  moreover have "1000 * (?r - n / 1000) = 1000 * ?r - n" by simp
  ultimately show "\<bar>1000 * ?r - n\<bar> \<le> n * u53" by simp
  have "?r - n / 1000 \<le> 1 / 2"
    by (rule abs_le_D1, rule fl53_near(1)) (use assms in simp)
  with assms show "?r < 2 ^ 53" by linarith
qed

text \<open>One more division in the error estimate.\<close>

lemma scale_step:
  fixes m n r e P Q :: rat
  assumes 1: "\<bar>1000 * r - n\<bar> \<le> n * e" and 2: "\<bar>m * P - r\<bar> \<le> r * (Q - 1)" and Q: "1 \<le> Q"
  shows "\<bar>m * (1000 * P) - n\<bar> \<le> n * ((1 + e) * Q - 1)"
proof -
  have "1000 * r \<le> n * (1 + e)" using abs_le_D1 [OF 1] by (simp add: algebra_simps)
  then have c: "1000 * r * (Q - 1) \<le> n * (1 + e) * (Q - 1)"
    using Q by (intro mult_right_mono) simp_all
  have "m * (1000 * P) - n = 1000 * (m * P - r) + (1000 * r - n)" by (simp add: algebra_simps)
  then have "\<bar>m * (1000 * P) - n\<bar> \<le> \<bar>1000 * (m * P - r)\<bar> + \<bar>1000 * r - n\<bar>"
    by (simp only: abs_triangle_ineq)
  also have "\<bar>1000 * (m * P - r)\<bar> = 1000 * \<bar>m * P - r\<bar>" by (simp only: abs_mult abs_numeral)
  also have "1000 * \<bar>m * P - r\<bar> + \<bar>1000 * r - n\<bar> \<le> 1000 * (r * (Q - 1)) + n * e"
    using 1 2 by (intro add_mono mult_left_mono) simp_all
  also have "\<dots> \<le> n * (1 + e) * (Q - 1) + n * e" using c by linarith
  also have "\<dots> = n * ((1 + e) * Q - 1)" by (simp add: algebra_simps)
  finally show ?thesis .
qed

lemma count_loop_mono: "count_loop n i = (m, j) \<Longrightarrow> i \<le> j"
proof (induction n i rule: count_loop.induct)
  case (1 n i)
  then show ?case by (cases "n \<ge> 1000") (auto simp: count_loop.simps [of n i])
qed

lemma count_loop_stop: "count_loop n i = (m, j) \<Longrightarrow> i \<le> j \<Longrightarrow> \<not> i < j \<Longrightarrow> m = n"
  using count_loop_mono [of "fl53 (n / 1000)" "Suc i" m j]
  by (auto simp: count_loop.simps [of n i] split: if_splits)

lemma count_loop_scale:
  "count_loop n i = (m, j) \<Longrightarrow> 0 \<le> n \<Longrightarrow> n < 2 ^ 53 \<Longrightarrow>
   0 \<le> m \<and> m < 1000 \<and> (i < j \<longrightarrow> 1 \<le> m)
     \<and> \<bar>m * 1000 ^ (j - i) - n\<bar> \<le> n * ((1 + u53) ^ (j - i) - 1)"
proof (induction n i rule: count_loop.induct)
  case (1 n i)
  show ?case
  proof (cases "n \<ge> 1000")
    case False
    with "1.prems" show ?thesis by (simp add: count_loop.simps [of n i])
  next
    case True
    let ?n = "fl53 (n / 1000)" and ?d = "j - Suc i"
    have st: "\<bar>1000 * ?n - n\<bar> \<le> n * u53" "?n < 2 ^ 53" "1 \<le> ?n"
      using fl53_step [OF True "1.prems"(3)] fl53_near(2) [of "n / 1000"] True by simp_all
    have l: "count_loop ?n (Suc i) = (m, j)"
      using "1.prems"(1) True by (simp add: count_loop.simps [of n i])
    with "1.IH" [OF True] st have IH: "0 \<le> m" "m < 1000" "Suc i < j \<longrightarrow> 1 \<le> m"
      "\<bar>m * 1000 ^ ?d - ?n\<bar> \<le> ?n * ((1 + u53) ^ ?d - 1)" by simp_all
    have le: "Suc i \<le> j" using l by (rule count_loop_mono)
    then have Suc_d: "j - i = Suc ?d" by simp
    have one: "1 \<le> m"
    proof (cases "Suc i < j")
      case False
      then have "m = ?n" by (rule count_loop_stop [OF l le])
      with st show ?thesis by simp
    qed (use IH in simp)
    have "1 \<le> (1 + u53) ^ ?d" using u53_pos by (intro one_le_power) simp
    with scale_step [OF st(1) IH(4)] show ?thesis using IH one by (simp add: Suc_d)
  qed
qed

text \<open>a count below \<open>2^53\<close> is printed with the power of 1000 that fits it: the mantissa lies
  in \<open>[1, 1000)\<close> when there is a unit, and the rounding of the repeated divisions moves it by a
  relative error of at most \<open>(1 + 2^-53)^i - 1\<close> after \<open>i\<close> divisions.\<close>

theorem count_template_scaled:
  assumes "0 \<le> n" "n < 2 ^ 53"
  shows "\<exists>m i. count_loop (of_int n) 0 = (m, i) \<and> 0 \<le> m \<and> m < 1000 \<and> (0 < i \<longrightarrow> 1 \<le> m)
     \<and> \<bar>m * 1000 ^ i - of_int n\<bar> \<le> of_int n * ((1 + u53) ^ i - 1)
     \<and> count_template n = (if i = 0 then show_int n else toFixed (frac_digits m) m @ prefix_at sid_prefix i)"
proof -
  obtain m i where l: "count_loop (of_int n) 0 = (m, i)" by fastforce
  have "(of_int n :: rat) < of_int (2 ^ 53)" using assms(2) by (simp only: of_int_less_iff)
  then have "(of_int n :: rat) < 2 ^ 53" by simp
  with count_loop_scale [OF l] assms(1) have
    "0 \<le> m \<and> m < 1000 \<and> (0 < i \<longrightarrow> 1 \<le> m) \<and> \<bar>m * 1000 ^ i - of_int n\<bar> \<le> of_int n * ((1 + u53) ^ i - 1)"
    by simp
  then show ?thesis using l by (auto simp: count_template_def)
qed

theorem count_template_scaled_witness:
  "(0::int) \<le> 12345678 \<and> (12345678::int) < 2 ^ 53
     \<and> (\<exists>m i. count_loop (of_int 12345678) 0 = (m, i) \<and> 0 \<le> m \<and> m < 1000 \<and> (0 < i \<longrightarrow> 1 \<le> m))"
  using count_template_scaled [of 12345678] by auto

end
