(* ===== verification/Model.thy ===== *)
theory Model
  imports Observable "HOL-Library.Sublist"
begin

text \<open>
  \<^verbatim>\<open>data/model/model.js\<close>: a document that is read and written by dotted paths.

  The data are plain objects and primitive values. Writing a property of a primitive is ignored and
  asking \<open>in\<close> of one throws, as in the runtime; a property written on an array, a function or a
  widget is not visible in the model, and the names of \<open>Object.prototype\<close> are not used as keys.
\<close>

text \<open>\<open>prop in v\<close>.\<close>

fun has_prop :: "jsval \<Rightarrow> string \<Rightarrow> bool res" where
  "has_prop (Obj d) p = Inr (has_key d p)"
| "has_prop (Arr vs) p = Inr (is_index p \<and> nat_of_digits p < length vs \<or> p = ''length'')"
| "has_prop (Fn _) p = Inr False"
| "has_prop (Widget _) p = Inr False"
| "has_prop _ p = Inl TypeError"

text \<open>\<open>v[prop]\<close> for a property that is there.\<close>

fun prop_of :: "jsval \<Rightarrow> string \<Rightarrow> jsval" where
  "prop_of (Obj d) p = dget d p"
| "prop_of (Arr vs) p = (if p = ''length'' then Num (int (length vs)) else arr_at vs (nat_of_digits p))"
| "prop_of _ p = Undef"

fun write_prop :: "jsval \<Rightarrow> string \<Rightarrow> jsval \<Rightarrow> jsval res" where
  "write_prop (Obj d) p v = Inr (Obj (dput p v d))"
| "write_prop (Arr vs) p v = Inr (if is_index p then Arr (arr_set (nat_of_digits p) Undef v vs) else Arr vs)"
| "write_prop Undef p v = Inl TypeError"
| "write_prop Null p v = Inl TypeError"
| "write_prop w p v = Inr w"

text \<open>
  The reduction of \<open>set\<close> over the parts of the key, with the pointer as a path into the value that
  is rebuilt on the way back.
\<close>

fun set_path :: "string list \<Rightarrow> jsval \<Rightarrow> jsval \<Rightarrow> jsval res" where
  "set_path [] v ptr = Inr ptr"
| "set_path [p] v ptr = write_prop ptr p v"
| "set_path (p # q # ps) v ptr =
     res_bind (has_prop ptr p) (\<lambda>there.
       res_bind (set_path (q # ps) v (if there then prop_of ptr p else Obj [])) (\<lambda>sub.
         write_prop ptr p sub))"

definition model_set_all :: "obj \<Rightarrow> jsval" where
  "model_set_all key = Obj (jq_extend [] key)"

definition model_set :: "string \<Rightarrow> jsval \<Rightarrow> jsval \<Rightarrow> jsval res" where
  "model_set key v data = set_path (split_on CHR ''.'' key) v data"

fun get_path :: "string list \<Rightarrow> jsval \<Rightarrow> jsval res" where
  "get_path [] ptr = Inr ptr"
| "get_path (p # ps) ptr =
     res_bind (if truthy ptr then has_prop ptr p else Inr False) (\<lambda>there.
       get_path ps (if there then prop_of ptr p else Undef))"

definition model_get :: "string \<Rightarrow> jsval \<Rightarrow> jsval res" where
  "model_get key data = get_path (split_on CHR ''.'' key) data"

section \<open>Reading what was written\<close>

text \<open>Every step of the path that exists leads to an object, up to the last property.\<close>

fun objects_along :: "string list \<Rightarrow> jsval \<Rightarrow> bool" where
  "objects_along [] ptr = True"
| "objects_along [p] ptr = (\<exists>d. ptr = Obj d)"
| "objects_along (p # q # ps) ptr =
     (case ptr of Obj d \<Rightarrow> (case map_of d p of None \<Rightarrow> True | Some sub \<Rightarrow> objects_along (q # ps) sub) | _ \<Rightarrow> False)"

lemma objects_along_fresh: "objects_along ps (Obj [])"
  by (induction ps "Obj []" rule: objects_along.induct) auto

lemma get_path_undef: "get_path ps Undef = Inr Undef"
  by (induction ps) auto

lemma get_path_obj: "get_path (p # ps) (Obj d) = get_path ps (dget d p)"
  by (auto simp: has_key_iff dget_def get_path_undef split: option.split)

declare get_path.simps(2) [simp del]

lemma get_path_missing: "ps \<noteq> [] \<Longrightarrow> get_path ps (Obj []) = Inr Undef"
  by (cases ps) (auto simp: get_path_undef get_path_obj)

text \<open>What the walk finds at, or creates for, an inner step.\<close>

definition sub_at :: "obj \<Rightarrow> string \<Rightarrow> jsval" where
  "sub_at d p = (if has_key d p then dget d p else Obj [])"

lemma set_path_obj:
  "set_path (p # q # ps) v (Obj d) =
     res_bind (set_path (q # ps) v (sub_at d p)) (\<lambda>sub. Inr (Obj (dput p sub d)))"
proof -
  have "write_prop (Obj d) p = (\<lambda>sub. Inr (Obj (dput p sub d)))" by (rule ext) simp
  then show ?thesis by (simp add: sub_at_def)
qed

lemma set_path_one: "set_path [p] v (Obj d) = Inr (Obj (dput p v d))"
  by simp

declare set_path.simps(2,3) [simp del]

lemma objects_alongE:
  assumes "objects_along (p # ps) data"
  obtains d where "data = Obj d" and "ps \<noteq> [] \<Longrightarrow> objects_along ps (sub_at d p)"
  using assms objects_along_fresh
  by (cases ps; cases data) (auto simp: sub_at_def has_key_iff dget_def split: option.splits)

lemma get_sub_at: "ps \<noteq> [] \<Longrightarrow> get_path ps (sub_at d p) = get_path ps (dget d p)"
  by (auto simp: sub_at_def get_path_missing get_path_undef has_key_iff dget_def)

text \<open>One inner step of a successful write.\<close>

lemma set_path_ok: "objects_along ps data \<Longrightarrow> ps \<noteq> [] \<Longrightarrow> \<exists>d. set_path ps v data = Inr (Obj d)"
proof (induction ps arbitrary: data)
  case (Cons p ps)
  from Cons.prems(1) obtain d where d: "data = Obj d" "ps \<noteq> [] \<Longrightarrow> objects_along ps (sub_at d p)"
    by (rule objects_alongE) blast
  show ?case
  proof (cases ps)
    case Nil
    then show ?thesis by (simp add: d(1) set_path_one)
  next
    case (Cons q qs)
    with d(2) Cons.IH [of "sub_at d p"] show ?thesis by (auto simp: d(1) set_path_obj)
  qed
qed simp

lemma set_path_writeE:
  assumes "objects_along (p # ps) data" and "set_path (p # ps) v data = Inr data'"
  obtains d where "data = Obj d" "ps = []" "data' = Obj (dput p v d)"
    | d sub where "data = Obj d" "ps \<noteq> []" "objects_along ps (sub_at d p)"
        "set_path ps v (sub_at d p) = Inr sub" "data' = Obj (dput p sub d)"
proof -
  from assms(1) obtain d where d: "data = Obj d" "ps \<noteq> [] \<Longrightarrow> objects_along ps (sub_at d p)"
    by (rule objects_alongE) blast
  show ?thesis
  proof (cases ps)
    case Nil
    with assms(2) show ?thesis by (intro that(1) [of d]) (simp_all add: d(1) set_path_one)
  next
    case (Cons q qs)
    with assms(2) obtain sub where "set_path ps v (sub_at d p) = Inr sub" "data' = Obj (dput p sub d)"
      by (auto simp: d(1) set_path_obj)
    with Cons d show ?thesis by (intro that(2) [of d sub]) simp_all
  qed
qed

lemma set_get_same:
  "objects_along ps data \<Longrightarrow> ps \<noteq> [] \<Longrightarrow> set_path ps v data = Inr data' \<Longrightarrow> get_path ps data' = Inr v"
proof (induction ps arbitrary: data data')
  case (Cons p ps)
  from Cons.prems(1,3) show ?case
    by (cases rule: set_path_writeE) (auto simp: get_path_obj dest: Cons.IH)
qed simp

lemma set_get_other:
  "objects_along ps data \<Longrightarrow> ps \<noteq> [] \<Longrightarrow> set_path ps v data = Inr data' \<Longrightarrow>
   \<not> prefix ps ps' \<Longrightarrow> \<not> prefix ps' ps \<Longrightarrow> get_path ps' data' = get_path ps' data"
proof (induction ps arbitrary: data data' ps')
  case (Cons p ps)
  from Cons.prems(5) obtain p' qs where ps': "ps' = p' # qs" by (cases ps') auto
  from Cons.prems(1,3) show ?case
  proof (cases rule: set_path_writeE)
    case (1 d)
    with Cons.prems(4) show ?thesis by (auto simp: ps' get_path_obj)
  next
    case (2 d sub)
    show ?thesis
    proof (cases "p' = p")
      case True
      with Cons.prems(4,5) have np: "\<not> prefix ps qs" "\<not> prefix qs ps" by (simp_all add: ps')
      then have "qs \<noteq> []" by auto
      with Cons.IH [OF 2(3,2,4) np] show ?thesis
        by (simp add: 2 ps' True get_path_obj get_sub_at)
    qed (simp add: 2 ps' get_path_obj)
  qed
qed simp

text \<open>writing a dotted path of a model whose existing part consists of objects succeeds, creates
  the missing objects, and is what a read of the same path then returns; a path that is neither
  above nor below it reads as before.\<close>

theorem model_set_get:
  assumes "objects_along (split_on CHR ''.'' key) data"
  shows "\<exists>data'. model_set key v data = Inr data' \<and> model_get key data' = Inr v
     \<and> (\<forall>key'. \<not> prefix (split_on CHR ''.'' key) (split_on CHR ''.'' key') \<longrightarrow>
          \<not> prefix (split_on CHR ''.'' key') (split_on CHR ''.'' key) \<longrightarrow>
          model_get key' data' = model_get key' data)"
proof -
  obtain d where d: "set_path (split_on CHR ''.'' key) v data = Inr (Obj d)"
    using set_path_ok [OF assms split_on_nonempty] by blast
  show ?thesis
    using set_get_same [OF assms split_on_nonempty d] set_get_other [OF assms split_on_nonempty d] d
    by (auto simp: model_set_def model_get_def)
qed

theorem model_set_get_witness:
  "objects_along (split_on CHR ''.'' ''a.b'') (Obj [(''a'', Obj [(''c'', Num 1)])])
   \<and> (\<exists>data'. model_set ''a.b'' (Num 2) (Obj [(''a'', Obj [(''c'', Num 1)])]) = Inr data'
        \<and> model_get ''a.b'' data' = Inr (Num 2) \<and> model_get ''a.c'' data' = Inr (Num 1))"
proof -
  let ?d = "Obj [(''a'', Obj [(''c'', Num 1)])]"
  have o: "objects_along (split_on CHR ''.'' ''a.b'') ?d" by simp
  have g: "model_get ''a.c'' ?d = Inr (Num 1)"
    by (simp add: model_get_def get_path_obj)
  have np: "\<not> prefix (split_on CHR ''.'' ''a.b'') (split_on CHR ''.'' ''a.c'')"
    "\<not> prefix (split_on CHR ''.'' ''a.c'') (split_on CHR ''.'' ''a.b'')" by simp_all
  show ?thesis using model_set_get [OF o, of "Num 2"] o g np by metis
qed

end
