(* ===== verification/Query.thy ===== *)
theory Query
  imports Observable
begin

text \<open>
  \<^verbatim>\<open>data/boolQuery.js\<close> and \<^verbatim>\<open>data/query.js\<close>: the two builders of an
  Elasticsearch search. Both keep the search body, a map from clause references (\<open>q-0\<close>, \<open>q-1\<close>,
  \<dots>) to what was added, and the reference of the default \<open>match_all\<close> clause.

  A clause is an object: \<open>removeClause\<close> finds it by identity, so a clause carries the number of its
  allocation. Deep copies (\<open>getState\<close>, \<open>restoreState\<close>) allocate new clauses.
\<close>

section \<open>The search body\<close>

record clause =
  cid :: nat
  body :: jsval

text \<open>An entry of the sort list is \<open>{ index: { order: o } }\<close>.\<close>

record search =
  must :: "clause list"
  must_not :: "clause list"
  should :: "clause list"
  page_from :: int
  page_size :: jsval
  sort_list :: "(string \<times> string) list"
  aggs :: obj
  version :: bool

datatype ref_entry =
    Clause_ref clause jsval string string string
  | Aggs_ref string jsval

datatype query_event =
    Query_changed string
  | Set_index string bool
  | Set_type string bool
  | Results jsval
  | Results_with_parents jsval
  | Fail_and_undo

record builder =
  config_size :: int
  refuid :: nat
  refmap :: "ref_entry dict"
  search :: search
  defaultClause :: "string option"
  next_cid :: nat
  events :: "query_event list"

definition get_bool :: "string \<Rightarrow> search \<Rightarrow> clause list option" where
  "get_bool b q =
     (if b = ''must'' then Some (must q) else if b = ''must_not'' then Some (must_not q)
      else if b = ''should'' then Some (should q) else None)"

definition set_bool :: "string \<Rightarrow> clause list \<Rightarrow> search \<Rightarrow> search" where
  "set_bool b l q =
     (if b = ''must'' then q\<lparr> must := l \<rparr> else if b = ''must_not'' then q\<lparr> must_not := l \<rparr>
      else q\<lparr> should := l \<rparr>)"

definition push_clause :: "string \<Rightarrow> jsval \<Rightarrow> 'a builder_scheme \<Rightarrow> (clause \<times> 'a builder_scheme) res" where
  "push_clause b v s =
     (case get_bool b (search s) of
        None \<Rightarrow> Inl TypeError
      | Some l \<Rightarrow> let c = \<lparr> cid = next_cid s, body = v \<rparr>
                  in Inr (c, s\<lparr> search := set_bool b (l @ [c]) (search s), next_cid := Suc (next_cid s) \<rparr>))"

definition dflt :: "string option \<Rightarrow> string \<Rightarrow> string" where
  "dflt x d = (case x of None \<Rightarrow> d | Some s \<Rightarrow> if s = [] then d else s)"

definition positive_count :: "'a builder_scheme \<Rightarrow> nat" where
  "positive_count s = length (must (search s)) + length (should (search s))"

definition q_id :: "nat \<Rightarrow> string" where
  "q_id n = ''q-'' @ show_nat n"

definition f_id :: "nat \<Rightarrow> string" where
  "f_id n = ''f-'' @ show_nat n"

lemma ids_simps [simp]: "q_id m = q_id n \<longleftrightarrow> m = n" "f_id m = f_id n \<longleftrightarrow> m = n" "q_id m \<noteq> f_id n" "f_id m \<noteq> q_id n"
  by (simp_all add: q_id_def f_id_def)

text \<open>\<open>"q-" + this.refuid++\<close> and the entry of the reference map.\<close>

definition new_ref :: "clause \<Rightarrow> jsval \<Rightarrow> string \<Rightarrow> string \<Rightarrow> string \<Rightarrow> 'a builder_scheme \<Rightarrow> string \<times> 'a builder_scheme" where
  "new_ref c v field op b s =
     (let u = q_id (refuid s)
      in (u, s\<lparr> refuid := Suc (refuid s), refmap := dput u (Clause_ref c v field op b) (refmap s) \<rparr>))"

definition log :: "query_event \<Rightarrow> 'a builder_scheme \<Rightarrow> 'a builder_scheme" where
  "log e s = s\<lparr> events := events s @ [e] \<rparr>"

section \<open>BoolQuery\<close>

definition after_dot :: "string \<Rightarrow> string" where
  "after_dot field = (case index_of ''.'' field of None \<Rightarrow> field | Some i \<Rightarrow> drop (Suc i) field)"

definition bq_setClause :: "jsval \<Rightarrow> string \<Rightarrow> string \<Rightarrow> string \<Rightarrow> 'a builder_scheme \<Rightarrow> (clause \<times> 'a builder_scheme) res" where
  "bq_setClause v field op b s =
     (if op = ''match_all'' then push_clause b (Obj [(op, Obj [])]) s
      else if op = ''query_string''
        then push_clause b (Obj [(op, Obj [(''default_field'', Str (after_dot field)), (''query'', v)])]) s
      else if op = ''missing''
        then push_clause ''must_not'' (Obj [(''exists'', Obj [(''field'', Str (after_dot field))])]) s
      else push_clause b (Obj [(op, Obj [(after_dot field, v)])]) s)"

definition bq_removeClause :: "string \<Rightarrow> 'a builder_scheme \<Rightarrow> 'a builder_scheme res" where
  "bq_removeClause uqid s =
     (case map_of (refmap s) uqid of
        Some (Clause_ref c _ _ _ b) \<Rightarrow>
          (case get_bool b (search s) of
             None \<Rightarrow> Inl TypeError
           | Some l \<Rightarrow> (case find_index (\<lambda>c'. cid c' = cid c) l of
                          None \<Rightarrow> Inr s
                        | Some i \<Rightarrow> Inr (s\<lparr> search := set_bool b (splice1 i l) (search s) \<rparr>)))
      | _ \<Rightarrow> Inl TypeError)"

definition bq_addClause :: "jsval \<Rightarrow> string option \<Rightarrow> string option \<Rightarrow> string option \<Rightarrow> 'a builder_scheme \<Rightarrow> (string \<times> 'a builder_scheme) res" where
  "bq_addClause v field0 op0 bool0 s =
     (let b = dflt bool0 ''should''; op = dflt op0 ''match_all''; field = dflt field0 ''_all''
      in res_bind (bq_setClause v field op b s) (\<lambda>(c, s1).
         let (u, s2) = new_ref c v field op b s1
         in res_bind (if positive_count s2 > 1
                      then (case defaultClause s2 of None \<Rightarrow> Inl TypeError | Some d \<Rightarrow> bq_removeClause d s2)
                      else Inr s2) (\<lambda>s3. Inr (u, log (Query_changed u) s3))))"

definition bq_setSize :: "string \<Rightarrow> 'a builder_scheme \<Rightarrow> 'a builder_scheme" where
  "bq_setSize sz s = s\<lparr> search := (search s)\<lparr> page_size := parseInt sz \<rparr> \<rparr>"

definition bq_setPage :: "int \<Rightarrow> 'a builder_scheme \<Rightarrow> 'a builder_scheme" where
  "bq_setPage page s = s\<lparr> search := (search s)\<lparr> page_from := config_size s * (page - 1) + 1 \<rparr> \<rparr>"

definition empty_search :: "int \<Rightarrow> search" where
  "empty_search sz = \<lparr> must = [], must_not = [], should = [], page_from = 0, page_size = Num sz, sort_list = [], aggs = [],
     version = False \<rparr>"

definition empty_builder :: "int \<Rightarrow> builder" where
  "empty_builder sz = \<lparr> config_size = sz, refuid = 0, refmap = [], search = empty_search sz,
     defaultClause = None, next_cid = 0, events = [] \<rparr>"

definition bq_init :: "int \<Rightarrow> builder res" where
  "bq_init sz =
     res_bind (bq_addClause Undef None None None (empty_builder sz))
       (\<lambda>(u, s). Inr (s\<lparr> defaultClause := Some u \<rparr>))"

section \<open>Query\<close>

text \<open>What \<open>getState\<close> copies and the history keeps.\<close>

record snapshot =
  sn_search :: search
  sn_indices :: "string list"
  sn_types :: "string list"

record query = builder +
  indices :: "string list"
  types :: "string list"
  history :: "snapshot list"

definition setClause :: "jsval \<Rightarrow> string \<Rightarrow> string \<Rightarrow> string \<Rightarrow> 'a builder_scheme \<Rightarrow> (clause \<times> 'a builder_scheme) res" where
  "setClause v field op b s =
     (if op = ''match_all'' then push_clause b (Obj [(op, Obj [])]) s
      else if op = ''query_string''
        then push_clause b (Obj [(op, Obj [(''default_field'', Str field), (''query'', v)])]) s
      else if op = ''missing''
        then push_clause b (Obj [(''constant_score'',
               Obj [(''filter'', Obj [(''missing'', Obj [(''field'', Str field)])])])]) s
      else push_clause b (Obj [(op, Obj [(field, v)])]) s)"

text \<open>The part of \<open>addClause\<close> up to the test of the default clause.\<close>

definition insertClause :: "jsval \<Rightarrow> string option \<Rightarrow> string option \<Rightarrow> string option \<Rightarrow> 'a builder_scheme \<Rightarrow> (string \<times> 'a builder_scheme) res" where
  "insertClause v field0 op0 bool0 s =
     (let b = dflt bool0 ''should''; op = dflt op0 ''match_all''; field = dflt field0 ''_all''
      in res_bind (setClause v field op b s) (\<lambda>(c, s1). Inr (new_ref c v field op b s1)))"

text \<open>The part of \<open>removeClause\<close> that takes the clause out of its list.\<close>

definition dropClause :: "string \<Rightarrow> 'a builder_scheme \<Rightarrow> 'a builder_scheme res" where
  "dropClause uqid s =
     (case map_of (refmap s) uqid of
        Some (Clause_ref c _ _ _ b) \<Rightarrow>
          (case get_bool b (search s) of
             None \<Rightarrow> Inl TypeError
           | Some l \<Rightarrow> Inr (case find_index (\<lambda>c'. cid c' = cid c) l of
                          None \<Rightarrow> s | Some i \<Rightarrow> s\<lparr> search := set_bool b (splice1 i l) (search s) \<rparr>))
      | _ \<Rightarrow> Inl TypeError)"

lemma push_clause_count:
  "push_clause b v s = Inr (c, s') \<Longrightarrow>
   positive_count s' = positive_count s + (if b = ''must_not'' then 0 else 1)"
  by (auto simp: push_clause_def get_bool_def set_bool_def positive_count_def Let_def split: if_splits)

lemma setClause_count:
  "setClause v field op b s = Inr (c, s') \<Longrightarrow>
   positive_count s' = positive_count s + (if b = ''must_not'' then 0 else 1)"
  by (auto simp: setClause_def dest: push_clause_count split: if_splits)

lemma insertClause_count:
  "insertClause v field op b s = Inr (u, s') \<Longrightarrow> positive_count s' \<le> Suc (positive_count s)"
  by (auto simp: insertClause_def new_ref_def positive_count_def Let_def dest!: setClause_count split: if_splits)

lemma dropClause_count:
  "dropClause u s = Inr s' \<Longrightarrow> positive_count s' \<le> positive_count s \<and> positive_count s \<le> Suc (positive_count s')"
  by (auto simp: dropClause_def get_bool_def set_bool_def positive_count_def length_splice1
      dest!: find_index_Some split: option.splits ref_entry.splits if_splits)

text \<open>
  \<open>addClause\<close> may remove the default clause, and \<open>removeClause\<close> adds a new default clause when no
  positive clause is left. The two cannot go on calling each other: \<open>addClause\<close> calls
  \<open>removeClause\<close> only with at least two positive clauses, of which one stays.
\<close>

function addClause :: "jsval \<Rightarrow> string option \<Rightarrow> string option \<Rightarrow> string option \<Rightarrow> 'a builder_scheme \<Rightarrow> (string \<times> 'a builder_scheme) res"
  and removeClause :: "string \<Rightarrow> 'a builder_scheme \<Rightarrow> 'a builder_scheme res" where
  "addClause v field op b s =
     (case insertClause v field op b s of
        Inl e \<Rightarrow> Inl e
      | Inr (u, s1) \<Rightarrow>
          if positive_count s1 > 1
          then (case defaultClause s1 of
                  None \<Rightarrow> Inl TypeError
                | Some d \<Rightarrow> (case removeClause d s1 of
                              Inl e \<Rightarrow> Inl e
                            | Inr s2 \<Rightarrow> Inr (u, log (Query_changed u) s2)))
          else Inr (u, log (Query_changed u) s1))"
| "removeClause uqid s =
     (case dropClause uqid s of
        Inl e \<Rightarrow> Inl e
      | Inr s1 \<Rightarrow>
          if positive_count s1 = 0
          then (case addClause Undef None None None s1 of
                  Inl e \<Rightarrow> Inl e
                | Inr (u, s2) \<Rightarrow> Inr (s2\<lparr> defaultClause := Some u \<rparr>))
          else Inr s1)"
  by pat_completeness auto
termination
proof (relation "measure (\<lambda>x. case x of
    Inl (v, field, op, b, s) \<Rightarrow> if positive_count s = 0 then 0 else 2
  | Inr (u, s) \<Rightarrow> 1)", goal_cases)
  case (2 v field op b s a u s1 d)
  then show ?case using insertClause_count [of v field op b s u s1] by auto
next
  case (3 uqid s s1)
  then show ?case by auto
qed simp

declare addClause.simps [simp del] removeClause.simps [simp del]

definition getState :: "query \<Rightarrow> snapshot" where
  "getState s = \<lparr> sn_search = search s, sn_indices = indices s, sn_types = types s \<rparr>"

text \<open>The deep copy of a search allocates its clauses anew.\<close>

definition copy_clauses :: "nat \<Rightarrow> clause list \<Rightarrow> clause list" where
  "copy_clauses n l = map (\<lambda>(i, c). c\<lparr> cid := n + i \<rparr>) (enumerate 0 l)"

definition copy_search :: "nat \<Rightarrow> search \<Rightarrow> search" where
  "copy_search n q =
     q\<lparr> must := copy_clauses n (must q),
        must_not := copy_clauses (n + length (must q)) (must_not q),
        should := copy_clauses (n + length (must q) + length (must_not q)) (should q) \<rparr>"

definition restoreState :: "snapshot option \<Rightarrow> query \<Rightarrow> query" where
  "restoreState st s =
     (let sn = (case st of Some x \<Rightarrow> x | None \<Rightarrow> last (history s)); q = sn_search sn
      in s\<lparr> indices := sn_indices sn, types := sn_types sn, search := copy_search (next_cid s) q,
            next_cid := next_cid s + length (must q) + length (must_not q) + length (should q) \<rparr>)"

definition empty_query :: "int \<Rightarrow> query" where
  "empty_query sz = builder.extend ((empty_builder sz)\<lparr> search := (empty_search sz)\<lparr> version := True \<rparr> \<rparr>)
     \<lparr> indices = [], types = [], history = [] \<rparr>"

definition query_init :: "int \<Rightarrow> query res" where
  "query_init sz =
     (case addClause Undef None None None (empty_query sz) of
        Inl e \<Rightarrow> Inl e
      | Inr (u, s) \<Rightarrow> let s1 = s\<lparr> defaultClause := Some u \<rparr> in Inr (s1\<lparr> history := [getState s1] \<rparr>))"

text \<open>\<open>clone\<close>: a new query of the default page size, the state, and the removal of every clause the
  new query knows.\<close>

definition clone :: "query \<Rightarrow> query res" where
  "clone s =
     res_bind (query_init 50) (\<lambda>q0.
       let q = restoreState (Some (getState s)) q0
       in fold (\<lambda>uqid r. res_bind r (removeClause uqid)) (keys (refmap q)) (Inr q))"

definition search_path :: "query \<Rightarrow> string" where
  "search_path s =
     (let ix = join '','' (indices s) in (if ix = [] then ''_all'' else ix)) @ ''/'' @
     (if types s \<noteq> [] then join '','' (types s) @ ''/'' else []) @ ''_search''"

text \<open>
  \<open>query()\<close> posts the search and remembers the state of that moment; the callback gets it with
  the response.
\<close>

definition query_post :: "query \<Rightarrow> string \<times> search \<times> snapshot" where
  "query_post s = (search_path s, search s, getState s)"

definition query_done :: "snapshot \<Rightarrow> jsval \<Rightarrow> query \<Rightarrow> query" where
  "query_done state results s =
     (if results = Null then restoreState None (log Fail_and_undo s)
      else log (Results results) (s\<lparr> history := history s @ [state] \<rparr>))"

definition setPage :: "int \<Rightarrow> 'a builder_scheme \<Rightarrow> 'a builder_scheme" where
  "setPage page s = s\<lparr> search := (search s)\<lparr> page_from := config_size s * (page - 1) \<rparr> \<rparr>"

text \<open>The loop that removes an older entry of the same index: from position 1 on, the first one.\<close>

fun drop_older :: "string \<Rightarrow> nat \<Rightarrow> (string \<times> string) list \<Rightarrow> (string \<times> string) list" where
  "drop_older index i [] = []"
| "drop_older index i (e # es) =
     (if i \<ge> 1 \<and> fst e = index then es else e # drop_older index (Suc i) es)"

definition setSort :: "string \<Rightarrow> bool \<Rightarrow> 'a builder_scheme \<Rightarrow> 'a builder_scheme" where
  "setSort index desc s =
     (let sorted = (index, if desc then ''asc'' else ''desc'') # sort_list (search s)
      in s\<lparr> search := (search s)\<lparr> sort_list := drop_older index 0 sorted \<rparr> \<rparr>)"

definition setIndex :: "string \<Rightarrow> bool \<Rightarrow> query \<Rightarrow> query" where
  "setIndex index add s =
     log (Set_index index add)
       (s\<lparr> indices := (if add then (if contains (indices s) index then indices s else indices s @ [index])
                         else arr_remove index (indices s)) \<rparr>)"

definition setType :: "string \<Rightarrow> bool \<Rightarrow> query \<Rightarrow> query" where
  "setType type add s =
     log (Set_type type add)
       (s\<lparr> types := (if add then (if contains (types s) type then types s else types s @ [type])
                       else arr_remove type (types s)) \<rparr>)"

definition addAggs :: "jsval \<Rightarrow> 'a builder_scheme \<Rightarrow> string \<times> 'a builder_scheme" where
  "addAggs ag s =
     (let u = f_id (refuid s)
      in (u, s\<lparr> refuid := Suc (refuid s), search := (search s)\<lparr> aggs := dput u ag (aggs (search s)) \<rparr>,
               refmap := dput u (Aggs_ref u ag) (refmap s) \<rparr>))"

definition removeAggs :: "string \<Rightarrow> 'a builder_scheme \<Rightarrow> 'a builder_scheme" where
  "removeAggs u s =
     s\<lparr> search := (search s)\<lparr> aggs := ddel u (aggs (search s)) \<rparr>, refmap := ddel u (refmap s) \<rparr>"

section \<open>The two clause operations without the recursion\<close>

lemma removeClause_drop:
  "positive_count s > 1 \<Longrightarrow> removeClause u s = dropClause u s"
  by (auto simp: removeClause.simps dest!: dropClause_count split: sum.splits)

lemma addClause_eq:
  "addClause v field op b s =
     (case insertClause v field op b s of
        Inl e \<Rightarrow> Inl e
      | Inr (u, s1) \<Rightarrow>
          if positive_count s1 > 1
          then (case defaultClause s1 of
                  None \<Rightarrow> Inl TypeError
                | Some d \<Rightarrow> (case dropClause d s1 of Inl e \<Rightarrow> Inl e | Inr s2 \<Rightarrow> Inr (u, log (Query_changed u) s2)))
          else Inr (u, log (Query_changed u) s1))"
  by (simp add: addClause.simps removeClause_drop split: sum.split option.split prod.split)

text \<open>\<open>removeClause\<close> removes the clause object from its list; only when no positive clause (must or
  should) is left does it install a new default \<open>match_all\<close> clause, under a new reference.\<close>

theorem removeClause_cases:
  "removeClause u s =
     (case dropClause u s of
        Inl e \<Rightarrow> Inl e
      | Inr s1 \<Rightarrow>
          if positive_count s1 > 0 then Inr s1
          else let c = \<lparr> cid = next_cid s1, body = Obj [(''match_all'', Obj [])] \<rparr>; d = q_id (refuid s1)
               in Inr (s1\<lparr> search := (search s1)\<lparr> should := [c] \<rparr>, next_cid := Suc (next_cid s1),
                          refuid := Suc (refuid s1),
                          refmap := dput d (Clause_ref c Undef ''_all'' ''match_all'' ''should'') (refmap s1),
                          events := events s1 @ [Query_changed d], defaultClause := Some d \<rparr>))"
proof -
  have "addClause Undef None None None s1 =
      (let c = \<lparr> cid = next_cid s1, body = Obj [(''match_all'', Obj [])] \<rparr>; d = q_id (refuid s1)
       in Inr (d, s1\<lparr> search := (search s1)\<lparr> should := [c] \<rparr>, next_cid := Suc (next_cid s1),
                  refuid := Suc (refuid s1),
                  refmap := dput d (Clause_ref c Undef ''_all'' ''match_all'' ''should'') (refmap s1),
                  events := events s1 @ [Query_changed d] \<rparr>))"
    if "positive_count s1 = 0" for s1 :: "'a builder_scheme"
    using that
    by (simp add: addClause_eq insertClause_def setClause_def push_clause_def get_bool_def set_bool_def
        dflt_def new_ref_def log_def positive_count_def Let_def)
  then show ?thesis
    by (simp add: removeClause.simps Let_def split: sum.split)
qed

section \<open>What every operation keeps\<close>

definition ref_name :: "nat \<Rightarrow> string \<Rightarrow> bool" where
  "ref_name n u \<longleftrightarrow> (\<exists>m < n. u = q_id m \<or> u = f_id m)"

definition valid_bool :: "string \<Rightarrow> bool" where
  "valid_bool b \<longleftrightarrow> b \<in> {''must'', ''must_not'', ''should''}"

definition ref_ok :: "nat \<Rightarrow> ref_entry \<Rightarrow> bool" where
  "ref_ok n e = (case e of Clause_ref c v f o' b \<Rightarrow> valid_bool b \<and> cid c < n | Aggs_ref _ _ \<Rightarrow> True)"

definition clauses :: "search \<Rightarrow> clause list" where
  "clauses q = must q @ must_not q @ should q"

text \<open>
  The references are names that were handed out, each clause reference names one of the three
  lists, and the clauses in the search are distinct objects.
\<close>

definition refs_inv :: "'a builder_scheme \<Rightarrow> bool" where
  "refs_inv s \<longleftrightarrow>
     (\<forall>u e. map_of (refmap s) u = Some e \<longrightarrow> ref_name (refuid s) u \<and> ref_ok (next_cid s) e)
     \<and> distinct (map cid (clauses (search s))) \<and> list_all (\<lambda>c. cid c < next_cid s) (clauses (search s))"

definition default_inv :: "'a builder_scheme \<Rightarrow> bool" where
  "default_inv s \<longleftrightarrow>
     (\<exists>d c v f o'. defaultClause s = Some d \<and> map_of (refmap s) d = Some (Clause_ref c v f o' ''should''))"

definition query_inv :: "'a builder_scheme \<Rightarrow> bool" where
  "query_inv s \<longleftrightarrow> refs_inv s \<and> default_inv s \<and> positive_count s > 0"

lemma get_bool_valid: "get_bool b q \<noteq> None \<longleftrightarrow> valid_bool b"
  by (auto simp: get_bool_def valid_bool_def)

lemma ref_name_mono: "ref_name n u \<Longrightarrow> n \<le> n' \<Longrightarrow> ref_name n' u"
  unfolding ref_name_def by (erule exE) (rule exI, auto)

lemma ref_name_new [simp]: "ref_name (Suc n) (q_id n)" "ref_name (Suc n) (f_id n)"
  by (auto simp: ref_name_def)

lemma ref_name_fresh: "\<not> ref_name n (q_id n)" "\<not> ref_name n (f_id n)"
  by (auto simp: ref_name_def)

lemma ref_ok_mono: "ref_ok n e \<Longrightarrow> n \<le> n' \<Longrightarrow> ref_ok n' e"
  by (auto simp: ref_ok_def split: ref_entry.splits)

lemma refs_invD:
  "refs_inv s \<Longrightarrow> map_of (refmap s) u = Some e \<Longrightarrow> ref_name (refuid s) u \<and> ref_ok (next_cid s) e"
  by (simp add: refs_inv_def)

lemma refs_inv_fresh:
  "refs_inv s \<Longrightarrow> map_of (refmap s) (q_id (refuid s)) = None"
  "refs_inv s \<Longrightarrow> map_of (refmap s) (f_id (refuid s)) = None"
  using ref_name_fresh unfolding refs_inv_def by (metis not_None_eq)+

lemma clauses_push: "set (clauses (set_bool b (l @ [c]) q)) \<subseteq> insert c (set l \<union> set (clauses q))"
  by (auto simp: clauses_def set_bool_def)

text \<open>Adding one clause, the default clause left alone.\<close>

lemma push_clause_Inr:
  "push_clause b w s = Inr (c, s') \<longleftrightarrow>
     (\<exists>l. get_bool b (search s) = Some l \<and> c = \<lparr> cid = next_cid s, body = w \<rparr>
        \<and> s' = s\<lparr> search := set_bool b (l @ [c]) (search s), next_cid := Suc (next_cid s) \<rparr>)"
  by (auto simp: push_clause_def Let_def split: option.split)

lemma setClause_push: "setClause v f op b s = Inr (c, s') \<Longrightarrow> \<exists>w. push_clause b w s = Inr (c, s')"
  by (auto simp: setClause_def split: if_splits)

lemma insertClauseE:
  assumes "insertClause v field op b s = Inr (u, s1)"
  obtains l c f o' where "u = q_id (refuid s)"
    "get_bool (dflt b ''should'') (search s) = Some l" "cid c = next_cid s"
    "s1 = s\<lparr> search := set_bool (dflt b ''should'') (l @ [c]) (search s), next_cid := Suc (next_cid s),
            refuid := Suc (refuid s),
            refmap := dput u (Clause_ref c v f o' (dflt b ''should'')) (refmap s) \<rparr>"
proof -
  from assms obtain c s' where c: "setClause v (dflt field ''_all'') (dflt op ''match_all'') (dflt b ''should'') s = Inr (c, s')"
    "new_ref c v (dflt field ''_all'') (dflt op ''match_all'') (dflt b ''should'') s' = (u, s1)"
    by (auto simp: insertClause_def Let_def)
  from setClause_push [OF c(1)] obtain w l where "get_bool (dflt b ''should'') (search s) = Some l"
    "c = \<lparr> cid = next_cid s, body = w \<rparr>"
    "s' = s\<lparr> search := set_bool (dflt b ''should'') (l @ [c]) (search s), next_cid := Suc (next_cid s) \<rparr>"
    unfolding push_clause_Inr by blast
  with c(2) show ?thesis
    by (intro that [of l c "dflt field ''_all''" "dflt op ''match_all''"]) (auto simp: new_ref_def Let_def)
qed

lemma get_bool_split:
  assumes "get_bool b q = Some l"
  obtains A C where "clauses q = A @ l @ C" "\<And>l'. clauses (set_bool b l' q) = A @ l' @ C"
proof -
  consider "b = ''must''" "l = must q" | "b = ''must_not''" "l = must_not q" | "b = ''should''" "l = should q"
    using assms by (auto simp: get_bool_def split: if_splits)
  then show ?thesis
  proof cases
    case 1
    then show ?thesis by (intro that [of "[]"]) (simp_all add: clauses_def set_bool_def)
  next
    case 2
    then show ?thesis by (intro that [of "must q"]) (simp_all add: clauses_def set_bool_def)
  next
    case 3
    then show ?thesis by (intro that [of "must q @ must_not q" "[]"]) (simp_all add: clauses_def set_bool_def)
  qed
qed

lemma cids_push:
  assumes "get_bool b q = Some l" "distinct (map cid (clauses q))" "list_all (\<lambda>c. cid c < n) (clauses q)" "cid c = n"
  shows "distinct (map cid (clauses (set_bool b (l @ [c]) q))) \<and> list_all (\<lambda>c. cid c < Suc n) (clauses (set_bool b (l @ [c]) q))"
proof -
  obtain A C where s: "clauses q = A @ l @ C" "\<And>l'. clauses (set_bool b l' q) = A @ l' @ C"
    using get_bool_split [OF assms(1)] by blast
  have "n \<notin> cid ` set (A @ l @ C)"
    using assms(3) by (auto simp: s list_all_iff)
  moreover have "list_all (\<lambda>c. cid c < Suc n) (A @ l @ C)"
    using assms(3) by (auto simp: s list_all_iff less_Suc_eq)
  ultimately show ?thesis
    using assms(2,4) by (auto simp: s)
qed

lemma insertClause_inv:
  assumes "insertClause v field op b s = Inr (u, s1)" "refs_inv s"
  shows "refs_inv s1"
proof -
  from assms(1) obtain l c f o' where i: "u = q_id (refuid s)"
    "get_bool (dflt b ''should'') (search s) = Some l" "cid c = next_cid s"
    "s1 = s\<lparr> search := set_bool (dflt b ''should'') (l @ [c]) (search s), next_cid := Suc (next_cid s),
            refuid := Suc (refuid s),
            refmap := dput u (Clause_ref c v f o' (dflt b ''should'')) (refmap s) \<rparr>"
    by (rule insertClauseE)
  have v: "valid_bool (dflt b ''should'')" using i(2) get_bool_valid by (metis option.distinct(1))
  have r: "\<And>u e. map_of (refmap s) u = Some e \<Longrightarrow> ref_name (refuid s) u \<and> ref_ok (next_cid s) e"
    using assms(2) by (simp add: refs_inv_def)
  have "distinct (map cid (clauses (search s1))) \<and> list_all (\<lambda>c. cid c < Suc (next_cid s)) (clauses (search s1))"
    using cids_push [OF i(2) _ _ i(3)] assms(2) by (simp add: i(4) refs_inv_def)
  moreover have "ref_name (Suc (refuid s)) w \<and> ref_ok (Suc (next_cid s)) e"
    if w: "map_of (refmap s1) w = Some e" for w e
  proof (cases "w = u")
    case True
    with w v i(3) show ?thesis by (auto simp: i(4) i(1) ref_ok_def split: ref_entry.split)
  next
    case False
    with w r [of w e] show ?thesis by (auto simp: i(4) intro: ref_name_mono ref_ok_mono)
  qed
  ultimately show ?thesis by (simp add: refs_inv_def i(4))
qed

lemma dropClauseE:
  assumes "dropClause u s = Inr s1"
  obtains b l l' c v f o' where "map_of (refmap s) u = Some (Clause_ref c v f o' b)" "get_bool b (search s) = Some l"
    "s1 = s\<lparr> search := set_bool b l' (search s) \<rparr>" "l' = l \<or> (\<exists>i. l' = splice1 i l)"
proof -
  from assms obtain c v f o' b where e: "map_of (refmap s) u = Some (Clause_ref c v f o' b)"
    by (auto simp: dropClause_def split: option.splits ref_entry.splits)
  with assms obtain l where l: "get_bool b (search s) = Some l"
    by (auto simp: dropClause_def split: option.splits)
  have id: "set_bool b l (search s) = search s"
    using l by (auto simp: get_bool_def set_bool_def split: if_splits)
  show ?thesis
  proof (cases "find_index (\<lambda>c'. cid c' = cid c) l")
    case None
    with assms e l id show ?thesis by (intro that [OF e l, of l]) (simp_all add: dropClause_def)
  next
    case (Some i)
    with assms e l show ?thesis by (intro that [OF e l, of "splice1 i l"]) (auto simp: dropClause_def)
  qed
qed

lemma distinct_splice1_mid: "distinct (a @ b @ c) \<Longrightarrow> distinct (a @ splice1 i b @ c)"
  using set_splice1 [of i b] by (auto simp: distinct_splice1)

lemma cids_splice:
  assumes "get_bool b q = Some l" "distinct (map cid (clauses q))" "list_all (\<lambda>c. cid c < n) (clauses q)"
  shows "distinct (map cid (clauses (set_bool b (splice1 i l) q))) \<and> list_all (\<lambda>c. cid c < n) (clauses (set_bool b (splice1 i l) q))"
proof -
  obtain A C where s: "clauses q = A @ l @ C" "\<And>l'. clauses (set_bool b l' q) = A @ l' @ C"
    using get_bool_split [OF assms(1)] by blast
  from assms(2) have "distinct (map cid A @ splice1 i (map cid l) @ map cid C)"
    by (intro distinct_splice1_mid) (simp add: s)
  with assms(3) set_splice1 [of i l] show ?thesis
    by (auto simp: s map_splice1 list_all_iff)
qed

lemma dropClause_inv:
  assumes "dropClause u s = Inr s1" "refs_inv s"
  shows "refs_inv s1"
proof -
  from assms(1) obtain b l l' c v f o' where d: "get_bool b (search s) = Some l"
    "s1 = s\<lparr> search := set_bool b l' (search s) \<rparr>" "l' = l \<or> (\<exists>i. l' = splice1 i l)"
    by (rule dropClauseE)
  have "set_bool b l (search s) = search s"
    using d(1) by (auto simp: get_bool_def set_bool_def split: if_splits)
  then have "distinct (map cid (clauses (search s1))) \<and> list_all (\<lambda>c. cid c < next_cid s) (clauses (search s1))"
    using d assms(2) cids_splice [OF d(1)] by (auto simp: refs_inv_def)
  with assms(2) show ?thesis by (simp add: refs_inv_def d(2))
qed

lemma dropClause_same:
  "dropClause u s = Inr s1 \<Longrightarrow> refmap s1 = refmap s \<and> refuid s1 = refuid s \<and> defaultClause s1 = defaultClause s"
  by (erule dropClauseE) auto

lemma insertClause_keeps:
  assumes "insertClause v field op b s = Inr (u, s1)" "refs_inv s"
  shows "defaultClause s1 = defaultClause s" "u = q_id (refuid s)"
    "map_of (refmap s1) w = Some e \<longleftrightarrow>
      (if w = u then \<exists>c f o'. e = Clause_ref c v f o' (dflt b ''should'') \<and> map_of (refmap s1) u = Some e
       else map_of (refmap s) w = Some e)"
    "positive_count s \<le> positive_count s1"
proof -
  from assms(1) obtain l c f o' where i: "u = q_id (refuid s)"
    "get_bool (dflt b ''should'') (search s) = Some l"
    "s1 = s\<lparr> search := set_bool (dflt b ''should'') (l @ [c]) (search s), next_cid := Suc (next_cid s),
            refuid := Suc (refuid s),
            refmap := dput u (Clause_ref c v f o' (dflt b ''should'')) (refmap s) \<rparr>"
    by (rule insertClauseE)
  show "defaultClause s1 = defaultClause s" "u = q_id (refuid s)" using i by simp_all
  show "map_of (refmap s1) w = Some e \<longleftrightarrow>
      (if w = u then \<exists>c f o'. e = Clause_ref c v f o' (dflt b ''should'') \<and> map_of (refmap s1) u = Some e
       else map_of (refmap s) w = Some e)"
    by (auto simp: i(3))
  show "positive_count s \<le> positive_count s1"
    using i(2) by (auto simp: i(3) positive_count_def get_bool_def set_bool_def split: if_splits)
qed

lemma default_inv_keeps:
  "\<lbrakk> default_inv s; defaultClause s1 = defaultClause s;
     \<And>d e. map_of (refmap s) d = Some e \<Longrightarrow> map_of (refmap s1) d = Some e \<rbrakk> \<Longrightarrow> default_inv s1"
  unfolding default_inv_def by metis

lemma insertClause_default:
  assumes "insertClause v field op b s = Inr (u, s1)" "refs_inv s" "default_inv s"
  shows "default_inv s1"
proof (rule default_inv_keeps [OF assms(3)])
  note k = insertClause_keeps [OF assms(1,2)]
  show "defaultClause s1 = defaultClause s" by (rule k)
  show "map_of (refmap s1) d = Some e" if "map_of (refmap s) d = Some e" for d e
    using that refs_inv_fresh(1) [OF assms(2)] k(2) k(3) [of d e] by (cases "d = u") simp_all
qed

lemma get_bool_should [simp]: "get_bool ''should'' q = Some (should q)"
  by (simp add: get_bool_def)

lemma dropClause_default_total:
  "default_inv s \<Longrightarrow> \<exists>d s1. defaultClause s = Some d \<and> dropClause d s = Inr s1"
  by (auto simp: default_inv_def dropClause_def split: option.split)

lemma dropClause_default: "dropClause u s = Inr s1 \<Longrightarrow> default_inv s \<Longrightarrow> default_inv s1"
  using dropClause_same [of u s s1] by (auto intro: default_inv_keeps)

lemma log_keeps [simp]:
  "refs_inv (log e s) = refs_inv s" "default_inv (log e s) = default_inv s" "positive_count (log e s) = positive_count s"
  "refmap (log e s) = refmap s" "search (log e s) = search s" "defaultClause (log e s) = defaultClause s"
  "refuid (log e s) = refuid s" "query_inv (log e s) = query_inv s" "next_cid (log e s) = next_cid s"
  by (simp_all add: log_def refs_inv_def default_inv_def positive_count_def query_inv_def)

text \<open>\<open>addClause\<close> in a state of the invariant: what it leaves, and when it throws.\<close>

lemma addClauseE:
  assumes "addClause v field op b s = Inr (u, s')" "refs_inv s" "default_inv s"
  obtains s1 s2 where "insertClause v field op b s = Inr (u, s1)" "s' = log (Query_changed u) s2"
    "s2 = s1 \<and> positive_count s1 \<le> 1 \<or>
     (\<exists>d. defaultClause s = Some d \<and> dropClause d s1 = Inr s2 \<and> positive_count s1 > 1)"
proof -
  from assms(1) obtain s1 where i: "insertClause v field op b s = Inr (u, s1)"
    by (auto simp: addClause_eq split: sum.splits if_splits option.splits)
  show ?thesis
  proof (cases "positive_count s1 > 1")
    case False
    with assms(1) i show ?thesis by (intro that [OF i, of s1]) (auto simp: addClause_eq)
  next
    case True
    then obtain d s2 where d: "defaultClause s1 = Some d" "dropClause d s1 = Inr s2" "s' = log (Query_changed u) s2"
      using assms(1) i by (auto simp: addClause_eq split: sum.splits option.splits)
    with True insertClause_keeps(1) [OF i assms(2)] show ?thesis
      by (intro that [OF i d(3)] disjI2 exI [of _ d]) simp_all
  qed
qed

lemma addClause_inv:
  assumes "addClause v field op b s = Inr (u, s')" "query_inv s"
  shows "query_inv s'"
proof -
  from assms(2) have inv: "refs_inv s" "default_inv s" "positive_count s > 0" by (simp_all add: query_inv_def)
  from assms(1) inv(1,2) obtain s1 s2 where a: "insertClause v field op b s = Inr (u, s1)" "s' = log (Query_changed u) s2"
    "s2 = s1 \<and> positive_count s1 \<le> 1 \<or>
     (\<exists>d. defaultClause s = Some d \<and> dropClause d s1 = Inr s2 \<and> positive_count s1 > 1)"
    by (rule addClauseE)
  have s1: "refs_inv s1" "default_inv s1" "positive_count s1 > 0"
    using insertClause_inv [OF a(1) inv(1)] insertClause_default [OF a(1) inv(1,2)]
      insertClause_keeps(4) [OF a(1) inv(1)] inv(3) by simp_all
  show ?thesis
  proof (cases "s2 = s1")
    case True
    with s1 show ?thesis by (simp add: a(2) query_inv_def)
  next
    case False
    with a(3) obtain d where d: "dropClause d s1 = Inr s2" "positive_count s1 > 1" by blast
    with s1 dropClause_count [OF d(1)] show ?thesis
      by (simp add: a(2) query_inv_def dropClause_inv [OF d(1)] dropClause_default [OF d(1)])
  qed
qed

lemma addClause_keeps:
  assumes "addClause v field op b s = Inr (u, s')" "query_inv s"
  shows "u = q_id (refuid s)" "map_of (refmap s) u = None"
    "\<exists>c f o'. map_of (refmap s') u = Some (Clause_ref c v f o' (dflt b ''should''))"
    "w \<noteq> u \<Longrightarrow> map_of (refmap s') w = map_of (refmap s) w"
    "refuid s' = Suc (refuid s)" "next_cid s' = Suc (next_cid s)"
proof -
  from assms(2) have inv: "refs_inv s" "default_inv s" by (simp_all add: query_inv_def)
  from assms(1) inv obtain s1 s2 where a: "insertClause v field op b s = Inr (u, s1)" "s' = log (Query_changed u) s2"
    "s2 = s1 \<and> positive_count s1 \<le> 1 \<or>
     (\<exists>d. defaultClause s = Some d \<and> dropClause d s1 = Inr s2 \<and> positive_count s1 > 1)"
    by (rule addClauseE)
  from a(3) have s2: "refmap s2 = refmap s1" "refuid s2 = refuid s1" "next_cid s2 = next_cid s1"
    using dropClause_same [of _ s1 s2] by (auto elim!: dropClauseE)
  from a(1) obtain c f o' where i: "u = q_id (refuid s)"
    "refmap s1 = dput u (Clause_ref c v f o' (dflt b ''should'')) (refmap s)" "refuid s1 = Suc (refuid s)"
    "next_cid s1 = Suc (next_cid s)"
    by (rule insertClauseE) simp
  show "u = q_id (refuid s)" "refuid s' = Suc (refuid s)" "next_cid s' = Suc (next_cid s)" using i s2 a(2) by simp_all
  show "map_of (refmap s) u = None" using refs_inv_fresh(1) [OF inv(1)] i(1) by simp
  show "\<exists>c f o'. map_of (refmap s') u = Some (Clause_ref c v f o' (dflt b ''should''))" using i s2 a(2) by simp
  show "map_of (refmap s') w = map_of (refmap s) w" if "w \<noteq> u" using that i s2 a(2) by simp
qed

lemma setClause_total: "get_bool b (search s) = Some l \<Longrightarrow> \<exists>c s0. setClause v f op b s = Inr (c, s0)"
  by (simp add: setClause_def push_clause_def Let_def)

lemma addClause_total:
  assumes "query_inv s" "valid_bool (dflt b ''should'')"
  shows "\<exists>u s'. addClause v field op b s = Inr (u, s')"
proof -
  from assms(1) have inv: "refs_inv s" "default_inv s" by (simp_all add: query_inv_def)
  from assms(2) obtain l where "get_bool (dflt b ''should'') (search s) = Some l"
    using get_bool_valid [of "dflt b ''should''" "search s"] by auto
  then obtain c s0 where "setClause v (dflt field ''_all'') (dflt op ''match_all'') (dflt b ''should'') s = Inr (c, s0)"
    using setClause_total by blast
  then obtain u s1 where i: "insertClause v field op b s = Inr (u, s1)"
    by (simp add: insertClause_def new_ref_def Let_def)
  obtain d s2 where "defaultClause s1 = Some d" "dropClause d s1 = Inr s2"
    using dropClause_default_total [OF insertClause_default [OF i inv]] by blast
  with i show ?thesis by (simp add: addClause_eq)
qed

lemma removeClauseE:
  assumes "removeClause u s = Inr s'"
  obtains s1 where "dropClause u s = Inr s1" "positive_count s1 > 0" "s' = s1"
  | s1 d s2 where "dropClause u s = Inr s1" "positive_count s1 = 0" "addClause Undef None None None s1 = Inr (d, s2)"
      "s' = s2\<lparr> defaultClause := Some d \<rparr>"
  using assms by (auto simp: removeClause.simps split: sum.splits if_splits)

lemma set_default_keeps [simp]:
  "refs_inv (s\<lparr> defaultClause := d \<rparr>) = refs_inv s" "positive_count (s\<lparr> defaultClause := d \<rparr>) = positive_count s"
  by (simp_all add: refs_inv_def positive_count_def)

text \<open>The default clause that is installed when no positive clause is left.\<close>

lemma add_default:
  assumes "addClause Undef None None None s = Inr (d, s2)" "refs_inv s" "positive_count s = 0"
  shows "query_inv (s2\<lparr> defaultClause := Some d \<rparr>)" "d = q_id (refuid s)"
    "w \<noteq> d \<Longrightarrow> map_of (refmap s2) w = map_of (refmap s) w"
proof -
  from assms(1,3) obtain s1 where i: "insertClause Undef None None None s = Inr (d, s1)" "s2 = log (Query_changed d) s1"
    using insertClause_count [of Undef None None None s]
    by (auto simp: addClause_eq split: sum.splits if_splits option.splits)
  from i(1) obtain l c f o' where c: "d = q_id (refuid s)" "get_bool ''should'' (search s) = Some l"
    "s1 = s\<lparr> search := set_bool ''should'' (l @ [c]) (search s), next_cid := Suc (next_cid s),
            refuid := Suc (refuid s), refmap := dput d (Clause_ref c Undef f o' ''should'') (refmap s) \<rparr>"
    by (rule insertClauseE) (simp add: dflt_def)
  have "positive_count s1 > 0" by (simp add: c(3) positive_count_def set_bool_def)
  moreover have "default_inv (s2\<lparr> defaultClause := Some d \<rparr>)"
    by (simp add: default_inv_def i(2) c(3))
  ultimately show "query_inv (s2\<lparr> defaultClause := Some d \<rparr>)"
    using insertClause_inv [OF i(1) assms(2)] i(2) by (simp add: query_inv_def)
  show "d = q_id (refuid s)" by (rule c(1))
  show "w \<noteq> d \<Longrightarrow> map_of (refmap s2) w = map_of (refmap s) w" by (simp add: i(2) c(3))
qed

lemma add_default_total: "positive_count s = 0 \<Longrightarrow> \<exists>d s2. addClause Undef None None None s = Inr (d, s2)"
  by (simp add: addClause_eq insertClause_def setClause_def push_clause_def set_bool_def
      dflt_def new_ref_def log_def positive_count_def Let_def)

lemma removeClause_inv:
  assumes "removeClause u s = Inr s'" "query_inv s"
  shows "query_inv s'"
  using assms(1)
proof (cases rule: removeClauseE)
  case (1 s1)
  with assms(2) show ?thesis
    by (simp add: query_inv_def dropClause_inv [OF 1(1)] dropClause_default [OF 1(1)])
next
  case (2 s1 d s2)
  have "refs_inv s1" using dropClause_inv [OF 2(1)] assms(2) by (simp add: query_inv_def)
  from add_default(1) [OF 2(3) this 2(2)] show ?thesis by (simp add: 2(4))
qed

lemma removeClause_keeps:
  assumes "removeClause u s = Inr s'" "query_inv s" "map_of (refmap s) w = Some e"
  shows "map_of (refmap s') w = Some e"
  using assms(1)
proof (cases rule: removeClauseE)
  case (1 s1)
  with assms(3) dropClause_same [OF 1(1)] show ?thesis by simp
next
  case (2 s1 d s2)
  have r: "refs_inv s1" using dropClause_inv [OF 2(1)] assms(2) by (simp add: query_inv_def)
  have "map_of (refmap s1) w = Some e" using assms(3) dropClause_same [OF 2(1)] by simp
  moreover have "w \<noteq> d"
    using refs_inv_fresh(1) [OF r] add_default(2) [OF 2(3) r 2(2)] calculation by auto
  ultimately show ?thesis using add_default(3) [OF 2(3) r 2(2)] 2(4) by simp
qed

lemma dropClause_total:
  assumes "refs_inv s" "map_of (refmap s) u = Some (Clause_ref c v f o' b)"
  shows "\<exists>s1. dropClause u s = Inr s1"
proof -
  have "ref_ok (next_cid s) (Clause_ref c v f o' b)" using assms unfolding refs_inv_def by blast
  then have "valid_bool b" by (simp add: ref_ok_def)
  with get_bool_valid [of b "search s"] assms(2) show ?thesis by (auto simp: dropClause_def)
qed

lemma removeClause_total:
  assumes "query_inv s" "map_of (refmap s) u = Some (Clause_ref c v f o' b)"
  shows "\<exists>s'. removeClause u s = Inr s'"
proof -
  from assms(1) have "refs_inv s" by (simp add: query_inv_def)
  then obtain s1 where "dropClause u s = Inr s1" using dropClause_total [OF _ assms(2)] by blast
  then show ?thesis using add_default_total [of s1] by (auto simp: removeClause.simps)
qed

subsection \<open>The operations that do not touch the clauses\<close>

text \<open>Two states with the same clauses, references and counters.\<close>

definition same_core :: "'a builder_scheme \<Rightarrow> 'b builder_scheme \<Rightarrow> bool" where
  "same_core s s' \<longleftrightarrow> must (search s) = must (search s') \<and> must_not (search s) = must_not (search s')
     \<and> should (search s) = should (search s') \<and> refmap s = refmap s' \<and> refuid s = refuid s'
     \<and> next_cid s = next_cid s' \<and> defaultClause s = defaultClause s'"

lemma same_core_inv: "same_core s s' \<Longrightarrow> query_inv s = query_inv s'"
  by (simp add: same_core_def query_inv_def refs_inv_def default_inv_def positive_count_def clauses_def)

lemma same_core_simps [simp]:
  "same_core (setPage p s) s" "same_core (setSort i d s) s" "same_core (setIndex i a q) q" "same_core (setType i a q) q"
  by (simp_all add: same_core_def setPage_def setSort_def setIndex_def setType_def log_def Let_def)

lemmas other_ops_inv [simp] = same_core_simps [THEN same_core_inv]

lemma addAggs_inv:
  assumes "addAggs ag s = (u, s')" "query_inv s"
  shows "query_inv s'"
proof -
  have s': "u = f_id (refuid s)" "s' = s\<lparr> refuid := Suc (refuid s), search := (search s)\<lparr> aggs := dput u ag (aggs (search s)) \<rparr>,
               refmap := dput u (Aggs_ref u ag) (refmap s) \<rparr>"
    using assms(1) by (auto simp: addAggs_def Let_def)
  have inv: "refs_inv s" "default_inv s" "positive_count s > 0" using assms(2) by (simp_all add: query_inv_def)
  have "ref_name (refuid s') w \<and> ref_ok (next_cid s') e" if "map_of (refmap s') w = Some e" for w e
    using that refs_invD [OF inv(1), of w e] ref_name_mono [of "refuid s" w "refuid s'"]
    by (auto simp: s' ref_ok_def split: if_splits)
  then have "refs_inv s'"
    using inv(1) by (simp add: refs_inv_def s'(2) clauses_def)
  moreover have "default_inv s'"
    by (rule default_inv_keeps [OF inv(2)]) (use refs_inv_fresh(2) [OF inv(1)] in \<open>auto simp: s'\<close>)
  ultimately show ?thesis using inv(3) by (simp add: query_inv_def positive_count_def s'(2))
qed

lemma removeAggs_inv:
  assumes "query_inv s" "\<nexists>c v f o' b. map_of (refmap s) u = Some (Clause_ref c v f o' b)"
  shows "query_inv (removeAggs u s)"
proof -
  have inv: "refs_inv s" "default_inv s" "positive_count s > 0" using assms(1) by (simp_all add: query_inv_def)
  from inv(2) obtain d c v f o' where d: "defaultClause s = Some d" "map_of (refmap s) d = Some (Clause_ref c v f o' ''should'')"
    by (auto simp: default_inv_def)
  with assms(2) have "d \<noteq> u" by auto
  with d have "default_inv (removeAggs u s)" by (simp add: default_inv_def removeAggs_def map_of_ddel)
  moreover have "refs_inv (removeAggs u s)"
    using inv(1) by (simp add: refs_inv_def removeAggs_def map_of_ddel clauses_def)
  ultimately show ?thesis using inv(3) by (simp add: query_inv_def positive_count_def removeAggs_def)
qed

text \<open>A restored search has the same bodies in new clauses.\<close>

definition bodies :: "search \<Rightarrow> jsval list \<times> jsval list \<times> jsval list" where
  "bodies q = (map body (must q), map body (must_not q), map body (should q))"

lemma copy_clauses_simps [simp]:
  "length (copy_clauses n l) = length l" "map body (copy_clauses n l) = map body l" "map cid (copy_clauses n l) = [n..<n + length l]"
proof -
  show "length (copy_clauses n l) = length l" by (simp add: copy_clauses_def)
  show "map body (copy_clauses n l) = map body l"
    by (rule nth_equalityI) (simp_all add: copy_clauses_def split_def nth_enumerate_eq)
  show "map cid (copy_clauses n l) = [n..<n + length l]"
    by (rule nth_equalityI) (simp_all add: copy_clauses_def split_def nth_enumerate_eq)
qed

lemma bodies_copy_search [simp]: "bodies (copy_search n q) = bodies q"
  by (simp add: bodies_def copy_search_def)

lemma cids_copy_search:
  "map cid (clauses (copy_search n q)) = [n..<n + length (must q) + length (must_not q) + length (should q)]"
  by (simp add: clauses_def copy_search_def flip: upt_add_eq_append)
    (metis add.assoc le_add1 upt_add_eq_append)

lemma list_all_map: "list_all P (map f xs) = list_all (\<lambda>x. P (f x)) xs"
  by (induction xs) simp_all

definition snapshot_ok :: "snapshot \<Rightarrow> bool" where
  "snapshot_ok sn \<longleftrightarrow> length (must (sn_search sn)) + length (should (sn_search sn)) > 0"

lemma restoreState_inv:
  assumes "query_inv s" "snapshot_ok (case st of Some x \<Rightarrow> x | None \<Rightarrow> last (history s))"
  shows "query_inv (restoreState st s)"
proof -
  define sn where "sn = (case st of Some x \<Rightarrow> x | None \<Rightarrow> last (history s))"
  define q where "q = sn_search sn"
  define n where "n = next_cid s + length (must q) + length (must_not q) + length (should q)"
  have r: "restoreState st s = s\<lparr> indices := sn_indices sn, types := sn_types sn, search := copy_search (next_cid s) q, next_cid := n \<rparr>"
    by (simp add: restoreState_def sn_def q_def n_def Let_def split: option.split)
  have d: "distinct (map cid (clauses (copy_search (next_cid s) q)))"
    unfolding cids_copy_search by (rule distinct_upt)
  have "list_all (\<lambda>x. x < n) (map cid (clauses (copy_search (next_cid s) q)))"
    unfolding cids_copy_search n_def list_all_iff by simp
  then have l: "list_all (\<lambda>c. cid c < n) (clauses (copy_search (next_cid s) q))"
    by (simp add: list_all_map)
  have le: "next_cid s \<le> n" by (simp add: n_def)
  show ?thesis
    using assms d l ref_ok_mono [OF _ le]
    by (auto simp: query_inv_def refs_inv_def default_inv_def r positive_count_def copy_search_def q_def
        snapshot_ok_def sn_def split: option.splits)
qed

section \<open>The query as a state machine\<close>

text \<open>
  Besides the operations, \<open>query()\<close> posts a search and remembers the state of that moment; the
  responses come in any order, and a failed one (\<open>null\<close>) restores the last state of the history.
\<close>

record session =
  the_query :: query
  pending :: "snapshot list"

inductive session_step :: "session \<Rightarrow> session \<Rightarrow> bool" where
  Add: "addClause v f op b (the_query w) = Inr (u, q) \<Longrightarrow> session_step w (w\<lparr> the_query := q \<rparr>)"
| Remove: "removeClause u (the_query w) = Inr q \<Longrightarrow> session_step w (w\<lparr> the_query := q \<rparr>)"
| Set_page: "session_step w (w\<lparr> the_query := setPage p (the_query w) \<rparr>)"
| Set_sort: "session_step w (w\<lparr> the_query := setSort i d (the_query w) \<rparr>)"
| Set_index: "session_step w (w\<lparr> the_query := setIndex i a (the_query w) \<rparr>)"
| Set_type: "session_step w (w\<lparr> the_query := setType i a (the_query w) \<rparr>)"
| Add_aggs: "addAggs ag (the_query w) = (u, q) \<Longrightarrow> session_step w (w\<lparr> the_query := q \<rparr>)"
| Remove_aggs: "map_of (refmap (the_query w)) u = Some (Aggs_ref u' ag) \<Longrightarrow>
    session_step w (w\<lparr> the_query := removeAggs u (the_query w) \<rparr>)"
| Post: "query_post (the_query w) = (path, data, sn) \<Longrightarrow> session_step w (w\<lparr> pending := pending w @ [sn] \<rparr>)"
| Respond: "i < length (pending w) \<Longrightarrow>
    session_step w (w\<lparr> the_query := query_done (pending w ! i) results (the_query w), pending := splice1 i (pending w) \<rparr>)"

inductive session_reach :: "session \<Rightarrow> bool" where
  Start: "query_init sz = Inr q \<Longrightarrow> session_reach \<lparr> the_query = q, pending = [] \<rparr>"
| Step: "session_reach w \<Longrightarrow> session_step w w' \<Longrightarrow> session_reach w'"

definition session_inv :: "session \<Rightarrow> bool" where
  "session_inv w \<longleftrightarrow> query_inv (the_query w) \<and> history (the_query w) \<noteq> []
     \<and> list_all snapshot_ok (history (the_query w)) \<and> list_all snapshot_ok (pending w)"

lemma query_inv_snapshot: "query_inv q \<Longrightarrow> snapshot_ok (getState q)"
  by (simp add: query_inv_def snapshot_ok_def getState_def positive_count_def)

lemma history_keeps:
  fixes q q' :: query
  shows "addClause v f op b q = Inr (u, q') \<Longrightarrow> history q' = history q"
  and "removeClause u q = Inr q' \<Longrightarrow> history q' = history q"
proof -
  have i: "history q' = history q" if "insertClause v f op b q = Inr (u, q')" for v f op b u and q q' :: query
    using that by (rule insertClauseE) simp
  have d: "history q' = history q" if "dropClause u q = Inr q'" for u and q q' :: query
    using that by (rule dropClauseE) simp
  have a: "history q' = history q" if "addClause v f op b q = Inr (u, q')" for v f op b u and q q' :: query
    using that by (auto simp: addClause_eq log_def dest!: i d split: sum.splits if_splits option.splits)
  show "addClause v f op b q = Inr (u, q') \<Longrightarrow> history q' = history q" by (rule a)
  show "removeClause u q = Inr q' \<Longrightarrow> history q' = history q"
    by (erule removeClauseE) (auto dest!: d a)
qed

lemma query_init_inv:
  assumes "query_init sz = Inr q"
  shows "query_inv q \<and> history q \<noteq> [] \<and> list_all snapshot_ok (history q)"
proof -
  from assms obtain d s where a: "addClause Undef None None None (empty_query sz) = Inr (d, s)"
    "q = (s\<lparr> defaultClause := Some d \<rparr>)\<lparr> history := [getState (s\<lparr> defaultClause := Some d \<rparr>)] \<rparr>"
    by (auto simp: query_init_def Let_def split: sum.splits)
  have "refs_inv (empty_query sz)" "positive_count (empty_query sz) = 0"
    by (simp_all add: empty_query_def empty_builder_def empty_search_def builder.extend_def refs_inv_def
        clauses_def positive_count_def)
  from add_default(1) [OF a(1) this] have inv: "query_inv (s\<lparr> defaultClause := Some d \<rparr>)" .
  moreover have "same_core q (s\<lparr> defaultClause := Some d \<rparr>)" by (simp add: same_core_def a(2))
  ultimately show ?thesis using query_inv_snapshot [OF inv] by (simp add: same_core_inv a(2))
qed

lemma list_all_splice1: "list_all P xs \<Longrightarrow> list_all P (splice1 i xs)"
  using set_splice1 [of i xs] by (auto simp: list_all_iff)

lemma query_done_inv:
  assumes "query_inv q" "history q \<noteq> []" "list_all snapshot_ok (history q)" "snapshot_ok sn"
  shows "query_inv (query_done sn r q) \<and> history (query_done sn r q) \<noteq> [] \<and> list_all snapshot_ok (history (query_done sn r q))"
proof (cases "r = Null")
  case True
  have "snapshot_ok (last (history q))" using assms(2,3) by (simp add: list_all_iff)
  then have "query_inv (restoreState None (log Fail_and_undo q))"
    using assms(1) by (intro restoreState_inv) (simp_all add: log_def query_inv_def refs_inv_def default_inv_def positive_count_def)
  with True assms show ?thesis by (simp add: query_done_def restoreState_def log_def Let_def)
next
  case False
  have "same_core (query_done sn r q) q" using False by (simp add: query_done_def same_core_def log_def)
  with False assms show ?thesis by (simp add: same_core_inv) (simp add: query_done_def log_def)
qed

lemma history_simps [simp]:
  "history (setPage p q) = history q" "history (setSort i d q) = history q" "history (setIndex i a q) = history q"
  "history (setType i a q) = history q"
  by (simp_all add: setPage_def setSort_def setIndex_def setType_def log_def Let_def)

lemma session_inv_step:
  assumes "session_step w w'" "session_inv w"
  shows "session_inv w'"
  using assms
proof (cases rule: session_step.cases)
  case (Add v f op b u q)
  with assms(2) addClause_inv [OF Add(2)] history_keeps(1) [OF Add(2)] show ?thesis by (simp add: session_inv_def)
next
  case (Remove u q)
  with assms(2) removeClause_inv [OF Remove(2)] history_keeps(2) [OF Remove(2)] show ?thesis by (simp add: session_inv_def)
next
  case (Add_aggs ag u q)
  then have "history q = history (the_query w)" by (auto simp: addAggs_def Let_def)
  with Add_aggs assms(2) addAggs_inv [OF Add_aggs(2)] show ?thesis by (simp add: session_inv_def)
next
  case (Remove_aggs u u' ag)
  then show ?thesis using assms(2) removeAggs_inv [of "the_query w" u] by (simp add: session_inv_def removeAggs_def)
next
  case (Post path data sn)
  then have "sn = getState (the_query w)" by (simp add: query_post_def)
  with Post assms(2) query_inv_snapshot show ?thesis by (simp add: session_inv_def)
next
  case (Respond i r)
  have "snapshot_ok (pending w ! i)" using Respond(2) assms(2) by (simp add: session_inv_def list_all_length)
  with Respond assms(2) query_done_inv [of "the_query w" "pending w ! i" r] list_all_splice1 [of snapshot_ok "pending w" i] show ?thesis
    by (simp add: session_inv_def)
qed (simp_all add: session_inv_def)

lemma session_reach_inv: "session_reach w \<Longrightarrow> session_inv w"
proof (induction rule: session_reach.induct)
  case (Start sz q)
  then show ?case using query_init_inv [of sz q] by (simp add: session_inv_def)
qed (rule session_inv_step)



section \<open>The interface of the two builders\<close>

text \<open>What the filter rows of the browsers use: clauses are added, the reference is kept, and the
  clause is removed by it.\<close>

locale clause_builder =
  fixes add :: "jsval \<Rightarrow> string option \<Rightarrow> string option \<Rightarrow> string option \<Rightarrow> 's \<Rightarrow> (string \<times> 's) res"
    and remove :: "string \<Rightarrow> 's \<Rightarrow> 's res"
    and inv :: "'s \<Rightarrow> bool"
    and known :: "'s \<Rightarrow> string set"
  assumes add_total: "inv s \<Longrightarrow> valid_bool (dflt b ''should'') \<Longrightarrow> \<exists>u s'. add v f op b s = Inr (u, s')"
    and add_inv: "add v f op b s = Inr (u, s') \<Longrightarrow> inv s \<Longrightarrow> valid_bool (dflt b ''should'') \<Longrightarrow> inv s'"
    and add_fresh: "add v f op b s = Inr (u, s') \<Longrightarrow> inv s \<Longrightarrow> valid_bool (dflt b ''should'') \<Longrightarrow> u \<notin> known s \<and> insert u (known s) \<subseteq> known s'"
    and remove_total: "inv s \<Longrightarrow> u \<in> known s \<Longrightarrow> \<exists>s'. remove u s = Inr s'"
    and remove_inv: "remove u s = Inr s' \<Longrightarrow> inv s \<Longrightarrow> inv s' \<and> known s \<subseteq> known s'"
begin

fun add_all :: "(jsval \<times> string option \<times> string option \<times> string option) list \<Rightarrow> 's \<Rightarrow> (string list \<times> 's) res" where
  "add_all [] s = Inr ([], s)"
| "add_all ((v, f, op, b) # cs) s =
     res_bind (add v f op b s) (\<lambda>(u, s1). res_bind (add_all cs s1) (\<lambda>(us, s2). Inr (u # us, s2)))"

fun remove_all :: "string list \<Rightarrow> 's \<Rightarrow> 's res" where
  "remove_all [] s = Inr s"
| "remove_all (u # us) s = res_bind (remove u s) (remove_all us)"

lemma add_all_total:
  "inv s \<Longrightarrow> list_all (\<lambda>(v, f, op, b). valid_bool (dflt b ''should'')) cs \<Longrightarrow>
   \<exists>us s'. add_all cs s = Inr (us, s') \<and> inv s' \<and> length us = length cs \<and> distinct us
     \<and> set us \<inter> known s = {} \<and> set us \<union> known s \<subseteq> known s'"
proof (induction cs arbitrary: s)
  case (Cons c cs)
  obtain v f op b where c: "c = (v, f, op, b)" by (cases c)
  with Cons.prems obtain u s1 where a: "add v f op b s = Inr (u, s1)" using add_total by fastforce
  have vb: "valid_bool (dflt b ''should'')" using Cons.prems(2) c by simp
  note i = add_inv [OF a Cons.prems(1) vb] add_fresh [OF a Cons.prems(1) vb]
  from Cons.IH [OF i(1)] Cons.prems(2) obtain us s' where
    "add_all cs s1 = Inr (us, s')" "inv s'" "length us = length cs" "distinct us"
    "set us \<inter> known s1 = {}" "set us \<union> known s1 \<subseteq> known s'" by auto
  with a i c show ?case by (intro exI [of _ "u # us"] exI [of _ s']) auto
qed simp

lemma remove_all_total:
  "inv s \<Longrightarrow> set us \<subseteq> known s \<Longrightarrow> \<exists>s'. remove_all us s = Inr s' \<and> inv s'"
proof (induction us arbitrary: s)
  case (Cons u us)
  obtain s1 where r: "remove u s = Inr s1" using remove_total [OF Cons.prems(1), of u] Cons.prems(2) by auto
  from remove_inv [OF r Cons.prems(1)] Cons.prems(2) Cons.IH [of s1] r show ?case by auto
qed simp

text \<open>A batch of rows can be added and then taken out again.\<close>

lemma add_remove_all:
  assumes "inv s" "list_all (\<lambda>(v, f, op, b). valid_bool (dflt b ''should'')) cs"
  shows "\<exists>us s1 s2. add_all cs s = Inr (us, s1) \<and> distinct us \<and> remove_all us s1 = Inr s2 \<and> inv s2"
proof -
  from add_all_total [OF assms] obtain us s1 where
    "add_all cs s = Inr (us, s1)" "inv s1" "distinct us" "set us \<subseteq> known s1" by auto
  with remove_all_total [of s1 us] show ?thesis by blast
qed

end

definition clause_refs :: "'a builder_scheme \<Rightarrow> string set" where
  "clause_refs s = {u. \<exists>c v f o' b. map_of (refmap s) u = Some (Clause_ref c v f o' b)}"

interpretation qb: clause_builder addClause removeClause query_inv clause_refs
proof unfold_locales
  fix s s' :: "'a builder_scheme" and u v f op b
  show "query_inv s \<Longrightarrow> valid_bool (dflt b ''should'') \<Longrightarrow> \<exists>u s'. addClause v f op b s = Inr (u, s')"
    by (rule addClause_total)
  show "addClause v f op b s = Inr (u, s') \<Longrightarrow> query_inv s \<Longrightarrow> query_inv s'" by (rule addClause_inv)
  show "u \<notin> clause_refs s \<and> insert u (clause_refs s) \<subseteq> clause_refs s'"
    if "addClause v f op b s = Inr (u, s')" "query_inv s"
    using addClause_keeps [OF that] by (auto simp: clause_refs_def) (metis option.distinct(1))
  show "query_inv s \<Longrightarrow> u \<in> clause_refs s \<Longrightarrow> \<exists>s'. removeClause u s = Inr s'"
    by (auto simp: clause_refs_def intro: removeClause_total)
  show "removeClause u s = Inr s' \<Longrightarrow> query_inv s \<Longrightarrow> query_inv s' \<and> clause_refs s \<subseteq> clause_refs s'"
    by (auto simp: clause_refs_def intro: removeClause_inv dest: removeClause_keeps)
qed

text \<open>
  \<open>BoolQuery\<close> keeps less: nothing puts a default clause back, so all positive clauses can go.
\<close>

definition bq_inv :: "'a builder_scheme \<Rightarrow> bool" where
  "bq_inv s \<longleftrightarrow> refs_inv s \<and> (\<exists>d c v f o' b. defaultClause s = Some d \<and> map_of (refmap s) d = Some (Clause_ref c v f o' b))"

lemma bq_removeClause_eq: "bq_removeClause u s = dropClause u s"
  by (simp add: bq_removeClause_def dropClause_def split: option.split ref_entry.split)

lemma bq_setClause_push: "\<exists>w b'. bq_setClause v f op b s = push_clause b' w s \<and> (valid_bool b \<longrightarrow> valid_bool b')"
  by (auto simp: bq_setClause_def valid_bool_def)

lemma valid_push_total: "valid_bool b \<Longrightarrow> \<exists>c s'. push_clause b w s = Inr (c, s')"
  using get_bool_valid [of b "search s"] by (auto simp: push_clause_def Let_def)

text \<open>A new clause with its reference, in any of the lists.\<close>

lemma push_ref_inv:
  assumes "push_clause b w s = Inr (c, s1)" "new_ref c v f op b' s1 = (u, s2)" "valid_bool b'" "refs_inv s"
  shows "refs_inv s2" "u = q_id (refuid s)" "defaultClause s2 = defaultClause s"
    "refmap s2 = dput u (Clause_ref c v f op b') (refmap s)"
proof -
  from assms(1) obtain l where p: "get_bool b (search s) = Some l" "cid c = next_cid s"
    "s1 = s\<lparr> search := set_bool b (l @ [c]) (search s), next_cid := Suc (next_cid s) \<rparr>"
    by (auto simp: push_clause_Inr)
  from assms(2) have n: "u = q_id (refuid s)"
    "s2 = s1\<lparr> refuid := Suc (refuid s), refmap := dput u (Clause_ref c v f op b') (refmap s) \<rparr>"
    by (auto simp: new_ref_def Let_def p(3))
  show "u = q_id (refuid s)" "defaultClause s2 = defaultClause s" "refmap s2 = dput u (Clause_ref c v f op b') (refmap s)"
    by (simp_all add: n p(3))
  have "ref_name (refuid s2) x \<and> ref_ok (next_cid s2) e" if "map_of (refmap s2) x = Some e" for x e
    using that refs_invD [OF assms(4), of x e] ref_name_mono [of "refuid s" x "Suc (refuid s)"]
      ref_ok_mono [of "next_cid s" e "Suc (next_cid s)"] assms(3) p(2)
    by (auto simp: n p(3) split: if_splits) (auto simp: ref_ok_def)
  then show "refs_inv s2"
    using cids_push [OF p(1) _ _ p(2)] assms(4) by (simp add: refs_inv_def n p(3))
qed

lemma bq_addClauseE:
  assumes "bq_addClause v field op b s = Inr (u, s')"
  obtains c s1 s2 s3 where
    "bq_setClause v (dflt field ''_all'') (dflt op ''match_all'') (dflt b ''should'') s = Inr (c, s1)"
    "new_ref c v (dflt field ''_all'') (dflt op ''match_all'') (dflt b ''should'') s1 = (u, s2)"
    "s3 = s2 \<or> (\<exists>d. bq_removeClause d s2 = Inr s3)" "s' = log (Query_changed u) s3"
proof -
  from assms obtain c s1 where c: "bq_setClause v (dflt field ''_all'') (dflt op ''match_all'') (dflt b ''should'') s = Inr (c, s1)"
    by (auto simp: bq_addClause_def Let_def)
  obtain x s2 where n: "new_ref c v (dflt field ''_all'') (dflt op ''match_all'') (dflt b ''should'') s1 = (x, s2)"
    by fastforce
  have "x = u" "\<exists>s3. (s3 = s2 \<or> (\<exists>d. bq_removeClause d s2 = Inr s3)) \<and> s' = log (Query_changed u) s3"
    using assms c n by (auto simp: bq_addClause_def Let_def split: if_splits option.splits)
  with c n show ?thesis using that by blast
qed

lemma clause_refs_log [simp]: "clause_refs (log e s) = clause_refs s"
  by (simp add: clause_refs_def)

lemma bq_inv_log [simp]: "bq_inv (log e s) = bq_inv s"
  by (simp add: bq_inv_def)

lemma bq_inv_drop: "bq_inv s \<Longrightarrow> dropClause u s = Inr s1 \<Longrightarrow> bq_inv s1 \<and> clause_refs s1 = clause_refs s"
  using dropClause_same [of u s s1] by (auto simp: bq_inv_def dropClause_inv clause_refs_def)

lemma bq_step:
  assumes "bq_setClause v f op b s = Inr (c, s1)" "new_ref c v f op b s1 = (u, s2)" "valid_bool b" "bq_inv s"
  shows "bq_inv s2 \<and> u \<notin> clause_refs s \<and> clause_refs s2 = insert u (clause_refs s)"
proof -
  obtain w b' where "push_clause b' w s = Inr (c, s1)"
    using bq_setClause_push [of v f op b s] assms(1) by auto
  moreover have r: "refs_inv s" using assms(4) by (simp add: bq_inv_def)
  ultimately have p: "refs_inv s2" "u = q_id (refuid s)" "defaultClause s2 = defaultClause s"
    "refmap s2 = dput u (Clause_ref c v f op b) (refmap s)"
    using push_ref_inv [OF _ assms(2,3)] by auto
  have fresh: "map_of (refmap s) u = None" using refs_inv_fresh(1) [OF r] p(2) by simp
  then have "u \<notin> clause_refs s" by (simp add: clause_refs_def)
  moreover have "clause_refs s2 = insert u (clause_refs s)" by (auto simp: clause_refs_def p(4))
  moreover have "bq_inv s2"
    using assms(4) fresh p(1,3) by (fastforce simp: bq_inv_def p(4))
  ultimately show ?thesis by simp
qed

interpretation bq: clause_builder bq_addClause bq_removeClause bq_inv clause_refs
proof unfold_locales
  fix s s' :: "'a builder_scheme" and u v field op b
  have rt: "\<exists>s1. bq_removeClause u s = Inr s1" if "bq_inv s" "u \<in> clause_refs s" for u and s :: "'a builder_scheme"
    using that dropClause_total [of s u] by (auto simp: bq_inv_def clause_refs_def bq_removeClause_eq)
  show "\<exists>u s'. bq_addClause v field op b s = Inr (u, s')" if a: "bq_inv s" "valid_bool (dflt b ''should'')"
  proof -
    obtain c s1 where c: "bq_setClause v (dflt field ''_all'') (dflt op ''match_all'') (dflt b ''should'') s = Inr (c, s1)"
      using bq_setClause_push [of v "dflt field ''_all''" "dflt op ''match_all''" "dflt b ''should''" s]
        valid_push_total [of _ _ s] a(2) by metis
    obtain u s2 where n: "new_ref c v (dflt field ''_all'') (dflt op ''match_all'') (dflt b ''should'') s1 = (u, s2)"
      by fastforce
    have "bq_inv s2" using bq_step [OF c n a(2,1)] by simp
    then obtain d s3 where "defaultClause s2 = Some d" "bq_removeClause d s2 = Inr s3"
      using rt [of s2] by (fastforce simp: bq_inv_def clause_refs_def)
    with c n show ?thesis by (simp add: bq_addClause_def Let_def)
  qed
  show "bq_inv s'" if a: "bq_addClause v field op b s = Inr (u, s')" "bq_inv s" "valid_bool (dflt b ''should'')"
  proof -
    from a(1) obtain c s1 s2 s3 where e: "bq_setClause v (dflt field ''_all'') (dflt op ''match_all'') (dflt b ''should'') s = Inr (c, s1)"
    "new_ref c v (dflt field ''_all'') (dflt op ''match_all'') (dflt b ''should'') s1 = (u, s2)"
    "s3 = s2 \<or> (\<exists>d. bq_removeClause d s2 = Inr s3)" "s' = log (Query_changed u) s3"
      by (rule bq_addClauseE)
    have "bq_inv s2" using bq_step [OF e(1,2) a(3,2)] by simp
    with e(3,4) bq_inv_drop show ?thesis by (auto simp: bq_removeClause_eq)
  qed
  show "u \<notin> clause_refs s \<and> insert u (clause_refs s) \<subseteq> clause_refs s'"
    if a: "bq_addClause v field op b s = Inr (u, s')" "bq_inv s" "valid_bool (dflt b ''should'')"
  proof -
    from a(1) obtain c s1 s2 s3 where e: "bq_setClause v (dflt field ''_all'') (dflt op ''match_all'') (dflt b ''should'') s = Inr (c, s1)"
    "new_ref c v (dflt field ''_all'') (dflt op ''match_all'') (dflt b ''should'') s1 = (u, s2)"
    "s3 = s2 \<or> (\<exists>d. bq_removeClause d s2 = Inr s3)" "s' = log (Query_changed u) s3"
      by (rule bq_addClauseE)
    note s2 = bq_step [OF e(1,2) a(3,2)]
    have "clause_refs s' = clause_refs s2"
      using e(3,4) bq_inv_drop [of s2] s2 by (auto simp: bq_removeClause_eq)
    with s2 show ?thesis by simp
  qed
  show "bq_inv s \<Longrightarrow> u \<in> clause_refs s \<Longrightarrow> \<exists>s'. bq_removeClause u s = Inr s'" by (rule rt)
  show "bq_removeClause u s = Inr s' \<Longrightarrow> bq_inv s \<Longrightarrow> bq_inv s' \<and> clause_refs s \<subseteq> clause_refs s'"
    using bq_inv_drop by (fastforce simp: bq_removeClause_eq)
qed

section \<open>Properties of the operations\<close>

definition default_absent :: "'a builder_scheme \<Rightarrow> bool" where
  "default_absent s = (case defaultClause s of
     Some d \<Rightarrow> (case map_of (refmap s) d of
       Some (Clause_ref c _ _ _ b) \<Rightarrow> b = ''should'' \<and> find_index (\<lambda>c'. cid c' = cid c) (should (search s)) = None | _ \<Rightarrow> False)
   | None \<Rightarrow> False)"

lemma set_bool_get: "get_bool b q = Some l \<Longrightarrow> set_bool b l (set_bool b l' q) = q"
  by (auto simp: get_bool_def set_bool_def split: if_splits)

lemma get_set_bool: "get_bool b q = Some l \<Longrightarrow> get_bool b (set_bool b l' q) = Some l'"
  by (auto simp: get_bool_def set_bool_def split: if_splits)

lemma splice1_last: "splice1 (length l) (l @ [x]) = l"
  by (simp add: splice1_def)

lemma find_index_last: "list_all (\<lambda>y. \<not> P y) l \<Longrightarrow> P x \<Longrightarrow> find_index P (l @ [x]) = Some (length l)"
  by (induction l) auto

lemma add_remove_aux:
  assumes "query_inv s" "default_absent s" "addClause v f op b s = Inr (u, s1)"
  shows "\<exists>s2. removeClause u s1 = Inr s2 \<and> search s2 = search s"
proof -
  have inv: "refs_inv s" "default_inv s" "positive_count s > 0" using assms(1) by (simp_all add: query_inv_def)
  obtain d c' v' f' o'' where d: "defaultClause s = Some d" "map_of (refmap s) d = Some (Clause_ref c' v' f' o'' ''should'')"
    "find_index (\<lambda>x. cid x = cid c') (should (search s)) = None"
    using assms(2) by (auto simp: default_absent_def split: option.splits ref_entry.splits)
  from assms(3) inv(1,2) obtain t1 t2 where a: "insertClause v f op b s = Inr (u, t1)" "s1 = log (Query_changed u) t2"
    "t2 = t1 \<and> positive_count t1 \<le> 1 \<or> (\<exists>d. defaultClause s = Some d \<and> dropClause d t1 = Inr t2 \<and> positive_count t1 > 1)"
    by (rule addClauseE)
  from a(1) obtain l c f' o' where i: "u = q_id (refuid s)"
    "get_bool (dflt b ''should'') (search s) = Some l" "cid c = next_cid s"
    "t1 = s\<lparr> search := set_bool (dflt b ''should'') (l @ [c]) (search s), next_cid := Suc (next_cid s),
            refuid := Suc (refuid s),
            refmap := dput u (Clause_ref c v f' o' (dflt b ''should'')) (refmap s) \<rparr>"
    by (rule insertClauseE)
  have c': "cid c' < next_cid s" using refs_invD [OF inv(1) d(2)] by (simp add: ref_ok_def)
  have "d \<noteq> u" using refs_inv_fresh(1) [OF inv(1)] d(2) i(1) by auto
  moreover have "find_index (\<lambda>x. cid x = cid c') (should (search t1)) = None"
    using d(3) i(2,3) c' by (auto simp: i(4) set_bool_def get_bool_def find_index_None split: if_splits)
  ultimately have "dropClause d t1 = Inr t1" using d(2) by (simp add: i(4) dropClause_def)
  with a(3) d(1) have t2: "t2 = t1" by auto
  have "list_all (\<lambda>x. cid x \<noteq> cid c) l"
  proof -
    obtain A C where "clauses (search s) = A @ l @ C" using get_bool_split [OF i(2)] by blast
    with inv(1) have "list_all (\<lambda>x. cid x < next_cid s) l" by (simp add: refs_inv_def)
    then show ?thesis by (rule list.pred_mono_strong) (simp add: i(3))
  qed
  then have "dropClause u s1 = Inr (s1\<lparr> search := search s \<rparr>)"
    using get_set_bool [OF i(2)] set_bool_get [OF i(2)] find_index_last [of "\<lambda>x. cid x = cid c" l c]
    by (simp add: dropClause_def a(2) t2 i(4) log_def splice1_last)
  moreover have "positive_count (s1\<lparr> search := search s \<rparr>) = positive_count s"
    by (simp add: positive_count_def)
  ultimately show ?thesis using inv(3) by (simp add: removeClause.simps)
qed


definition sample_query :: "query res" where
  "sample_query = res_bind (query_init 50) (\<lambda>q.
     res_bind (addClause (Str ''kimchy'') (Some ''user'') (Some ''term'') (Some ''must'') q) (\<lambda>(u, s). Inr s))"

lemma sample_queryE:
  obtains s where "sample_query = Inr s" "query_inv s" "default_absent s" "clause_refs s = {''q-0'', ''q-1''}"
proof -
  have "(case sample_query of Inr s \<Rightarrow> default_absent s \<and> map fst (refmap s) = [''q-0'', ''q-1''] \<and>
      list_all (\<lambda>(u, e). case e of Clause_ref _ _ _ _ _ \<Rightarrow> True | _ \<Rightarrow> False) (refmap s) | _ \<Rightarrow> False)"
    by code_simp
  then obtain s where s: "sample_query = Inr s" "default_absent s"
    "map fst (refmap s) = [''q-0'', ''q-1'']" "list_all (\<lambda>(u, e). case e of Clause_ref _ _ _ _ _ \<Rightarrow> True | _ \<Rightarrow> False) (refmap s)"
    by (auto split: sum.splits)
  then have "query_inv s"
    by (auto simp: sample_query_def dest!: query_init_inv addClause_inv)
  moreover obtain e0 e1 where r: "refmap s = [(''q-0'', e0), (''q-1'', e1)]"
    using s(3) by (auto simp: map_eq_Cons_conv)
  with s(4) have "clause_refs s = {''q-0'', ''q-1''}"
    by (cases e0; cases e1) (auto simp: clause_refs_def split: if_splits)
  ultimately show ?thesis using s that by blast
qed


text \<open>A restored search has clauses of its own, which no reference names.\<close>

lemma dropClause_restored:
  assumes "query_inv s" "u \<in> clause_refs s"
  shows "dropClause u (restoreState (Some st) s) = Inr (restoreState (Some st) s)"
proof -
  let ?r = "restoreState (Some st) s"
  obtain c v f o' b where m: "map_of (refmap s) u = Some (Clause_ref c v f o' b)"
    using assms(2) by (auto simp: clause_refs_def)
  have inv: "refs_inv s" using assms(1) by (simp add: query_inv_def)
  have ok: "valid_bool b" "cid c < next_cid s" using refs_invD [OF inv m] by (simp_all add: ref_ok_def)
  obtain l where l: "get_bool b (search ?r) = Some l" using get_bool_valid [of b "search ?r"] ok(1) by auto
  obtain A C where s: "clauses (search ?r) = A @ l @ C" using get_bool_split [OF l] by blast
  have "map cid (clauses (search ?r)) = [next_cid s..<next_cid ?r]"
    by (simp add: restoreState_def Let_def cids_copy_search)
  then have "list_all (\<lambda>n. n \<ge> next_cid s) (map cid (clauses (search ?r)))"
    by (simp add: list_all_iff)
  then have "list_all (\<lambda>c'. cid c' \<ge> next_cid s) l" by (simp add: s list_all_map)
  then have "find_index (\<lambda>c'. cid c' = cid c) l = None"
    using ok(2) by (auto simp: find_index_None list_all_iff)
  with l m show ?thesis by (simp add: dropClause_def) (simp add: restoreState_def Let_def)
qed

text \<open>C24: \<open>restoreState\<close> brings back the indices, the types and the bodies of the clauses, but as deep copies:
  from then on the references handed out before, the default clause's included, remove nothing.\<close>

theorem restoreState_copies:
  assumes "query_inv s" "snapshot_ok st" "u \<in> clause_refs s"
  shows "indices (restoreState (Some st) s) = sn_indices st \<and> types (restoreState (Some st) s) = sn_types st
     \<and> bodies (search (restoreState (Some st) s)) = bodies (sn_search st)
     \<and> removeClause u (restoreState (Some st) s) = Inr (restoreState (Some st) s)"
proof -
  have "positive_count (restoreState (Some st) s) > 0"
    using assms(2) by (simp add: positive_count_def restoreState_def copy_search_def snapshot_ok_def Let_def)
  then have "removeClause u (restoreState (Some st) s) = Inr (restoreState (Some st) s)"
    using dropClause_restored [OF assms(1,3)] by (simp add: removeClause.simps)
  then show ?thesis by (simp add: restoreState_def Let_def)
qed

theorem restoreState_copies_witness:
  "\<exists>s. sample_query = Inr s \<and> removeClause ''q-1'' (restoreState (Some (getState s)) s) = Inr (restoreState (Some (getState s)) s)"
proof -
  obtain s where s: "sample_query = Inr s" "query_inv s" "clause_refs s = {''q-0'', ''q-1''}" by (rule sample_queryE)
  have "''q-1'' \<in> clause_refs s" by (simp add: s(3))
  from s(1) restoreState_copies [OF s(2) query_inv_snapshot [OF s(2)] this] show ?thesis by blast
qed

lemma drop_older_filter:
  "i \<ge> 1 \<Longrightarrow> distinct (map fst es) \<Longrightarrow> drop_older x i es = filter (\<lambda>e. fst e \<noteq> x) es"
proof (induction es arbitrary: i)
  case (Cons e es)
  have "filter (\<lambda>e. fst e \<noteq> fst e') es = es" if "e' = e" for e'
    using Cons.prems(2) that by (intro filter_True) (auto simp: image_iff)
  with Cons show ?case by auto
qed simp

text \<open>\<open>setSort\<close> puts its field first, once, and keeps the other fields in their order; the sort list
  never has a field twice.\<close>

theorem setSort_first:
  assumes "distinct (map fst (sort_list (search s)))"
  shows "sort_list (search (setSort x desc s)) =
           (x, if desc then ''asc'' else ''desc'') # filter (\<lambda>e. fst e \<noteq> x) (sort_list (search s))
         \<and> distinct (map fst (sort_list (search (setSort x desc s))))"
proof -
  have "sort_list (search (setSort x desc s)) =
      (x, if desc then ''asc'' else ''desc'') # filter (\<lambda>e. fst e \<noteq> x) (sort_list (search s))"
    using assms by (simp add: setSort_def Let_def drop_older_filter)
  then show ?thesis using assms by (auto simp: distinct_map_filter)
qed

theorem setSort_first_witness:
  "sort_list (search (setSort ''a'' True ((empty_query 50)\<lparr> search := (empty_search 50)\<lparr> sort_list := [(''b'', ''asc''), (''a'', ''desc'')] \<rparr> \<rparr>)))
     = [(''a'', ''asc''), (''b'', ''asc'')]"
  using setSort_first [of "(empty_query 50)\<lparr> search := (empty_search 50)\<lparr> sort_list := [(''b'', ''asc''), (''a'', ''desc'')] \<rparr> \<rparr>"
      "''a''" True] by simp

lemma dropClause_must:
  assumes "dropClause u s = Inr s1"
  shows "set (must (search s1)) \<subseteq> set (must (search s))"
proof -
  from assms obtain b l l' c v f o' where d: "get_bool b (search s) = Some l"
    "s1 = s\<lparr> search := set_bool b l' (search s) \<rparr>" "l' = l \<or> (\<exists>i. l' = splice1 i l)"
    by (rule dropClauseE)
  from d(3) have "set l' \<subseteq> set l" by (auto dest: set_splice1 [THEN subsetD])
  with d(1,2) show ?thesis by (auto simp: set_bool_def get_bool_def split: if_splits)
qed

lemma bq_missing_stuck:
  assumes "bq_inv s" "bq_addClause v f (Some ''missing'') (Some ''must'') s = Inr (u, s')"
  shows "bq_removeClause u s' = Inr s'"
proof -
  from assms(2) obtain c s1 s2 s3 f' where e: "bq_setClause v f' ''missing'' ''must'' s = Inr (c, s1)"
    "new_ref c v f' ''missing'' ''must'' s1 = (u, s2)"
    "s3 = s2 \<or> (\<exists>d. bq_removeClause d s2 = Inr s3)" "s' = log (Query_changed u) s3"
    by (rule bq_addClauseE) (auto simp: dflt_def split: if_splits)
  from e(1) have c: "cid c = next_cid s" "must (search s1) = must (search s)"
    by (auto simp: bq_setClause_def push_clause_Inr set_bool_def)
  from e(2) have s2: "search s2 = search s1" "map_of (refmap s2) u = Some (Clause_ref c v f' ''missing'' ''must'')"
    by (auto simp: new_ref_def Let_def)
  from e(3) have s3: "refmap s3 = refmap s2" "set (must (search s3)) \<subseteq> set (must (search s2))"
    using dropClause_same [of _ s2 s3] dropClause_must [of _ s2 s3] by (auto simp: bq_removeClause_eq)
  have "list_all (\<lambda>x. cid x < next_cid s) (must (search s))"
    using assms(1) by (simp add: bq_inv_def refs_inv_def clauses_def)
  with s3(2) have "list_all (\<lambda>x. cid x < next_cid s) (must (search s'))"
    by (auto simp: e(4) s2 c(2) list_all_iff)
  then have "find_index (\<lambda>x. cid x = cid c) (must (search s')) = None"
    by (auto simp: find_index_None list_all_iff c(1))
  then show ?thesis using s2(2) s3(1) by (simp add: bq_removeClause_def e(4) get_bool_def)
qed

text \<open>The pages of a \<open>Query\<close> tile the hits from the first one on. Those of a \<open>BoolQuery\<close> all start one hit
  later, so that the first hit is on no page; and its \<open>missing\<close> clause, asked for under must, goes
  to must_not, from where its reference cannot remove it.\<close>

theorem bool_query_slips:
  "page_from (search (setPage 1 s)) = 0
   \<and> page_from (search (setPage (p + 1) s)) = page_from (search (setPage p s)) + config_size s
   \<and> page_from (search (bq_setPage p s)) = page_from (search (setPage p s)) + 1
   \<and> (bq_inv s \<longrightarrow> bq_addClause v f (Some ''missing'') (Some ''must'') s = Inr (u, s1) \<longrightarrow>
        bq_removeClause u s1 = Inr s1)"
proof -
  have "bq_removeClause u s1 = Inr s1"
    if a: "bq_inv s" "bq_addClause v f (Some ''missing'') (Some ''must'') s = Inr (u, s1)"
    using bq_missing_stuck [OF a] .
  then show ?thesis by (simp add: setPage_def bq_setPage_def algebra_simps)
qed

lemma bq_init_inv: "\<exists>s. bq_init n = Inr s \<and> bq_inv s"
  by (auto simp: bq_init_def bq_addClause_def bq_setClause_def push_clause_def dflt_def empty_builder_def
      empty_search_def set_bool_def new_ref_def log_def positive_count_def Let_def bq_inv_def refs_inv_def
      ref_ok_def valid_bool_def clauses_def q_id_def ref_name_def intro: exI [of _ 0])

theorem bool_query_slips_witness:
  "\<exists>s u s1. bq_init 50 = Inr s \<and> bq_addClause Undef (Some ''user'') (Some ''missing'') (Some ''must'') s = Inr (u, s1)
     \<and> bq_removeClause u s1 = Inr s1"
proof -
  obtain s where s: "bq_init 50 = Inr s" "bq_inv s" using bq_init_inv by blast
  have "valid_bool (dflt (Some ''must'') ''should'')" by (simp add: dflt_def valid_bool_def)
  with s(2) obtain u s1 where "bq_addClause Undef (Some ''user'') (Some ''missing'') (Some ''must'') s = Inr (u, s1)"
    using bq.add_total by blast
  with s bool_query_slips [of s 1 Undef "Some ''user''" u s1] show ?thesis by blast
qed

section \<open>Parents\<close>

text \<open>
  \<open>loadParents\<close> asks for the parent documents of the hits, each once, and attaches them. Of a hit we
  keep its index, type, \<open>fields\<close> (\<open>None\<close>: undefined) and in them \<open>_parent\<close>. The metadata maps an index and
  a type to the parent type; an unknown index throws, an unknown type gives \<open>undefined\<close>.
\<close>

record hit =
  h_index :: string
  h_type :: string
  h_fields :: "string option option"
  h_parent :: "jsval option"

record mget_doc =
  d_index :: string
  d_type :: "string option"
  d_id :: string

record found_doc =
  g_index :: string
  g_type :: string
  g_id :: string
  g_doc :: jsval

type_synonym parents_meta = "string \<Rightarrow> (string \<Rightarrow> string option) option"

definition hit_parent :: "hit \<Rightarrow> string option" where
  "hit_parent h = (case h_fields h of None \<Rightarrow> None | Some p \<Rightarrow> p)"

fun parent_docs :: "parents_meta \<Rightarrow> hit list \<Rightarrow> (string \<times> string \<times> string) list \<Rightarrow> mget_doc list res" where
  "parent_docs m [] seen = Inr []"
| "parent_docs m (h # hs) seen =
     (case hit_parent h of
        None \<Rightarrow> parent_docs m hs seen
      | Some p \<Rightarrow>
          (case m (h_index h) of
             None \<Rightarrow> Inl TypeError
           | Some ps \<Rightarrow>
               if (h_index h, h_type h, p) \<in> set seen then parent_docs m hs seen
               else res_bind (parent_docs m hs ((h_index h, h_type h, p) # seen))
                      (\<lambda>ds. Inr (\<lparr> d_index = h_index h, d_type = ps (h_type h), d_id = p \<rparr> # ds))))"

text \<open>The nested map of the response: index, then type, then id; the last document wins.\<close>

definition parent_map :: "found_doc list \<Rightarrow> string \<Rightarrow> (string \<Rightarrow> (string \<Rightarrow> jsval option) option) option" where
  "parent_map docs i =
     (if \<exists>d\<in>set docs. g_index d = i
      then Some (\<lambda>ty. if \<exists>d\<in>set docs. g_index d = i \<and> g_type d = ty
                     then Some (\<lambda>x. map_of (rev (map (\<lambda>d. ((g_index d, g_type d, g_id d), g_doc d)) docs)) (i, ty, x))
                     else None)
      else None)"

definition type_key :: "string option \<Rightarrow> string" where
  "type_key ty = (case ty of None \<Rightarrow> ''undefined'' | Some x \<Rightarrow> x)"

definition attach_parent :: "parents_meta \<Rightarrow> found_doc list \<Rightarrow> hit \<Rightarrow> hit res" where
  "attach_parent m docs h =
     (case hit_parent h of
        None \<Rightarrow> Inr h
      | Some p \<Rightarrow>
          (case m (h_index h) of
             None \<Rightarrow> Inl TypeError
           | Some ps \<Rightarrow>
               (case parent_map docs (h_index h) of
                  None \<Rightarrow> Inl TypeError
                | Some tys \<Rightarrow>
                    (case tys (type_key (ps (h_type h))) of
                       None \<Rightarrow> Inl TypeError
                     | Some ids \<Rightarrow> Inr (h\<lparr> h_parent := ids p \<rparr>)))))"

fun attach_parents :: "parents_meta \<Rightarrow> found_doc list \<Rightarrow> hit list \<Rightarrow> hit list res" where
  "attach_parents m docs [] = Inr []"
| "attach_parents m docs (h # hs) =
     res_bind (attach_parent m docs h) (\<lambda>h'. res_bind (attach_parents m docs hs) (\<lambda>hs'. Inr (h' # hs')))"

definition loadParents_done :: "snapshot \<Rightarrow> parents_meta \<Rightarrow> hit list \<Rightarrow> found_doc list option \<Rightarrow> query \<Rightarrow> (query \<times> hit list option) res" where
  "loadParents_done state m hits results s =
     (case results of
        None \<Rightarrow> Inr (restoreState None (log Fail_and_undo s), None)
      | Some docs \<Rightarrow>
          res_bind (attach_parents m docs hits) (\<lambda>hits'.
            Inr (log (Results_with_parents Undef) (s\<lparr> history := history s @ [state] \<rparr>), Some hits')))"

text \<open>A document found for each document asked for.\<close>

definition answers :: "(mget_doc \<Rightarrow> jsval) \<Rightarrow> mget_doc list \<Rightarrow> found_doc list" where
  "answers f ds = map (\<lambda>d. \<lparr> g_index = d_index d, g_type = type_key (d_type d), g_id = d_id d, g_doc = f d \<rparr>) ds"

definition parent_known :: "parents_meta \<Rightarrow> hit \<Rightarrow> bool" where
  "parent_known m h = (case hit_parent h of
     None \<Rightarrow> True
   | Some _ \<Rightarrow> (case m (h_index h) of None \<Rightarrow> False | Some ps \<Rightarrow> ps (h_type h) \<noteq> None))"

definition parent_doc :: "parents_meta \<Rightarrow> hit \<Rightarrow> string \<Rightarrow> mget_doc" where
  "parent_doc m h p = \<lparr> d_index = h_index h, d_type = (case m (h_index h) of Some ps \<Rightarrow> ps (h_type h) | None \<Rightarrow> None), d_id = p \<rparr>"

lemma parent_docs_spec:
  "list_all (parent_known m) hs \<Longrightarrow>
   \<exists>ds. parent_docs m hs seen = Inr ds \<and> list_all (\<lambda>d. d_type d \<noteq> None) ds
     \<and> list_all (\<lambda>h. case hit_parent h of None \<Rightarrow> True
          | Some p \<Rightarrow> (h_index h, h_type h, p) \<in> set seen \<or> parent_doc m h p \<in> set ds) hs"
proof (induction hs arbitrary: seen)
  case (Cons h hs)
  show ?case
  proof (cases "hit_parent h")
    case None
    with Cons show ?thesis by auto
  next
    case (Some p)
    then obtain ps pt where m: "m (h_index h) = Some ps" "ps (h_type h) = Some pt"
      using Cons.prems by (auto simp: parent_known_def split: option.splits)
    show ?thesis
    proof (cases "(h_index h, h_type h, p) \<in> set seen")
      case True
      with Cons Some m show ?thesis by auto
    next
      case False
      let ?k = "(h_index h, h_type h, p)"
      obtain ds where ds: "parent_docs m hs (?k # seen) = Inr ds" "list_all (\<lambda>d. d_type d \<noteq> None) ds"
        "list_all (\<lambda>h. case hit_parent h of None \<Rightarrow> True
          | Some p \<Rightarrow> (h_index h, h_type h, p) \<in> set (?k # seen) \<or> parent_doc m h p \<in> set ds) hs"
        using Cons.IH [of "?k # seen"] Cons.prems by auto
      have "list_all (\<lambda>h. case hit_parent h of None \<Rightarrow> True
          | Some p \<Rightarrow> (h_index h, h_type h, p) \<in> set seen \<or> parent_doc m h p \<in> insert (parent_doc m h p) (set ds)) hs"
        by (simp add: list_all_iff split: option.split)
      have eq: "parent_doc m h' p = parent_doc m h p" if "h_index h' = h_index h" "h_type h' = h_type h" for h'
        using that by (cases "m (h_index h)") (simp_all add: parent_doc_def)
      have "list_all (\<lambda>h'. case hit_parent h' of None \<Rightarrow> True
          | Some q \<Rightarrow> (h_index h', h_type h', q) \<in> set seen \<or> parent_doc m h' q \<in> set (parent_doc m h p # ds)) hs"
        using ds(3) by (rule list.pred_mono_strong) (auto split: option.splits dest: eq)
      with ds False Some m show ?thesis
        by (intro exI [of _ "parent_doc m h p # ds"]) (simp add: parent_doc_def)
    qed
  qed
qed simp

lemma map_of_rev_keyed:
  "x \<in> set xs \<Longrightarrow> inj_on k (set xs) \<Longrightarrow> map_of (rev (map (\<lambda>x. (k x, f x)) xs)) (k x) = Some (f x)"
proof (induction xs rule: rev_induct)
  case (snoc y xs)
  then show ?case by (cases "x = y") (auto simp: inj_on_def)
qed simp

lemma parent_map_answers:
  assumes "d \<in> set ds" "list_all (\<lambda>d. d_type d \<noteq> None) ds"
  shows "\<exists>tys ids. parent_map (answers f ds) (d_index d) = Some tys \<and> tys (type_key (d_type d)) = Some ids
           \<and> ids (d_id d) = Some (f d)"
proof -
  let ?k = "\<lambda>d. (d_index d, type_key (d_type d), d_id d)"
  have "inj_on ?k (set ds)"
  proof (rule inj_onI)
    fix x y assume xy: "x \<in> set ds" "y \<in> set ds" "?k x = ?k y"
    with assms(2) have "d_type x \<noteq> None" "d_type y \<noteq> None" by (simp_all add: list_all_iff)
    then obtain a b where "d_type x = Some a" "d_type y = Some b" by blast
    with xy(3) show "x = y" by (simp add: type_key_def)
  qed
  from map_of_rev_keyed [OF assms(1) this, of f] assms(1) show ?thesis
    by (auto simp: parent_map_def answers_def o_def)
qed

text \<open>C40: When each document asked for is found, \<open>loadParents\<close> attaches to every hit with a parent the document
  of its own parent (its index, its parent type, its id), and throws for none.\<close>

theorem loadParents_attach:
  assumes "list_all (parent_known m) hits"
  shows "\<exists>ds. parent_docs m hits [] = Inr ds \<and>
    attach_parents m (answers f ds) hits =
      Inr (map (\<lambda>h. case hit_parent h of None \<Rightarrow> h | Some p \<Rightarrow> h\<lparr> h_parent := Some (f (parent_doc m h p)) \<rparr>) hits)"
proof -
  obtain ds where ds: "parent_docs m hits [] = Inr ds" "list_all (\<lambda>d. d_type d \<noteq> None) ds"
    "list_all (\<lambda>h. case hit_parent h of None \<Rightarrow> True
       | Some p \<Rightarrow> (h_index h, h_type h, p) \<in> set [] \<or> parent_doc m h p \<in> set ds) hits"
    using parent_docs_spec [OF assms, of "[]"] by blast
  let ?g = "\<lambda>h. case hit_parent h of None \<Rightarrow> h | Some p \<Rightarrow> h\<lparr> h_parent := Some (f (parent_doc m h p)) \<rparr>"
  have one: "attach_parent m (answers f ds) h = Inr (?g h)" if h: "h \<in> set hits" for h
  proof (cases "hit_parent h")
    case None
    then show ?thesis by (simp add: attach_parent_def)
  next
    case (Some p)
    then have "parent_doc m h p \<in> set ds" using ds(3) h by (auto simp: list_all_iff split: option.splits)
    from parent_map_answers [OF this ds(2), of f] Some assms h show ?thesis
      by (auto simp: attach_parent_def parent_known_def parent_doc_def list_all_iff split: option.splits)
  qed
  have "set hs \<subseteq> set hits \<Longrightarrow> attach_parents m (answers f ds) hs = Inr (map ?g hs)" for hs
    by (induction hs) (simp_all add: one)
  with ds(1) show ?thesis by blast
qed

theorem loadParents_attach_witness:
  "\<exists>ds. parent_docs (\<lambda>i. Some (\<lambda>t. Some ''blog'')) [\<lparr> h_index = ''i'', h_type = ''comment'', h_fields = Some (Some ''7''), h_parent = None \<rparr>] [] = Inr ds
     \<and> attach_parents (\<lambda>i. Some (\<lambda>t. Some ''blog'')) (answers (\<lambda>d. Str (d_id d)) ds)
         [\<lparr> h_index = ''i'', h_type = ''comment'', h_fields = Some (Some ''7''), h_parent = None \<rparr>]
       = Inr [\<lparr> h_index = ''i'', h_type = ''comment'', h_fields = Some (Some ''7''), h_parent = Some (Str ''7'') \<rparr>]"
  using loadParents_attach [of "\<lambda>i. Some (\<lambda>t. Some ''blog'')"
      "[\<lparr> h_index = ''i'', h_type = ''comment'', h_fields = Some (Some ''7''), h_parent = None \<rparr>]" "\<lambda>d. Str (d_id d)"]
  by (simp add: parent_known_def hit_parent_def parent_doc_def)

end
