(* ===== verification/MetaData.thy ===== *)
theory MetaData
  imports Boot
begin

text \<open>
  \<^verbatim>\<open>data/metaData.js\<close> and \<^verbatim>\<open>data/metaDataFactory.js\<close>: what the cluster state says
  of indices, types, aliases and fields.

  A field object is shared: the table of all fields, the fields of its type and those of its index hold
  the same object, and a field that exists already is used again for another index. Field objects
  therefore live in a heap, and the tables hold their numbers.
\<close>

section \<open>The cluster state\<close>

text \<open>The mapping of one field; a \<open>multi_field\<close> has mappings of its own in \<open>fields\<close>.\<close>

datatype mapping = Mapping
  (m_type: "string option") (m_index_name: "string option") (m_fields: "mapping dict option") (m_attrs: obj)

text \<open>An entry of \<open>properties\<close>: an object with properties of its own, or a field.\<close>

datatype prop_node =
    Props "(string \<times> prop_node) list"
  | Leaf mapping

record src_type =
  st_properties :: "(string \<times> prop_node) list"
  st_parent :: "string option"

record src_index =
  si_aliases :: "string list"
  si_mappings :: "src_type dict"

section \<open>The tables\<close>

datatype sub = Raw mapping | Fld nat

record field =
  field_name :: string
  core_type :: "string option"
  dpaths :: "string list"
  f_type :: "string option"
  f_index_name :: "string option"
  f_subs :: "sub dict option"
  f_attrs :: obj

record index_info =
  i_types :: "string list"
  i_fields :: "nat dict"
  i_parents :: "string dict"
  i_aliases :: "string list"

record type_info =
  t_indices :: "string list"
  t_fields :: "nat dict"

record meta =
  aliases :: "string list dict"
  m_indices :: "index_info dict"
  m_types :: "type_info dict"
  all_fields :: "nat dict"
  paths :: "nat dict"
  heap :: "field list"

definition coretype_map :: "string dict" where
  "coretype_map =
     [(''string'', ''string''), (''keyword'', ''string''), (''text'', ''string''), (''byte'', ''number''),
      (''short'', ''number''), (''long'', ''number''), (''integer'', ''number''), (''float'', ''number''),
      (''double'', ''number''), (''ip'', ''number''), (''date'', ''date''), (''boolean'', ''boolean''),
      (''binary'', ''binary''), (''multi_field'', ''multi_field'')]"

definition default_property_map :: "obj dict" where
  "default_property_map =
     [(''string'', [(''store'', Str ''no''), (''index'', Str ''analysed'')]),
      (''number'', [(''store'', Str ''no''), (''precision_steps'', Num 4)]),
      (''date'', [(''store'', Str ''no''), (''format'', Str ''dateOptionalTime''), (''index'', Str ''yes''), (''precision_steps'', Num 4)]),
      (''boolean'', [(''store'', Str ''no''), (''index'', Str ''yes'')]),
      (''binary'', []), (''multi_field'', [])]"

definition core_of :: "string option \<Rightarrow> string option" where
  "core_of ty = (case ty of None \<Rightarrow> None | Some x \<Rightarrow> map_of coretype_map x)"

definition default_props :: "string option \<Rightarrow> obj" where
  "default_props c = (case c of None \<Rightarrow> [] | Some x \<Rightarrow> (case map_of default_property_map x of None \<Rightarrow> [] | Some d \<Rightarrow> d))"

definition overlay :: "obj \<Rightarrow> obj \<Rightarrow> obj" where
  "overlay d m = fold (\<lambda>(k, v) o'. dput k v o') m d"

text \<open>
  \<open>$.extend({ field_name, core_type, dpaths: [] }, defaults, mapping)\<close>: a mapping that is a field object
  already brings its own name, core type and paths.
\<close>

definition new_field :: "string \<Rightarrow> sub \<Rightarrow> field list \<Rightarrow> field" where
  "new_field nm m h =
     (case m of
        Raw (Mapping ty ix fs ats) \<Rightarrow>
          \<lparr> field_name = nm, core_type = core_of ty, dpaths = [], f_type = ty, f_index_name = ix,
            f_subs = map_option (map (\<lambda>(k, x). (k, Raw x))) fs, f_attrs = overlay (default_props (core_of ty)) ats \<rparr>
      | Fld j \<Rightarrow> (h ! j)\<lparr> f_attrs := overlay (default_props (core_of (f_type (h ! j)))) (f_attrs (h ! j)) \<rparr>)"

definition index_name_of :: "sub \<Rightarrow> field list \<Rightarrow> string option" where
  "index_name_of m h = (case m of Raw x \<Rightarrow> m_index_name x | Fld j \<Rightarrow> f_index_name (h ! j))"

definition field_key :: "sub \<Rightarrow> field list \<Rightarrow> string list \<Rightarrow> string" where
  "field_key m h path = (case index_name_of m h of None \<Rightarrow> join ''.'' path | Some x \<Rightarrow> if x = [] then join ''.'' path else x)"

definition update_field :: "nat \<Rightarrow> (field \<Rightarrow> field) \<Rightarrow> meta \<Rightarrow> meta" where
  "update_field i f s = s\<lparr> heap := (heap s)[i := f (heap s ! i)] \<rparr>"

definition set_sub :: "string \<Rightarrow> nat \<Rightarrow> field \<Rightarrow> field" where
  "set_sub k j f = f\<lparr> f_subs := map_option (dput k (Fld j)) (f_subs f) \<rparr>"

text \<open>The field of a path: the one that has the name already, or a new one.\<close>

definition find_field :: "sub \<Rightarrow> string \<Rightarrow> string \<Rightarrow> string list \<Rightarrow> meta \<Rightarrow> nat \<times> meta" where
  "find_field m index type path s =
     (let nm = field_key m (heap s) path;
          dpath = join ''.'' ([index, type] @ path);
          (i, s1) = (case map_of (all_fields s) nm of
                       Some i \<Rightarrow> (i, s)
                     | None \<Rightarrow> (length (heap s), s\<lparr> heap := heap s @ [new_field nm m (heap s)] \<rparr>))
      in (i, s1\<lparr> paths := dput dpath i (paths s1) \<rparr>))"

text \<open>
  \<open>createField\<close> calls itself on the sub-fields. The depth of the call stack is the fuel: a
  sub-field whose \<open>index_name\<close> is the name of its own parent makes the recursion endless, and a
  stack overflow is a \<open>RangeError\<close>.
\<close>

function createField :: "nat \<Rightarrow> sub \<Rightarrow> string \<Rightarrow> string \<Rightarrow> string list \<Rightarrow> meta \<Rightarrow> (nat \<times> meta) res"
  and createSubs :: "nat \<Rightarrow> nat \<Rightarrow> string list \<Rightarrow> string \<Rightarrow> string \<Rightarrow> string list \<Rightarrow> meta \<Rightarrow> meta res" where
  "createField 0 m index type path s = Inl RangeError"
| "createField (Suc n) m index type path s =
     (case find_field m index type path s of (i, s1) \<Rightarrow>
        res_bind (case (f_type (heap s1 ! i), f_subs (heap s1 ! i)) of
                    (Some ty, Some subs) \<Rightarrow>
                      if ty = ''multi_field'' then createSubs n i (keys subs) index type path s1 else Inr s1
                  | _ \<Rightarrow> Inr s1)
          (\<lambda>s2. Inr (i, if has_key (all_fields s2) ''dpaths''
                        then update_field i (\<lambda>f. f\<lparr> dpaths := dpaths f @ [join ''.'' ([index, type] @ path)] \<rparr>) s2
                        else s2)))"
| "createSubs n i [] index type path s = Inr s"
| "createSubs n i (k # ks) index type path s =
     (case f_subs (heap s ! i) of
        None \<Rightarrow> Inr s
      | Some subs \<Rightarrow>
          (case map_of subs k of
             None \<Rightarrow> createSubs n i ks index type path s
           | Some m \<Rightarrow>
               res_bind (createField n m index type (path @ [k]) s)
                 (\<lambda>(j, s1). createSubs n i ks index type path (update_field i (set_sub k j) s1))))"
  by pat_completeness auto
termination
  by (relation "measures [\<lambda>x. case x of Inl (n, _) \<Rightarrow> n | Inr (n, _) \<Rightarrow> n,
                          \<lambda>x. case x of Inl _ \<Rightarrow> 0 | Inr (n, i, ks, _) \<Rightarrow> Suc (length ks)]") auto

text \<open>The listeners of a new field: all fields, the fields of the type, the fields of the index.\<close>

definition listen :: "nat \<Rightarrow> string \<Rightarrow> string \<Rightarrow> meta \<Rightarrow> meta" where
  "listen i type index s =
     (let nm = field_name (heap s ! i)
      in s\<lparr> all_fields := dput nm i (all_fields s),
            m_types := (case map_of (m_types s) type of None \<Rightarrow> m_types s
                        | Some t \<Rightarrow> dput type (t\<lparr> t_fields := dput nm i (t_fields t) \<rparr>) (m_types s)),
            m_indices := (case map_of (m_indices s) index of None \<Rightarrow> m_indices s
                          | Some x \<Rightarrow> dput index (x\<lparr> i_fields := dput nm i (i_fields x) \<rparr>) (m_indices s)) \<rparr>)"

function procPath :: "nat \<Rightarrow> string \<Rightarrow> string \<Rightarrow> (string \<times> prop_node) list \<Rightarrow> string list \<Rightarrow> meta \<Rightarrow> meta res" where
  "procPath n type index [] path s = Inr s"
| "procPath n type index ((k, Props ps) # rest) path s =
     res_bind (procPath n type index ps (path @ [k]) s) (procPath n type index rest path)"
| "procPath n type index ((k, Leaf m) # rest) path s =
     res_bind (createField n (Raw m) index type (path @ [k]) s)
       (\<lambda>(i, s1). procPath n type index rest path (listen i type index s1))"
  by pat_completeness auto
termination
  by (relation "measure (\<lambda>(n, type, index, ps, path, s). size_list (size_prod (\<lambda>_. 0) size) ps)") auto

definition add_alias :: "string \<Rightarrow> string \<Rightarrow> string list dict \<Rightarrow> string list dict" where
  "add_alias index al d = dput al ((case map_of d al of Some l \<Rightarrow> l | None \<Rightarrow> []) @ [index]) d"

definition touch_index :: "string \<Rightarrow> (index_info \<Rightarrow> index_info) \<Rightarrow> meta \<Rightarrow> meta" where
  "touch_index index f s =
     s\<lparr> m_indices := (case map_of (m_indices s) index of None \<Rightarrow> m_indices s | Some x \<Rightarrow> dput index (f x) (m_indices s)) \<rparr>"

definition open_type :: "string \<Rightarrow> string \<Rightarrow> meta \<Rightarrow> meta" where
  "open_type index type s =
     (let s1 = touch_index index (\<lambda>x. x\<lparr> i_types := i_types x @ [type] \<rparr>) s
      in s1\<lparr> m_types := (case map_of (m_types s1) type of
                           Some t \<Rightarrow> dput type (t\<lparr> t_indices := t_indices t @ [index] \<rparr>) (m_types s1)
                         | None \<Rightarrow> dput type \<lparr> t_indices = [index], t_fields = [] \<rparr> (m_types s1)) \<rparr>)"

definition add_type :: "nat \<Rightarrow> string \<Rightarrow> string \<times> src_type \<Rightarrow> meta \<Rightarrow> meta res" where
  "add_type n index e s =
     (case e of (type, st) \<Rightarrow>
        res_bind (procPath n type index (st_properties st) [] (open_type index type s)) (\<lambda>s1.
          Inr (case st_parent st of None \<Rightarrow> s1
               | Some p \<Rightarrow> touch_index index (\<lambda>x. x\<lparr> i_parents := dput type p (i_parents x) \<rparr>) s1)))"

fun add_types :: "nat \<Rightarrow> string \<Rightarrow> src_type dict \<Rightarrow> meta \<Rightarrow> meta res" where
  "add_types n index [] s = Inr s"
| "add_types n index (e # es) s = res_bind (add_type n index e s) (add_types n index es)"

definition add_index :: "nat \<Rightarrow> string \<times> src_index \<Rightarrow> meta \<Rightarrow> meta res" where
  "add_index n e s =
     (case e of (index, si) \<Rightarrow>
        add_types n index (si_mappings si)
          (s\<lparr> m_indices := dput index \<lparr> i_types = [], i_fields = [], i_parents = [], i_aliases = si_aliases si \<rparr> (m_indices s),
              aliases := fold (add_alias index) (si_aliases si) (aliases s) \<rparr>))"

fun add_indices :: "nat \<Rightarrow> src_index dict \<Rightarrow> meta \<Rightarrow> meta res" where
  "add_indices n [] s = Inr s"
| "add_indices n (e # es) s = res_bind (add_index n e s) (add_indices n es)"

definition refresh :: "nat \<Rightarrow> src_index dict \<Rightarrow> meta res" where
  "refresh n state = add_indices n state \<lparr> aliases = [], m_indices = [], m_types = [], all_fields = [], paths = [], heap = [] \<rparr>"

definition aliasesList :: "meta \<Rightarrow> string list" where "aliasesList s = keys (aliases s)"
definition indicesList :: "meta \<Rightarrow> string list" where "indicesList s = keys (m_indices s)"
definition typesList :: "meta \<Rightarrow> string list" where "typesList s = keys (m_types s)"
definition fieldsList :: "meta \<Rightarrow> string list" where "fieldsList s = keys (all_fields s)"

definition getIndices :: "string option \<Rightarrow> meta \<Rightarrow> string list option" where
  "getIndices alias s = (case alias of None \<Rightarrow> Some (indicesList s)
     | Some a \<Rightarrow> if a = [] then Some (indicesList s) else map_of (aliases s) a)"

text \<open>The inner loop of \<open>getTypes\<close>: whether the type is in all the indices.\<close>

fun in_all :: "meta \<Rightarrow> string \<Rightarrow> string list \<Rightarrow> bool res" where
  "in_all s type [] = Inr True"
| "in_all s type (i # is) =
     (case map_of (m_indices s) i of
        None \<Rightarrow> Inl TypeError
      | Some x \<Rightarrow> if contains (i_types x) type then in_all s type is else Inr False)"

fun types_in :: "meta \<Rightarrow> string list \<Rightarrow> string list \<Rightarrow> string list res" where
  "types_in s indices [] = Inr []"
| "types_in s indices (ty # tys) =
     res_bind (in_all s ty indices) (\<lambda>b. res_bind (types_in s indices tys) (\<lambda>r. Inr (if b then ty # r else r)))"

definition getTypes :: "string list option \<Rightarrow> meta \<Rightarrow> string list res" where
  "getTypes indices s = types_in s (case indices of None \<Rightarrow> [] | Some l \<Rightarrow> l) (typesList s)"

section \<open>The factory\<close>

text \<open>
  The factory asks for the cluster state; when that fails it asks for \<open>_all\<close> and builds a state from the
  answer, in which every index has one unassigned shard.
\<close>

record all_index =
  ai_mappings :: "src_type dict"
  ai_aliases :: obj
  ai_settings :: jsval

definition unassigned_shard :: "string \<Rightarrow> jsval" where
  "unassigned_shard k =
     Obj [(''shards'', Obj [(''1'', Arr [Obj [(''state'', Str ''UNASSIGNED''), (''primary'', Bool False), (''node'', Str ''unknown''),
       (''relocating_node'', Null), (''shard'', Str ''?''), (''index'', Str k)]])])]"

definition fallback_state :: "all_index dict \<Rightarrow> src_index dict \<times> obj" where
  "fallback_state data =
     (map (\<lambda>(k, e). (k, \<lparr> si_aliases = keys (ai_aliases e), si_mappings = ai_mappings e \<rparr>)) data,
      map (\<lambda>(k, e). (k, unassigned_shard k)) data)"

text \<open>The event \<open>ready\<close>, with the metadata and the state it was read from.\<close>

definition factory_init :: "nat \<Rightarrow> src_index dict option \<Rightarrow> all_index dict \<Rightarrow> (meta \<times> src_index dict) res" where
  "factory_init n cluster_state all_data =
     (let st = (case cluster_state of Some st \<Rightarrow> st | None \<Rightarrow> fst (fallback_state all_data))
      in res_bind (refresh n st) (\<lambda>m. Inr (m, st)))"

section \<open>Which tables a field touches\<close>

lemma find_field_keeps:
  "find_field m index type path s = (i, s1) \<Longrightarrow>
   m_types s1 = m_types s \<and> m_indices s1 = m_indices s \<and> aliases s1 = aliases s \<and> all_fields s1 = all_fields s"
  by (auto simp: find_field_def Let_def split: option.splits prod.splits)

lemma update_field_simps [simp]:
  "m_types (update_field i f s) = m_types s" "m_indices (update_field i f s) = m_indices s"
  "aliases (update_field i f s) = aliases s" "all_fields (update_field i f s) = all_fields s"
  "length (heap (update_field i f s)) = length (heap s)"
  by (simp_all add: update_field_def)

lemma createField_keeps:
  "createField n m index type path s = Inr (i, s') \<Longrightarrow>
     m_types s' = m_types s \<and> m_indices s' = m_indices s \<and> aliases s' = aliases s \<and> all_fields s' = all_fields s"
  "createSubs n j ks index type path s = Inr s' \<Longrightarrow>
     m_types s' = m_types s \<and> m_indices s' = m_indices s \<and> aliases s' = aliases s \<and> all_fields s' = all_fields s"
proof (induction n m index type path s and n j ks index type path s arbitrary: i s' and s' rule: createField_createSubs.induct)
  case (2 n m index type path s)
  obtain i' s1 where f: "find_field m index type path s = (i', s1)" by fastforce
  from 2(2) obtain s2 where r: "(case (f_type (heap s1 ! i'), f_subs (heap s1 ! i')) of
        (Some ty, Some subs) \<Rightarrow> if ty = ''multi_field'' then createSubs n i' (keys subs) index type path s1 else Inr s1
      | _ \<Rightarrow> Inr s1) = Inr s2"
    and s2: "m_types s' = m_types s2 \<and> m_indices s' = m_indices s2 \<and> aliases s' = aliases s2 \<and> all_fields s' = all_fields s2"
    by (auto simp: f simp del: split_paired_Ex)
  from r have "s1 = s2 \<or> (\<exists>subs. f_type (heap s1 ! i') = Some ''multi_field'' \<and> f_subs (heap s1 ! i') = Some subs
        \<and> createSubs n i' (keys subs) index type path s1 = Inr s2)"
    by (auto split: option.splits if_splits)
  then have "m_types s2 = m_types s1 \<and> m_indices s2 = m_indices s1 \<and> aliases s2 = aliases s1 \<and> all_fields s2 = all_fields s1"
    using 2(1) [OF f [symmetric] refl] by auto
  with s2 find_field_keeps [OF f] show ?case by simp
next
  case (4 n i k ks index type path s)
  then show ?case by (fastforce split: option.splits)
qed simp_all

text \<open>The indices of each type and the types of each index, as the tables record them.\<close>

definition type_indices :: "meta \<Rightarrow> string \<Rightarrow> string list option" where
  "type_indices s ty = map_option t_indices (map_of (m_types s) ty)"

definition index_types :: "meta \<Rightarrow> string \<Rightarrow> string list option" where
  "index_types s ix = map_option i_types (map_of (m_indices s) ix)"

lemma listen_tables [simp]:
  "type_indices (listen i ty ix s) = type_indices s" "index_types (listen i ty ix s) = index_types s"
  "aliases (listen i ty ix s) = aliases s"
  by (auto simp: listen_def Let_def type_indices_def index_types_def fun_eq_iff split: option.split)

lemma procPath_tables:
  "procPath n ty ix ps path s = Inr s' \<Longrightarrow>
     type_indices s' = type_indices s \<and> index_types s' = index_types s \<and> aliases s' = aliases s"
proof (induction n ty ix ps path s arbitrary: s' rule: procPath.induct)
  case (3 n ty ix k m rest path s)
  then obtain i s1 where c: "createField n (Raw m) ix ty (path @ [k]) s = Inr (i, s1)"
    "procPath n ty ix rest path (listen i ty ix s1) = Inr s'" by auto
  from 3(1) [OF c(2)] createField_keeps(1) [OF c(1)] show ?case
    by (simp add: type_indices_def index_types_def fun_eq_iff)
qed auto

lemma add_type_tables:
  assumes "add_type n ix (ty, st) s = Inr s'" "map_of (m_indices s) ix = Some x"
  shows "type_indices s' = (type_indices s)(ty \<mapsto> (case type_indices s ty of None \<Rightarrow> [] | Some l \<Rightarrow> l) @ [ix])"
    "index_types s' = (index_types s)(ix \<mapsto> i_types x @ [ty])" "aliases s' = aliases s"
    "\<exists>x'. map_of (m_indices s') ix = Some x'"
proof -
  let ?p = "\<lambda>p x. x\<lparr> i_parents := dput ty p (i_parents x) \<rparr>"
  from assms(1) obtain s3 where p: "procPath n ty ix (st_properties st) [] (open_type ix ty s) = Inr s3"
    "s' = (case st_parent st of None \<Rightarrow> s3 | Some p \<Rightarrow> touch_index ix (?p p) s3)"
    by (auto simp: add_type_def)
  have "type_indices (touch_index ix (?p p) s3) = type_indices s3 \<and> index_types (touch_index ix (?p p) s3) = index_types s3
     \<and> aliases (touch_index ix (?p p) s3) = aliases s3" for p
    by (auto simp: touch_index_def type_indices_def index_types_def fun_eq_iff split: option.splits)
  then have "type_indices s' = type_indices s3" "index_types s' = index_types s3" "aliases s' = aliases s3"
    by (auto simp: p(2) split: option.split)
  moreover have "type_indices (open_type ix ty s) = (type_indices s)(ty \<mapsto> (case type_indices s ty of None \<Rightarrow> [] | Some l \<Rightarrow> l) @ [ix])"
    "index_types (open_type ix ty s) = (index_types s)(ix \<mapsto> i_types x @ [ty])" "aliases (open_type ix ty s) = aliases s"
    using assms(2)
    by (auto simp: open_type_def touch_index_def Let_def type_indices_def index_types_def fun_eq_iff split: option.splits)
  ultimately
  show "type_indices s' = (type_indices s)(ty \<mapsto> (case type_indices s ty of None \<Rightarrow> [] | Some l \<Rightarrow> l) @ [ix])"
    "index_types s' = (index_types s)(ix \<mapsto> i_types x @ [ty])" "aliases s' = aliases s"
    using procPath_tables [OF p(1)] by simp_all
  then have "index_types s' ix \<noteq> None" by simp
  then show "\<exists>x'. map_of (m_indices s') ix = Some x'" by (auto simp: index_types_def)
qed

definition listed :: "string list option \<Rightarrow> string list" where
  "listed x = (case x of None \<Rightarrow> [] | Some l \<Rightarrow> l)"

lemma add_types_tables:
  "add_types n ix es s = Inr s' \<Longrightarrow> distinct (keys es) \<Longrightarrow> map_of (m_indices s) ix = Some x \<Longrightarrow>
     (\<forall>ty. type_indices s' ty = (if ty \<in> set (keys es) then Some (listed (type_indices s ty) @ [ix]) else type_indices s ty))
     \<and> index_types s' = (index_types s)(ix \<mapsto> i_types x @ keys es) \<and> aliases s' = aliases s"
proof (induction es arbitrary: s x)
  case Nil
  then show ?case by (auto simp: keys_def index_types_def fun_eq_iff)
next
  case (Cons e es)
  obtain ty st where e: "e = (ty, st)" by (cases e)
  from Cons.prems(1) obtain s1 where s1: "add_type n ix (ty, st) s = Inr s1" "add_types n ix es s1 = Inr s'" by (auto simp: e)
  note t = add_type_tables [OF s1(1) Cons.prems(3)]
  from t(4) obtain x1 where x1: "map_of (m_indices s1) ix = Some x1" by blast
  have i: "i_types x1 = i_types x @ [ty]" using fun_cong [OF t(2), of ix] x1 by (simp add: index_types_def)
  from Cons.prems(2) have d: "distinct (keys es)" "ty \<notin> set (keys es)" by (simp_all add: e keys_def)
  from Cons.IH [OF s1(2) d(1) x1] t(1-3) d(2) i show ?case
    by (auto simp: e keys_def listed_def)
qed

definition types_of :: "src_index dict \<Rightarrow> string \<Rightarrow> string list option" where
  "types_of st ix = map_option (\<lambda>si. keys (si_mappings si)) (map_of st ix)"

definition aliased :: "string \<Rightarrow> src_index dict \<Rightarrow> string list" where
  "aliased a st = concat (map (\<lambda>(ix, si). map (\<lambda>_. ix) (filter (\<lambda>b. b = a) (si_aliases si))) st)"

definition having_type :: "string \<Rightarrow> src_index dict \<Rightarrow> string list" where
  "having_type ty st = map fst (filter (\<lambda>(ix, si). has_key (si_mappings si) ty) st)"

definition wf_state :: "src_index dict \<Rightarrow> bool" where
  "wf_state st \<longleftrightarrow> distinct (keys st) \<and> list_all (\<lambda>(ix, si). distinct (keys (si_mappings si))) st"

lemma add_alias_fold:
  "listed (map_of (fold (add_alias ix) as d) a) = listed (map_of d a) @ map (\<lambda>_. ix) (filter (\<lambda>b. b = a) as)"
  by (induction as arbitrary: d) (simp_all add: add_alias_def listed_def)

lemma has_key_keys: "has_key d k \<longleftrightarrow> k \<in> set (keys d)"
  by (auto simp: has_key_iff set_keys)

lemma add_indices_tables:
  "add_indices n st s = Inr s' \<Longrightarrow> wf_state st \<Longrightarrow>
     (\<forall>ty. listed (type_indices s' ty) = listed (type_indices s ty) @ having_type ty st)
     \<and> (\<forall>ix. index_types s' ix = (case types_of st ix of None \<Rightarrow> index_types s ix | Some l \<Rightarrow> Some l))
     \<and> (\<forall>a. listed (map_of (aliases s') a) = listed (map_of (aliases s) a) @ aliased a st)"
proof (induction st arbitrary: s)
  case Nil
  then show ?case by (simp add: having_type_def types_of_def aliased_def)
next
  case (Cons e st)
  obtain ix si where e: "e = (ix, si)" by (cases e)
  from Cons.prems(1) obtain s1 where s1: "add_index n (ix, si) s = Inr s1" "add_indices n st s1 = Inr s'" by (auto simp: e)
  let ?x = "\<lparr> i_types = [], i_fields = [], i_parents = [], i_aliases = si_aliases si \<rparr>"
  let ?s = "s\<lparr> m_indices := dput ix ?x (m_indices s), aliases := fold (add_alias ix) (si_aliases si) (aliases s) \<rparr>"
  from Cons.prems(2) have d: "distinct (keys (si_mappings si))" "wf_state st" "ix \<notin> set (keys st)"
    by (simp_all add: wf_state_def e keys_def)
  from s1(1) have "add_types n ix (si_mappings si) ?s = Inr s1" by (simp add: add_index_def)
  from add_types_tables [OF this d(1)]
  have t: "\<forall>ty. type_indices s1 ty = (if ty \<in> set (keys (si_mappings si)) then Some (listed (type_indices s ty) @ [ix]) else type_indices s ty)"
    "index_types s1 = (index_types s)(ix \<mapsto> keys (si_mappings si))" "aliases s1 = fold (add_alias ix) (si_aliases si) (aliases s)"
    by (simp_all add: type_indices_def index_types_def fun_eq_iff)
  have l: "listed (type_indices s1 ty) = listed (type_indices s ty) @ having_type ty [(ix, si)]" for ty
    using t(1) by (auto simp: listed_def having_type_def has_key_keys)
  have "map_of st ix = None" using d(3) by (simp add: set_keys domIff)
  then have ty: "(case types_of st i of None \<Rightarrow> index_types s1 i | Some l \<Rightarrow> Some l)
      = (case types_of (e # st) i of None \<Rightarrow> index_types s i | Some l \<Rightarrow> Some l)" for i
    by (cases "map_of st i") (auto simp: types_of_def e t(2))
  show ?case
    using Cons.IH [OF s1(2) d(2)] l ty
    by (simp add: t(3) add_alias_fold e having_type_def aliased_def)
qed

lemma refresh_tables:
  assumes "refresh n st = Inr s" "wf_state st"
  shows "listed (type_indices s ty) = having_type ty st" "index_types s ix = types_of st ix"
    "listed (map_of (aliases s) a) = aliased a st"
  using add_indices_tables [OF assms(1)[unfolded refresh_def] assms(2)]
  by (auto simp: listed_def type_indices_def index_types_def split: option.splits)

lemma in_all_total:
  "list_all (\<lambda>i. index_types s i \<noteq> None) ixs \<Longrightarrow>
   in_all s ty ixs = Inr (list_all (\<lambda>i. ty \<in> set (listed (index_types s i))) ixs)"
  by (induction ixs) (auto simp: index_types_def listed_def)

lemma types_in_total:
  "list_all (\<lambda>i. index_types s i \<noteq> None) ixs \<Longrightarrow>
   types_in s ixs tys = Inr (filter (\<lambda>ty. list_all (\<lambda>i. ty \<in> set (listed (index_types s i))) ixs) tys)"
  by (induction tys) (simp_all add: in_all_total)


definition sample_state :: "src_index dict" where
  "sample_state =
     [(''twitter'', \<lparr> si_aliases = [''all''], si_mappings =
         [(''tweet'', \<lparr> st_properties = [(''user'', Leaf (Mapping (Some ''string'') None None [])),
              (''name'', Props [(''first'', Leaf (Mapping (Some ''multi_field'') None (Some [(''raw'', Mapping (Some ''keyword'') None None [])]) []))])],
            st_parent = None \<rparr>)] \<rparr>),
      (''blog'', \<lparr> si_aliases = [''all''], si_mappings =
         [(''post'', \<lparr> st_properties = [(''user'', Leaf (Mapping (Some ''long'') None None []))], st_parent = Some ''user'' \<rparr>),
          (''tweet'', \<lparr> st_properties = [], st_parent = None \<rparr>)] \<rparr>)]"


section \<open>The paths of a field\<close>

text \<open>References into the heap are valid, and no field has a path.\<close>

definition sub_ok :: "nat \<Rightarrow> sub \<Rightarrow> bool" where
  "sub_ok n m = (case m of Raw _ \<Rightarrow> True | Fld j \<Rightarrow> j < n)"

definition field_ok :: "nat \<Rightarrow> field \<Rightarrow> bool" where
  "field_ok n f \<longleftrightarrow> dpaths f = [] \<and> (\<forall>subs k m. f_subs f = Some subs \<longrightarrow> map_of subs k = Some m \<longrightarrow> sub_ok n m)"

definition heap_ok :: "meta \<Rightarrow> bool" where
  "heap_ok s \<longleftrightarrow> (\<forall>k i. map_of (all_fields s) k = Some i \<longrightarrow> i < length (heap s))
     \<and> (\<forall>i < length (heap s). field_ok (length (heap s)) (heap s ! i))"

lemma sub_ok_mono: "sub_ok n m \<Longrightarrow> n \<le> n' \<Longrightarrow> sub_ok n' m"
  by (auto simp: sub_ok_def split: sub.splits)

lemma field_ok_mono: "field_ok n f \<Longrightarrow> n \<le> n' \<Longrightarrow> field_ok n' f"
  unfolding field_ok_def using sub_ok_mono by blast

lemma map_of_Raw: "map_of (map (\<lambda>(k, x). (k, Raw x)) xs) k = Some m \<Longrightarrow> \<exists>x. m = Raw x"
  by (induction xs) (auto split: if_splits)

lemma new_field_ok: "heap_ok s \<Longrightarrow> sub_ok (length (heap s)) m \<Longrightarrow> field_ok (length (heap s)) (new_field nm m (heap s))"
proof (cases m)
  case (Raw x)
  then show ?thesis
    by (cases x) (auto simp: new_field_def field_ok_def sub_ok_def dest!: map_of_Raw)
next
  case (Fld j)
  assume "heap_ok s" "sub_ok (length (heap s)) m"
  with Fld have "field_ok (length (heap s)) (heap s ! j)" by (simp add: heap_ok_def sub_ok_def)
  then show ?thesis by (simp add: Fld new_field_def field_ok_def)
qed

lemma find_field_ok:
  assumes "find_field m index type path s = (i, s1)" "heap_ok s" "sub_ok (length (heap s)) m"
  shows "heap_ok s1 \<and> i < length (heap s1) \<and> length (heap s) \<le> length (heap s1)"
proof (cases "map_of (all_fields s) (field_key m (heap s) path)")
  case (Some j)
  with assms show ?thesis by (auto simp: find_field_def heap_ok_def Let_def)
next
  case None
  have "field_ok (length (heap s)) (new_field (field_key m (heap s) path) m (heap s))"
    by (rule new_field_ok [OF assms(2,3)])
  then have "field_ok (Suc (length (heap s))) ((heap s @ [new_field (field_key m (heap s) path) m (heap s)]) ! j)"
    if "j < Suc (length (heap s))" for j
    using assms(2) that by (cases "j = length (heap s)") (auto simp: heap_ok_def nth_append intro: field_ok_mono [of "length (heap s)"])
  with None assms show ?thesis
    by (auto simp: find_field_def heap_ok_def Let_def) (metis less_SucI)
qed

lemma set_sub_ok: "field_ok n f \<Longrightarrow> j < n \<Longrightarrow> field_ok n (set_sub k j f)"
  by (auto simp: field_ok_def set_sub_def sub_ok_def split: if_splits)

lemma update_field_ok:
  assumes "heap_ok s" "i < length (heap s)" "field_ok (length (heap s)) (heap s ! i) \<Longrightarrow> field_ok (length (heap s)) (f (heap s ! i))"
  shows "heap_ok (update_field i f s)"
  using assms by (auto simp: heap_ok_def update_field_def nth_list_update)

lemma createField_ok:
  "createField n m index type path s = Inr (i, s') \<Longrightarrow> heap_ok s \<Longrightarrow> sub_ok (length (heap s)) m \<Longrightarrow>
     \<not> has_key (all_fields s) ''dpaths'' \<Longrightarrow>
     heap_ok s' \<and> i < length (heap s') \<and> length (heap s) \<le> length (heap s')"
  "createSubs n j ks index type path s = Inr s' \<Longrightarrow> heap_ok s \<Longrightarrow> j < length (heap s) \<Longrightarrow>
     \<not> has_key (all_fields s) ''dpaths'' \<Longrightarrow> heap_ok s' \<and> length (heap s) \<le> length (heap s')"
proof (induction n m index type path s and n j ks index type path s arbitrary: i s' and s' rule: createField_createSubs.induct)
  case (2 n m index type path s)
  obtain i' s1 where f: "find_field m index type path s = (i', s1)" by fastforce
  note ok = find_field_ok [OF f 2(3,4)] find_field_keeps [OF f]
  from 2(2) obtain s2 where r: "(case (f_type (heap s1 ! i'), f_subs (heap s1 ! i')) of
        (Some ty, Some subs) \<Rightarrow> if ty = ''multi_field'' then createSubs n i' (keys subs) index type path s1 else Inr s1
      | _ \<Rightarrow> Inr s1) = Inr s2"
    and s2: "i = i'" "s' = (if has_key (all_fields s2) ''dpaths''
         then update_field i (\<lambda>f. f\<lparr> dpaths := dpaths f @ [join ''.'' ([index, type] @ path)] \<rparr>) s2 else s2)"
    by (auto simp: f simp del: split_paired_Ex)
  from r have c: "s1 = s2 \<or> (\<exists>subs. f_type (heap s1 ! i') = Some ''multi_field'' \<and> f_subs (heap s1 ! i') = Some subs
        \<and> createSubs n i' (keys subs) index type path s1 = Inr s2)"
    by (auto split: option.splits if_splits)
  then have "heap_ok s2 \<and> length (heap s1) \<le> length (heap s2)"
    using 2(1) [OF f [symmetric] refl] ok 2(5) by auto
  moreover from c have "all_fields s2 = all_fields s"
    using createField_keeps(2) ok(2) by auto
  ultimately show ?case using s2 ok 2(5) by auto
next
  case (4 n j k ks index type path s)
  show ?case
  proof (cases "\<exists>subs m. f_subs (heap s ! j) = Some subs \<and> map_of subs k = Some m")
    case False
    with 4 show ?thesis by (auto split: option.splits)
  next
    case True
    then obtain subs m where m: "f_subs (heap s ! j) = Some subs" "map_of subs k = Some m" by blast
    with 4(4) obtain i s1 where c: "createField n m index type (path @ [k]) s = Inr (i, s1)"
      "createSubs n j ks index type path (update_field j (set_sub k i) s1) = Inr s'" by auto
    have "sub_ok (length (heap s)) m" using 4(5,6) m by (auto simp: heap_ok_def field_ok_def)
    with 4(2) [OF m c(1) 4(5) _ 4(7)] have s1: "heap_ok s1" "i < length (heap s1)" "length (heap s) \<le> length (heap s1)" by auto
    have "heap_ok (update_field j (set_sub k i) s1)"
      using s1 4(6) by (intro update_field_ok) (auto intro: set_sub_ok)
    with 4(3) [OF m c(2)] c(1) s1 4(6,7) createField_keeps(1) [OF c(1)] show ?thesis by auto
  qed
qed simp_all

lemma listen_keeps [simp]:
  "heap (listen i ty ix s) = heap s" "all_fields (listen i ty ix s) = dput (field_name (heap s ! i)) i (all_fields s)"
  by (simp_all add: listen_def Let_def)

text \<open>Names are only ever added to the table of all fields.\<close>

lemma procPath_names:
  "procPath n ty ix ps path s = Inr s' \<Longrightarrow> has_key (all_fields s) k \<Longrightarrow> has_key (all_fields s') k"
proof (induction n ty ix ps path s arbitrary: s' rule: procPath.induct)
  case (3 n ty ix k' m rest path s)
  then obtain i s1 where c: "createField n (Raw m) ix ty (path @ [k']) s = Inr (i, s1)"
    "procPath n ty ix rest path (listen i ty ix s1) = Inr s'" by auto
  from 3(1) [OF c(2)] 3(3) createField_keeps(1) [OF c(1)] show ?case by simp
qed auto

lemma procPath_ok:
  "procPath n ty ix ps path s = Inr s' \<Longrightarrow> \<not> has_key (all_fields s') ''dpaths'' \<Longrightarrow> heap_ok s \<Longrightarrow> heap_ok s'"
proof (induction n ty ix ps path s arbitrary: s' rule: procPath.induct)
  case (2 n ty ix k ps rest path s)
  then obtain s1 where c: "procPath n ty ix ps (path @ [k]) s = Inr s1" "procPath n ty ix rest path s1 = Inr s'" by auto
  have "\<not> has_key (all_fields s1) ''dpaths''" using procPath_names [OF c(2)] 2(4) by blast
  with 2(1) [OF c(1)] 2(2) [OF c(2)] 2(4,5) show ?case by simp
next
  case (3 n ty ix k m rest path s)
  then obtain i s1 where c: "createField n (Raw m) ix ty (path @ [k]) s = Inr (i, s1)"
    "procPath n ty ix rest path (listen i ty ix s1) = Inr s'" by auto
  have no: "\<not> has_key (all_fields (listen i ty ix s1)) ''dpaths''" using procPath_names [OF c(2)] 3(3) by blast
  then have "\<not> has_key (all_fields s) ''dpaths''" using createField_keeps(1) [OF c(1)] by simp
  with createField_ok(1) [OF c(1) 3(4)] have "heap_ok s1" "i < length (heap s1)" by (simp_all add: sub_ok_def)
  then have "heap_ok (listen i ty ix s1)" by (simp add: heap_ok_def)
  with 3(1) [OF c(2)] 3(3) show ?case by simp
qed simp

lemma touch_index_keeps [simp]:
  "heap (touch_index ix f s) = heap s" "all_fields (touch_index ix f s) = all_fields s"
  by (simp_all add: touch_index_def)

lemma heap_ok_cong: "heap s' = heap s \<Longrightarrow> all_fields s' = all_fields s \<Longrightarrow> heap_ok s' = heap_ok s"
  by (simp add: heap_ok_def)

lemma open_type_keeps [simp]:
  "heap (open_type ix ty s) = heap s" "all_fields (open_type ix ty s) = all_fields s"
  by (simp_all add: open_type_def Let_def)

lemma add_typeE:
  assumes "add_type n ix (ty, st) s = Inr s1"
  obtains s2 where "procPath n ty ix (st_properties st) [] (open_type ix ty s) = Inr s2"
    "heap s1 = heap s2" "all_fields s1 = all_fields s2"
  using assms by (auto simp: add_type_def split: option.splits)

lemma add_types_names:
  "add_types n ix es s = Inr s' \<Longrightarrow> has_key (all_fields s) k \<Longrightarrow> has_key (all_fields s') k"
proof (induction es arbitrary: s)
  case (Cons e es)
  obtain ty st where e: "e = (ty, st)" by (cases e)
  from Cons.prems obtain s1 where a: "add_type n ix (ty, st) s = Inr s1" "add_types n ix es s1 = Inr s'" by (auto simp: e)
  from a(1) obtain s2 where p: "procPath n ty ix (st_properties st) [] (open_type ix ty s) = Inr s2"
    "all_fields s1 = all_fields s2" by (rule add_typeE)
  with procPath_names [OF p(1)] Cons.prems(2) have "has_key (all_fields s1) k" by simp
  with Cons.IH [OF a(2)] show ?case .
qed simp

lemma add_types_ok:
  "add_types n ix es s = Inr s' \<Longrightarrow>
    (has_key (all_fields s) k \<longrightarrow> has_key (all_fields s') k) \<and>
    (\<not> has_key (all_fields s') ''dpaths'' \<longrightarrow> heap_ok s \<longrightarrow> heap_ok s')"
proof (induction es arbitrary: s)
  case (Cons e es)
  obtain ty st where e: "e = (ty, st)" by (cases e)
  from Cons.prems obtain s1 where a: "add_type n ix (ty, st) s = Inr s1" "add_types n ix es s1 = Inr s'" by (auto simp: e)
  from a(1) obtain s2 where p: "procPath n ty ix (st_properties st) [] (open_type ix ty s) = Inr s2"
    "heap s1 = heap s2" "all_fields s1 = all_fields s2"
    by (rule add_typeE)
  have "has_key (all_fields s) k \<longrightarrow> has_key (all_fields s1) k" for k
    using procPath_names [OF p(1)] p(3) by simp
  moreover have "\<not> has_key (all_fields s1) ''dpaths'' \<longrightarrow> heap_ok s \<longrightarrow> heap_ok s1"
    using procPath_ok [OF p(1)] heap_ok_cong [OF p(2,3)] heap_ok_cong [of "open_type ix ty s" s] p(3) by simp
  ultimately show ?case using Cons.IH [OF a(2)] add_types_names [OF a(2)] by blast
qed simp

lemma add_indices_names:
  "add_indices n st s = Inr s' \<Longrightarrow> has_key (all_fields s) k \<Longrightarrow> has_key (all_fields s') k"
proof (induction st arbitrary: s)
  case (Cons e st)
  then show ?case by (fastforce simp: add_index_def split: prod.splits dest: add_types_names)
qed simp

lemma add_indices_ok:
  "add_indices n st s = Inr s' \<Longrightarrow>
    (has_key (all_fields s) k \<longrightarrow> has_key (all_fields s') k) \<and>
    (\<not> has_key (all_fields s') ''dpaths'' \<longrightarrow> heap_ok s \<longrightarrow> heap_ok s')"
proof (induction st arbitrary: s)
  case (Cons e st)
  obtain ix si where e: "e = (ix, si)" by (cases e)
  from Cons.prems obtain s1 where a: "add_index n (ix, si) s = Inr s1" "add_indices n st s1 = Inr s'" by (auto simp: e)
  then have "add_types n ix (si_mappings si) (s\<lparr> m_indices := dput ix \<lparr> i_types = [], i_fields = [], i_parents = [], i_aliases = si_aliases si \<rparr> (m_indices s),
              aliases := fold (add_alias ix) (si_aliases si) (aliases s) \<rparr>) = Inr s1"
    by (simp add: add_index_def)
  from add_types_ok [OF this] Cons.IH [OF a(2)] add_indices_names [OF a(2)] show ?case by (auto simp: heap_ok_def)
qed simp

text \<open>No field records the paths it is mapped at, unless some field happens to be called \<open>dpaths\<close>: the code
  tests \<open>fields.dpaths\<close>, the table of all fields, where it means the field's own list.\<close>

theorem dpaths_never_recorded:
  assumes "refresh n st = Inr s" "\<not> has_key (all_fields s) ''dpaths''"
  shows "list_all (\<lambda>f. dpaths f = []) (heap s)"
  using add_indices_ok [OF assms(1) [unfolded refresh_def]] assms(2)
  by (auto simp: heap_ok_def field_ok_def list_all_length)

theorem dpaths_never_recorded_witness:
  "\<exists>s. refresh 10 sample_state = Inr s \<and> heap s \<noteq> [] \<and> list_all (\<lambda>f. dpaths f = []) (heap s)"
proof -
  have "case refresh 10 sample_state of Inr s \<Rightarrow> heap s \<noteq> [] \<and> \<not> has_key (all_fields s) ''dpaths'' | Inl _ \<Rightarrow> False"
    by code_simp
  then obtain s where s: "refresh 10 sample_state = Inr s" "heap s \<noteq> []" "\<not> has_key (all_fields s) ''dpaths''"
    by (auto split: sum.splits)
  from dpaths_never_recorded [OF s(1,3)] s(1,2) show ?thesis by blast
qed

end
