(* ===== verification/Dom.thy ===== *)
theory Dom
  imports Boot
begin

text \<open>
  The two renderers of element templates, \<^verbatim>\<open>vendor/joey/joey.js\<close> and
  \<^verbatim>\<open>vendor/nohtml/jquery-nohtml.js\<close>. A template is an object with a \<open>tag\<close>; the
  components build templates as values, and these functions say which nodes they become.
\<close>

datatype node =
    Text_node string
  | Element string obj "node list"
  | Widget_el nat

fun text_content :: "node \<Rightarrow> string" where
  "text_content (Text_node s) = s"
| "text_content (Element t ps cs) = concat (map text_content cs)"
| "text_content (Widget_el w) = []"

definition texts :: "node list \<Rightarrow> string" where
  "texts nl = concat (map text_content nl)"

lemma texts_simps [simp]: "texts [] = []" "texts (n # nl) = text_content n @ texts nl" "texts (a @ b) = texts a @ texts b"
  by (simp_all add: texts_def)

lemma text_content_Element [simp]: "text_content (Element t ps cs) = texts cs"
  by (simp add: texts_def)

declare text_content.simps(2) [simp del]

section \<open>joey\<close>

definition shortcuts :: "string \<Rightarrow> string" where
  "shortcuts attr = (if attr = ''text'' then ''textContent'' else if attr = ''cls'' then ''className'' else attr)"

text \<open>
  An object that no plugin takes has no node; under a parent, \<open>appendChild(undefined)\<close> throws. \<open>style\<close> and
  \<open>dataset\<close> are kept as attributes, an event handler under the name \<open>on...\<close>.
\<close>

function joey_node :: "jsval \<Rightarrow> node option res"
  and joey_children :: "jsval list \<Rightarrow> node list res"
  and joey_attrs :: "obj \<Rightarrow> obj \<times> node list \<Rightarrow> (obj \<times> node list) res" where
  "joey_node v =
     (case v of
        Undef \<Rightarrow> Inr None
      | Null \<Rightarrow> Inr None
      | Str s \<Rightarrow> Inr (Some (Text_node s))
      | Widget w \<Rightarrow> Inr (Some (Widget_el w))
      | Obj fs \<Rightarrow>
          if has_key fs ''tag''
          then res_bind (joey_attrs fs ([], [])) (\<lambda>(ps, cs). Inr (Some (Element (to_string (dget fs ''tag'')) ps cs)))
          else Inr None
      | Arr vs \<Rightarrow> Inr None
      | Fn f \<Rightarrow> Inr None
      | _ \<Rightarrow> Inl TypeError)"
| "joey_children [] = Inr []"
| "joey_children (v # vs) =
     res_bind (joey_node v) (\<lambda>n.
       case n of
         None \<Rightarrow> if v = Undef \<or> v = Null then joey_children vs else Inl TypeError
       | Some el \<Rightarrow> res_bind (joey_children vs) (\<lambda>els. Inr (el # els)))"
| "joey_attrs [] acc = Inr acc"
| "joey_attrs ((a, v) # fs) acc =
     (case acc of (ps, cs) \<Rightarrow>
        let attr = shortcuts a
        in if attr = ''children''
           then (case v of
                   Arr vs \<Rightarrow> res_bind (joey_children vs) (\<lambda>els. joey_attrs fs (ps, cs @ els))
                 | Undef \<Rightarrow> Inl TypeError
                 | Null \<Rightarrow> Inl TypeError
                 | _ \<Rightarrow> joey_attrs fs acc)
           else if v = Undef then joey_attrs fs acc
           else if attr = ''textContent'' then joey_attrs fs (ps, [Text_node (to_string v)])
           else joey_attrs fs (dput attr v ps, cs))"
  by pat_completeness auto
termination
  by (relation "measures [\<lambda>x. case x of Inl v \<Rightarrow> size v | Inr (Inl vs) \<Rightarrow> size_list size vs
                                | Inr (Inr (fs, _)) \<Rightarrow> size_list (size_prod (\<lambda>_. 0) size) fs,
                          \<lambda>x. case x of Inl v \<Rightarrow> 0 | _ \<Rightarrow> 1]") auto

section \<open>nohtml\<close>

definition is_handler :: "string \<Rightarrow> jsval \<Rightarrow> bool" where
  "is_handler attr v \<longleftrightarrow> index_of ''on'' attr = Some 0 \<and> (case v of Fn _ \<Rightarrow> True | _ \<Rightarrow> False)"

function create_nodes :: "jsval \<Rightarrow> node list"
  and create_list :: "jsval list \<Rightarrow> node list"
  and create_attrs :: "obj \<Rightarrow> obj \<times> node list \<Rightarrow> obj \<times> node list" where
  "create_nodes v =
     (case v of
        Arr vs \<Rightarrow> create_list vs
      | Str s \<Rightarrow> [Text_node s]
      | Widget w \<Rightarrow> [Widget_el w]
      | Obj fs \<Rightarrow>
          (case create_attrs fs ([], []) of (ps, cs) \<Rightarrow>
             [Element (let t = dget fs ''tag'' in if truthy t then to_string t else ''DIV'') ps cs])
      | _ \<Rightarrow> if truthy v then [Element ''DIV'' [] []] else [])"
| "create_list [] = []"
| "create_list (v # vs) = create_nodes v @ create_list vs"
| "create_attrs [] acc = acc"
| "create_attrs ((a, v) # fs) acc =
     (case acc of (ps, cs) \<Rightarrow>
        if a = ''tag'' then create_attrs fs acc
        else if a \<in> {''text'', ''child'', ''children''} then create_attrs fs (ps, cs @ create_nodes v)
        else if a = ''cls'' then create_attrs fs (dput ''className'' v ps, cs)
        else if a = ''html'' then create_attrs fs (dput ''innerHTML'' v ps, [])
        else create_attrs fs (dput a v ps, cs))"
  by pat_completeness auto
termination
  by (relation "measures [\<lambda>x. case x of Inl v \<Rightarrow> size v | Inr (Inl vs) \<Rightarrow> size_list size vs
                                | Inr (Inr (fs, _)) \<Rightarrow> size_list (size_prod (\<lambda>_. 0) size) fs,
                          \<lambda>x. case x of Inl v \<Rightarrow> 0 | _ \<Rightarrow> 1]") auto

declare joey_node.simps [simp del] create_nodes.simps [simp del]

lemma create_nodes_simps [simp]:
  "create_nodes (Arr vs) = create_list vs" "create_nodes (Str s) = [Text_node s]" "create_nodes (Widget w) = [Widget_el w]"
  "create_nodes Null = []" "create_nodes Undef = []"
  "create_nodes (Obj fs) = (case create_attrs fs ([], []) of (ps, cs) \<Rightarrow>
     [Element (let t = dget fs ''tag'' in if truthy t then to_string t else ''DIV'') ps cs])"
  by (simp_all add: create_nodes.simps)

lemma create_list_append [simp]: "create_list (a @ b) = create_list a @ create_list b"
  by (induction a) auto

text \<open>A template of the usual shape renders to one element whose text is that of its children.\<close>

lemma texts_template [simp]:
  "texts (create_nodes (Obj [(''tag'', t), (''cls'', c), (''children'', Arr cs)])) = texts (create_list cs)"
  "texts (create_nodes (Obj [(''tag'', t), (''children'', Arr cs)])) = texts (create_list cs)"
  "texts (create_nodes (Obj [(''tag'', t), (''cls'', c), (''text'', v)])) = texts (create_nodes v)"
  by simp_all

end
