(* ===== verification/Results.thy ===== *)
theory Results
  imports Dom Templates Query
begin

text \<open>
  The results of a search: \<^verbatim>\<open>data/dataSourceInterface.js\<close> and its two implementations, the
  table that shows a data source (\<^verbatim>\<open>ui/table/table.js\<close>, \<^verbatim>\<open>ui/resultTable/resultTable.js\<close>),
  and the two other views of a response, \<^verbatim>\<open>ui/csvTable/csvTable.js\<close> and
  \<^verbatim>\<open>ui/jsonPretty/jsonPretty.js\<close>.

  \<open>tr\<close> stands for \<open>i18n.text\<close>: the message of a key with its arguments.
\<close>

type_synonym i18n = "string \<Rightarrow> string list \<Rightarrow> string"

section \<open>Data sources\<close>

record response =
  r_successful :: int
  r_total :: int
  r_hits_total :: int
  r_took :: nat
  r_hits :: "jsval list"

text \<open>The column a table is sorted by, with its direction; \<open>None\<close> is the empty object.\<close>

record data_source =
  ds_summary :: string
  ds_total :: int
  ds_columns :: "string list"
  ds_data :: "obj list"
  ds_sort :: "(string \<times> string) option"

definition getSummary :: "i18n \<Rightarrow> response \<Rightarrow> string" where
  "getSummary tr res =
     tr ''TableResults.Summary''
       [show_int (r_successful res), show_int (r_total res), show_int (r_hits_total res), toFixed 3 (of_nat (r_took res) / 1000)]"

text \<open>What \<open>for ... in\<close> enumerates: also the characters of a string.\<close>

definition props_of :: "jsval \<Rightarrow> (string \<times> jsval) list" where
  "props_of v =
     (case v of
        Obj fs \<Rightarrow> fs
      | Arr vs \<Rightarrow> map (\<lambda>(i, x). (show_nat i, x)) (enumerate 0 vs)
      | Str s \<Rightarrow> map (\<lambda>(i, c). (show_nat i, Str [c])) (enumerate 0 s)
      | _ \<Rightarrow> [])"

lemma size_enumerated [simp]: "size_list (\<lambda>(i, x). size x) (enumerate n vs) = size_list size vs"
  by (induction vs arbitrary: n) simp_all

lemma named_snd [simp]: "(\<lambda>(p, y). f y) \<circ> (\<lambda>(i, y). (show_nat i, y)) = (\<lambda>(i, y). f y)"
  by auto

lemma size_pairs: "size_list (\<lambda>(p, v). size v) fs \<le> size_list (size_prod (\<lambda>_. 0) size) (fs :: obj)"
  by (induction fs) auto

text \<open>
  The paths that the rows walk down: objects are descended into, of an array only the first element,
  whatever it is; everything else is a leaf.
\<close>

function leaves :: "string list \<Rightarrow> jsval \<Rightarrow> (string \<times> jsval) list"
  and leaves_in :: "string list \<Rightarrow> (string \<times> jsval) list \<Rightarrow> (string \<times> jsval) list" where
  "leaves path spec =
     (case spec of
        Obj fs \<Rightarrow> leaves_in path fs
      | Arr vs \<Rightarrow> leaves_in path (props_of (Arr vs))
      | _ \<Rightarrow> map (\<lambda>(p, v). (join ''.'' (path @ [p]), v)) (props_of spec))"
| "leaves_in path [] = []"
| "leaves_in path ((p, v) # rest) =
     (case v of
        Obj fs \<Rightarrow> leaves (path @ [p]) v
      | Widget w \<Rightarrow> []
      | Arr [] \<Rightarrow> []
      | Arr (x # xs) \<Rightarrow> leaves (path @ [p]) x
      | _ \<Rightarrow> [(join ''.'' (path @ [p]), v)]) @ leaves_in path rest"
  by pat_completeness auto

termination
proof (relation "measures [\<lambda>x. case x of Inl (_, v) \<Rightarrow> size v | Inr (_, fs) \<Rightarrow> size_list (\<lambda>(p, v). size v) fs,
                          \<lambda>x. case x of Inl _ \<Rightarrow> 0 | Inr _ \<Rightarrow> 1]", goal_cases)
  case (3 path spec fs)
  then show ?case using size_pairs [of fs] by simp
next
  case (2 path spec vs)
  then show ?case by (simp add: props_of_def)
qed auto

definition push_new :: "string \<Rightarrow> string list \<Rightarrow> string list" where
  "push_new c cs = (if contains cs c then cs else cs @ [c])"

text \<open>One row of \<open>ResultDataSourceInterface\<close>: \<open>(spec[prop] || "null").toString()\<close>.\<close>

definition result_leaf :: "string \<times> jsval \<Rightarrow> string list \<times> obj \<Rightarrow> string list \<times> obj" where
  "result_leaf l acc =
     (case (l, acc) of ((dpath, v), (columns, row)) \<Rightarrow>
        (push_new dpath columns, dput dpath (Str (to_string (js_or v (Str ''null'')))) row))"

definition result_row :: "jsval \<Rightarrow> string list \<Rightarrow> string list \<times> obj" where
  "result_row hit columns =
     (case fold result_leaf (leaves [to_string (dget (case hit of Obj fs \<Rightarrow> fs | _ \<Rightarrow> []) ''_type'')] hit) (columns, []) of
        (columns', row) \<Rightarrow> (columns', dput ''_source'' hit row))"

fun rows_with :: "(jsval \<Rightarrow> string list \<Rightarrow> string list \<times> obj) \<Rightarrow> jsval list \<Rightarrow> string list \<Rightarrow> string list \<times> obj list" where
  "rows_with f [] columns = (columns, [])"
| "rows_with f (hit # hits) columns =
     (case f hit columns of (columns1, row) \<Rightarrow>
        case rows_with f hits columns1 of (columns2, rows) \<Rightarrow> (columns2, row # rows))"

definition result_source :: "i18n \<Rightarrow> response \<Rightarrow> data_source" where
  "result_source tr res =
     (case rows_with result_row (r_hits res) [] of (columns, rows) \<Rightarrow>
        \<lparr> ds_summary = getSummary tr res, ds_total = r_hits_total res, ds_columns = columns, ds_data = rows, ds_sort = None \<rparr>)"

text \<open>
  \<open>QueryDataSourceInterface\<close> shows the paths of the metadata under their field names, after four columns of
  its own. A parent document adds columns with its type as prefix.
\<close>

definition query_leaf :: "(string \<Rightarrow> string option) \<Rightarrow> (string \<Rightarrow> string) \<Rightarrow> string \<times> jsval \<Rightarrow> string list \<times> obj \<Rightarrow> string list \<times> obj" where
  "query_leaf paths name l acc =
     (case (l, acc) of ((dpath, v), (columns, row)) \<Rightarrow>
        (case paths dpath of
           None \<Rightarrow> acc
         | Some field \<Rightarrow> (push_new (name field) columns, dput (name field) (Str (to_string v)) row)))"

definition metaColumns :: "string list" where
  "metaColumns = [''_index'', ''_type'', ''_id'', ''_score'']"

definition hit_field :: "jsval \<Rightarrow> string \<Rightarrow> jsval" where
  "hit_field hit k = (case hit of Obj fs \<Rightarrow> dget fs k | _ \<Rightarrow> Undef)"

definition query_row :: "(string \<Rightarrow> string option) \<Rightarrow> jsval \<Rightarrow> string list \<Rightarrow> string list \<times> obj" where
  "query_row paths hit columns =
     (let path = [to_string (hit_field hit ''_index''), to_string (hit_field hit ''_type'')];
          (columns1, row1) = fold (query_leaf paths (\<lambda>f. f)) (leaves path (hit_field hit ''_source'')) (columns, []);
          row2 = fold (\<lambda>n r. dput n (hit_field hit n) r) metaColumns row1;
          row3 = dput ''_source'' hit row2;
          parent = hit_field hit ''_parent''
      in if parent = Undef then (columns1, row3)
         else fold (query_leaf paths (\<lambda>f. to_string (hit_field parent ''_type'') @ ''.'' @ f))
                (leaves [to_string (hit_field parent ''_index''), to_string (hit_field parent ''_type'')] (hit_field parent ''_source''))
                (columns1, row3))"

definition query_source :: "i18n \<Rightarrow> (string \<Rightarrow> string option) \<Rightarrow> search \<Rightarrow> response \<Rightarrow> data_source" where
  "query_source tr paths q res =
     (case rows_with (query_row paths) (r_hits res) metaColumns of (columns, rows) \<Rightarrow>
        \<lparr> ds_summary = getSummary tr res, ds_total = r_hits_total res, ds_columns = columns, ds_data = rows,
          ds_sort = Some (case sort_list q of [] \<Rightarrow> (''_score'', ''asc'') | s # _ \<Rightarrow> s) \<rparr>)"

section \<open>The table\<close>

text \<open>The characters U+25B2 and U+25BC, named by their code points.\<close>

definition arrow_up :: string where "arrow_up = ''u25b2''"
definition arrow_down :: string where "arrow_down = ''u25bc''"

definition tag_obj :: "string \<Rightarrow> obj \<Rightarrow> jsval" where
  "tag_obj t rest = Obj ((''tag'', Str t) # rest)"

definition sort_dir :: "(string \<times> string) option \<Rightarrow> string \<Rightarrow> string" where
  "sort_dir srt column =
     (case srt of None \<Rightarrow> ''none'' | Some (c, d) \<Rightarrow> if c = column \<and> d \<noteq> [] then d else ''none'')"

definition header_cell :: "(string \<times> string) option \<Rightarrow> string \<Rightarrow> jsval" where
  "header_cell srt column =
     (let dir = sort_dir srt column
      in tag_obj ''TH'' [(''data'', Obj [(''column'', Str column), (''dir'', Str dir)]),
           (''cls'', Str (''uiTable-header-cell'' @ (if dir \<noteq> ''none'' then '' uiTable-sort'' else []))),
           (''children'', Arr [tag_obj ''DIV'' [(''children'', Arr [
              tag_obj ''DIV'' [(''cls'', Str ''uiTable-headercell-menu''), (''text'', Str (if dir = ''asc'' then arrow_up else arrow_down))],
              tag_obj ''DIV'' [(''cls'', Str ''uiTable-headercell-text''), (''text'', Str column)]])]])])"

definition headerEndCap :: jsval where
  "headerEndCap = tag_obj ''TH'' [(''cls'', Str ''uiTable-headerEndCap''), (''children'', Arr [tag_obj ''DIV'' []])]"

definition headerRow_template :: "(string \<times> string) option \<Rightarrow> jsval list \<Rightarrow> string list \<Rightarrow> jsval" where
  "headerRow_template srt caps columns =
     tag_obj ''TR'' [(''cls'', Str ''uiTable-header-row''), (''children'', Arr (map (header_cell srt) columns @ caps))]"

definition header_template :: "(string \<times> string) option \<Rightarrow> string list \<Rightarrow> jsval" where
  "header_template srt columns = tag_obj ''TABLE'' [(''children'', Arr [headerRow_template srt [headerEndCap] columns])]"

definition cell_text :: "obj \<Rightarrow> string \<Rightarrow> string" where
  "cell_text row column = to_string (js_or (dget row column) (Str []))"

definition body_row :: "string list \<Rightarrow> obj \<Rightarrow> jsval" where
  "body_row columns row =
     tag_obj ''TR'' [(''data'', Obj [(''row'', Obj row)]), (''cls'', Str ''uiTable-row''), (''children'', Arr (map (\<lambda>column.
       tag_obj ''TD'' [(''cls'', Str ''uiTable-cell''),
         (''children'', Arr [tag_obj ''DIV'' [(''text'', Str (cell_text row column))]])]) columns))]"

definition body_template :: "(string \<times> string) option \<Rightarrow> obj list \<Rightarrow> string list \<Rightarrow> jsval" where
  "body_template srt data columns =
     tag_obj ''TABLE'' [(''children'', Arr (headerRow_template srt [] columns # map (body_row columns) data))]"

definition table_main_template :: "jsval \<Rightarrow> int \<Rightarrow> int \<Rightarrow> jsval" where
  "table_main_template wid width height =
     tag_obj ''DIV'' [(''id'', wid), (''css'', Obj [(''width'', Str (show_int width @ ''px''))]), (''cls'', Str ''uiTable''), (''children'', Arr [
       tag_obj ''DIV'' [(''cls'', Str ''uiTable-tools'')],
       tag_obj ''DIV'' [(''cls'', Str ''uiTable-headers''), (''onclick'', Fn ''_headerClick_handler'')],
       tag_obj ''DIV'' [(''cls'', Str ''uiTable-body''), (''onclick'', Fn ''_dataClick_handler''), (''onscroll'', Fn ''_scroll_handler''),
         (''css'', Obj [(''height'', Str (show_int height @ ''px'')), (''width'', Str (show_int width @ ''px''))])]])]"

text \<open>What \<open>_data_handler\<close> puts into the three parts of the table.\<close>

definition table_data_handler :: "data_source \<Rightarrow> string \<times> node list \<times> node list" where
  "table_data_handler store =
     (ds_summary store, create_nodes (header_template (ds_sort store) (ds_columns store)),
      create_nodes (body_template (ds_sort store) (ds_data store) (ds_columns store)))"

text \<open>The column and direction of a clicked header cell.\<close>

definition headerClick_event :: "(string \<times> string) option \<Rightarrow> string \<Rightarrow> string \<times> string" where
  "headerClick_event srt column = (column, sort_dir srt column)"

section \<open>The keyboard in the result table\<close>

text \<open>
  The rows of the body are numbered from 0, the header row that \<open>body_template\<close> puts there; \<open>Some None\<close> is the
  empty jQuery set that \<open>next\<close> and \<open>prev\<close> give at the ends. \<open>showPreview\<close> throws on a row without data, after
  \<open>selectedRow\<close> has been set.
\<close>

record nav =
  selected :: "nat option option"
  preview :: "nat option"

definition showPreview :: "nat \<Rightarrow> nav \<Rightarrow> jserr option \<times> nav" where
  "showPreview n st =
     (case selected st of
        Some (Some i) \<Rightarrow> if 1 \<le> i \<and> i \<le> n then (None, st\<lparr> preview := Some i \<rparr>) else (Some TypeError, st)
      | Some None \<Rightarrow> (Some TypeError, st)
      | None \<Rightarrow> (None, st))"

definition next_row :: "nat \<Rightarrow> nat option \<Rightarrow> nat option" where
  "next_row n r = (case r of Some i \<Rightarrow> if i < n then Some (Suc i) else None | None \<Rightarrow> None)"

definition prev_row :: "nat option \<Rightarrow> nat option" where
  "prev_row r = (case r of Some i \<Rightarrow> if i > 0 then Some (i - 1) else None | None \<Rightarrow> None)"

definition nav_handler :: "nat \<Rightarrow> int \<Rightarrow> nav \<Rightarrow> jserr option \<times> nav" where
  "nav_handler n keyCode st =
     (if keyCode \<noteq> 40 \<and> keyCode \<noteq> 38 then (None, st)
      else let st1 = (if selected st \<noteq> None then st\<lparr> preview := None \<rparr> else st)
           in showPreview n (st1\<lparr> selected := Some (if keyCode = 40
                then (case selected st of Some r \<Rightarrow> next_row n r | None \<Rightarrow> Some 0)
                else (case selected st of Some r \<Rightarrow> prev_row r | None \<Rightarrow> Some n)) \<rparr>))"

definition showPreview_handler :: "nat \<Rightarrow> nat \<Rightarrow> nav \<Rightarrow> jserr option \<times> nav" where
  "showPreview_handler n i st = showPreview n (st\<lparr> selected := Some (Some i) \<rparr>)"

section \<open>Comma separated values\<close>

definition CELL_SEPARATOR :: string where "CELL_SEPARATOR = '',''"
definition CELL_QUOTE :: string where "CELL_QUOTE = [CHR 0x22]"
definition LINE_SEPARATOR :: string where "LINE_SEPARATOR = [CHR 0x0D, CHR 0x0A]"

text \<open>The paths of the leaves, each once, in order of appearance.\<close>

function csv_parse :: "string \<Rightarrow> jsval \<Rightarrow> bool dict \<Rightarrow> bool dict"
  and csv_parse_list :: "string \<Rightarrow> jsval list \<Rightarrow> bool dict \<Rightarrow> bool dict"
  and csv_parse_props :: "string \<Rightarrow> obj \<Rightarrow> bool dict \<Rightarrow> bool dict" where
  "csv_parse path v d =
     (case v of
        Arr vs \<Rightarrow> csv_parse_list path vs d
      | Obj fs \<Rightarrow> csv_parse_props path fs d
      | Null \<Rightarrow> d
      | Widget w \<Rightarrow> d
      | _ \<Rightarrow> dput path True d)"
| "csv_parse_list path [] d = d"
| "csv_parse_list path (v # vs) d = csv_parse_list path vs (csv_parse path v d)"
| "csv_parse_props path [] d = d"
| "csv_parse_props path ((p, v) # fs) d = csv_parse_props path fs (csv_parse (path @ ''.'' @ p) v d)"
  by pat_completeness auto
termination
  by (relation "measures [\<lambda>x. case x of Inl (_, v, _) \<Rightarrow> size v | Inr (Inl (_, vs, _)) \<Rightarrow> size_list size vs
                                | Inr (Inr (_, fs, _)) \<Rightarrow> size_list (size_prod (\<lambda>_. 0) size) fs,
                          \<lambda>x. case x of Inl _ \<Rightarrow> 0 | _ \<Rightarrow> 1]") auto

definition parseResults :: "jsval list \<Rightarrow> string list list" where
  "parseResults results = map (\<lambda>column. drop 1 (split_on CHR ''.'' column)) (keys (csv_parse ''root'' (Arr results) []))"

definition csv_header :: "string list list \<Rightarrow> string" where
  "csv_header columns = join CELL_SEPARATOR (map (join ''.'') columns)"

definition js_property :: "jsval \<Rightarrow> string \<Rightarrow> jsval" where
  "js_property v k = (case map_of (props_of v) k of Some x \<Rightarrow> x | None \<Rightarrow>
     (if k = ''length'' then (case v of Arr vs \<Rightarrow> Num (int (length vs)) | Str s \<Rightarrow> Num (int (length s)) | _ \<Rightarrow> Undef) else Undef))"

fun csv_lookup :: "string list \<Rightarrow> jsval \<Rightarrow> jsval" where
  "csv_lookup [] ptr = ptr"
| "csv_lookup (c # cs) ptr = (if ptr = Null \<or> ptr = Undef then ptr else csv_lookup cs (js_property ptr c))"

definition double_quotes :: "string \<Rightarrow> string" where
  "double_quotes s = concat (map (\<lambda>c. if [c] = CELL_QUOTE then CELL_QUOTE @ CELL_QUOTE else [c]) s)"

definition csv_cell :: "jsval \<Rightarrow> string" where
  "csv_cell ptr = (if ptr = Null \<or> ptr = Undef then [] else CELL_QUOTE @ double_quotes (to_string ptr) @ CELL_QUOTE)"

definition csv_row :: "string list list \<Rightarrow> jsval \<Rightarrow> string" where
  "csv_row columns result = join CELL_SEPARATOR (map (\<lambda>column. csv_cell (csv_lookup column result)) columns)"

definition csv_results :: "string list list \<Rightarrow> jsval list \<Rightarrow> string" where
  "csv_results columns results = join LINE_SEPARATOR (map (csv_row columns) results)"

definition csv_template :: "string list list \<Rightarrow> jsval list \<Rightarrow> string" where
  "csv_template columns results = csv_header columns @ LINE_SEPARATOR @ csv_results columns results"

definition csv_text :: "jsval list \<Rightarrow> string" where
  "csv_text results = csv_template (parseResults results) results"

section \<open>Pretty JSON\<close>

definition expando :: "jsval \<Rightarrow> string" where
  "expando v = (case v of Arr _ \<Rightarrow> ''expando'' | Obj _ \<Rightarrow> ''expando'' | _ \<Rightarrow> [])"

definition pretty_value :: "string \<Rightarrow> jsval \<Rightarrow> jsval" where
  "pretty_value type text = tag_obj ''SPAN'' [(''cls'', Str (''uiJsonPretty-'' @ type)), (''text'', text)]"

definition quoted :: "string \<Rightarrow> string" where
  "quoted s = CELL_QUOTE @ s @ CELL_QUOTE"

text \<open>The pattern \<open>^(http|https|file)://[^\s]+$\<close>.\<close>

definition is_link :: "string \<Rightarrow> bool" where
  "is_link s \<longleftrightarrow> list_ex (\<lambda>p. starts_with p s \<and> drop (length p) s \<noteq> [] \<and> list_all (\<lambda>c. \<not> is_space c) (drop (length p) s))
     [''http://'', ''https://'', ''file://'']"

definition pretty_string :: "string \<Rightarrow> jsval" where
  "pretty_string s =
     (if is_link s
      then pretty_value ''string'' (tag_obj ''A'' [(''href'', Str s), (''target'', Str ''_blank''), (''text'', Str (quoted s))])
      else pretty_value ''string'' (Str (quoted s)))"

definition pretty_array :: "jsval list \<Rightarrow> jsval" where
  "pretty_array results = Arr [Str ''[ '',
     (if results \<noteq> [] then tag_obj ''UL'' [(''cls'', Str ''uiJsonPretty-array''), (''children'', Arr results)] else Null), Str '']'']"

definition pretty_object :: "jsval list \<Rightarrow> jsval" where
  "pretty_object results = Arr [Str ''{ '',
     (if results \<noteq> [] then tag_obj ''UL'' [(''cls'', Str ''uiJsonPretty-object''), (''children'', Arr results)] else Null), Str ''}'']"

text \<open>
  A value is printed by the function that its constructor names; there is none for functions and other
  instances.
\<close>

function pretty_parse :: "jsval \<Rightarrow> jsval res"
  and pretty_items :: "jsval list \<Rightarrow> jsval list res"
  and pretty_members :: "obj \<Rightarrow> jsval list res" where
  "pretty_parse v =
     (case v of
        Undef \<Rightarrow> Inr (pretty_value ''null'' (Str ''null''))
      | Null \<Rightarrow> Inr (pretty_value ''null'' (Str ''null''))
      | Bool b \<Rightarrow> Inr (pretty_value ''boolean'' (Str (to_string v)))
      | Num n \<Rightarrow> Inr (pretty_value ''number'' (Str (to_string v)))
      | NaN \<Rightarrow> Inr (pretty_value ''number'' (Str (to_string v)))
      | Str s \<Rightarrow> Inr (pretty_string s)
      | Arr vs \<Rightarrow> res_bind (pretty_items vs) (\<lambda>results. Inr (pretty_array results))
      | Obj fs \<Rightarrow> res_bind (pretty_members fs) (\<lambda>results. Inr (pretty_object results))
      | _ \<Rightarrow> Inl TypeError)"
| "pretty_items [] = Inr []"
| "pretty_items (v # vs) =
     res_bind (pretty_parse v) (\<lambda>t. res_bind (pretty_items vs) (\<lambda>ts.
       Inr (tag_obj ''LI'' [(''cls'', Str (expando v)), (''children'', Arr [t])] # (if vs \<noteq> [] then [Str '',''] else []) @ ts)))"
| "pretty_members [] = Inr []"
| "pretty_members ((k, v) # fs) =
     res_bind (pretty_parse v) (\<lambda>t. res_bind (pretty_members fs) (\<lambda>ts.
       Inr (tag_obj ''LI'' [(''cls'', Str (expando v)),
              (''children'', Arr ([pretty_value ''name'' (Str (quoted k)), Str '': '', t] @ (if fs \<noteq> [] then [Str '',''] else [])))] # ts)))"
  by pat_completeness auto
termination
  by (relation "measures [\<lambda>x. case x of Inl v \<Rightarrow> size v | Inr (Inl vs) \<Rightarrow> size_list size vs
                                | Inr (Inr fs) \<Rightarrow> size_list (size_prod (\<lambda>_. 0) size) fs,
                          \<lambda>x. case x of Inl _ \<Rightarrow> 0 | _ \<Rightarrow> 1]") auto

definition pretty_main_template :: "jsval \<Rightarrow> jsval res" where
  "pretty_main_template v =
     (case pretty_parse v of
        Inl e \<Rightarrow> Inl (Thrown ''JsonPretty error'')
      | Inr t \<Rightarrow> Inr (tag_obj ''DIV'' [(''cls'', Str ''uiJsonPretty''), (''children'', t)]))"

text \<open>A click on a name toggles its item, unless an item around it is minimised.\<close>

definition pretty_click :: "nat list \<Rightarrow> nat list list \<Rightarrow> nat list list" where
  "pretty_click item minimised =
     (if list_ex (\<lambda>k. contains minimised (take k item)) [1..<length item] then minimised
      else if contains minimised item then arr_remove item minimised else minimised @ [item])"

section \<open>What the views show\<close>

text \<open>The text of a JSON value, strings not escaped.\<close>

function json_text :: "jsval \<Rightarrow> string"
  and json_members :: "obj \<Rightarrow> string list" where
  "json_text v =
     (case v of
        Undef \<Rightarrow> ''null''
      | Str s \<Rightarrow> quoted s
      | Arr vs \<Rightarrow> ''[ '' @ join '','' (map json_text vs) @ '']''
      | Obj fs \<Rightarrow> ''{ '' @ join '','' (json_members fs) @ ''}''
      | _ \<Rightarrow> to_string v)"
| "json_members [] = []"
| "json_members ((k, v) # fs) = (quoted k @ '': '' @ json_text v) # json_members fs"
  by pat_completeness auto
termination
  by (relation "measures [\<lambda>x. case x of Inl v \<Rightarrow> size v | Inr fs \<Rightarrow> size_list (size_prod (\<lambda>_. 0) size) fs,
                          \<lambda>x. case x of Inl _ \<Rightarrow> 0 | Inr _ \<Rightarrow> 1]")
    (auto simp: less_Suc_eq_le size_list_estimation')

declare json_text.simps [simp del] pretty_parse.simps [simp del] leaves.simps [simp del]

lemma pretty_parse_atoms [simp]:
  "pretty_parse Undef = Inr (pretty_value ''null'' (Str ''null''))" "pretty_parse Null = Inr (pretty_value ''null'' (Str ''null''))"
  "pretty_parse (Bool b) = Inr (pretty_value ''boolean'' (Str (to_string (Bool b))))"
  "pretty_parse (Num n) = Inr (pretty_value ''number'' (Str (to_string (Num n))))"
  "pretty_parse NaN = Inr (pretty_value ''number'' (Str (to_string NaN)))" "pretty_parse (Str s) = Inr (pretty_string s)"
  "pretty_parse (Fn f) = Inl TypeError" "pretty_parse (Widget w) = Inl TypeError"
  by (simp_all add: pretty_parse.simps)

lemma json_text_simps [simp]:
  "json_text Undef = ''null''" "json_text Null = ''null''" "json_text (Bool b) = to_string (Bool b)"
  "json_text (Num n) = to_string (Num n)" "json_text NaN = ''NaN''" "json_text (Str s) = quoted s"
  "json_text (Arr vs) = ''[ '' @ join '','' (map json_text vs) @ '']''"
  "json_text (Obj fs) = ''{ '' @ join '','' (json_members fs) @ ''}''"
  by (simp_all add: json_text.simps)

lemma texts_pretty_value [simp]: "texts (create_nodes (pretty_value ty v)) = texts (create_nodes v)"
  by (simp add: pretty_value_def tag_obj_def)

lemma texts_pretty_string [simp]: "texts (create_nodes (pretty_string s)) = quoted s"
  by (simp add: pretty_string_def tag_obj_def)

lemma json_members_Nil [simp]: "json_members fs = [] \<longleftrightarrow> fs = []"
  by (cases fs) auto

lemma texts_pretty_array [simp]: "texts (create_nodes (pretty_array ts)) = ''[ '' @ texts (create_list ts) @ '']''"
  by (simp add: pretty_array_def tag_obj_def)

lemma texts_pretty_object [simp]: "texts (create_nodes (pretty_object ts)) = ''{ '' @ texts (create_list ts) @ ''}''"
  by (simp add: pretty_object_def tag_obj_def)

lemma pretty_atoms:
  "pretty_parse v = Inr t \<Longrightarrow> (case v of Arr vs \<Rightarrow> False | Obj fs \<Rightarrow> False | _ \<Rightarrow> True) \<Longrightarrow> texts (create_nodes t) = json_text v"
  by (cases v) (auto simp del: create_nodes_simps(6))

lemma pretty_texts:
  "pretty_parse v = Inr t \<Longrightarrow> texts (create_nodes t) = json_text v"
  "pretty_items vs = Inr ts \<Longrightarrow> texts (create_list ts) = join '','' (map json_text vs) \<and> (ts = [] \<longleftrightarrow> vs = [])"
  "pretty_members fs = Inr ts \<Longrightarrow> texts (create_list ts) = join '','' (json_members fs) \<and> (ts = [] \<longleftrightarrow> fs = [])"
proof (induction v and vs and fs arbitrary: t and ts and ts rule: pretty_parse_pretty_items_pretty_members.induct)
  case (1 v)
  show ?case
  proof (cases v)
    case (Arr vs)
    with 1(3) obtain ts where ts: "pretty_items vs = Inr ts" "t = pretty_array ts" by (auto simp: pretty_parse.simps [of "Arr vs"] pretty_array_def)
    with 1(1) [OF Arr ts(1)] Arr show ?thesis by simp
  next
    case (Obj fs)
    with 1(3) obtain ts where ts: "pretty_members fs = Inr ts" "t = pretty_object ts" by (auto simp: pretty_parse.simps [of "Obj fs"] pretty_object_def)
    with 1(2) [OF Obj ts(1)] Obj show ?thesis by simp
  qed (use 1(3) pretty_atoms [of v t] in simp_all)
next
  case (3 v vs)
  then obtain t1 ts1 where i: "pretty_parse v = Inr t1" "pretty_items vs = Inr ts1"
    "ts = tag_obj ''LI'' [(''cls'', Str (expando v)), (''children'', Arr [t1])] # (if vs \<noteq> [] then [Str '',''] else []) @ ts1"
    by auto
  with 3(1) [OF i(1)] 3(2) [OF i(2)] show ?case by (cases vs) (simp_all add: tag_obj_def)
next
  case (5 k v fs)
  then obtain t1 ts1 where i: "pretty_parse v = Inr t1" "pretty_members fs = Inr ts1"
    "ts = tag_obj ''LI'' [(''cls'', Str (expando v)),
              (''children'', Arr ([pretty_value ''name'' (Str (quoted k)), Str '': '', t1] @ (if fs \<noteq> [] then [Str '',''] else [])))] # ts1"
    by auto
  have "texts (create_list ts) = quoted k @ '': '' @ json_text v @ (if fs \<noteq> [] then '','' else []) @ texts (create_list ts1)"
    using 5(1) [OF i(1)] by (simp add: i(3) tag_obj_def)
  with 5(2) [OF i(2)] i(3) show ?case by (cases "json_members fs"; cases fs) auto
qed auto

fun is_json :: "jsval \<Rightarrow> bool" where
  "is_json (Fn _) = False"
| "is_json (Widget _) = False"
| "is_json (Arr vs) = list_all is_json vs"
| "is_json (Obj fs) = list_all (\<lambda>(k, v). is_json v) fs"
| "is_json _ = True"

lemma pretty_total:
  "is_json v \<Longrightarrow> \<exists>t. pretty_parse v = Inr t"
  "list_all is_json vs \<Longrightarrow> \<exists>ts. pretty_items vs = Inr ts"
  "list_all (\<lambda>(k, v). is_json v) fs \<Longrightarrow> \<exists>ts. pretty_members fs = Inr ts"
proof (induction v and vs and fs rule: pretty_parse_pretty_items_pretty_members.induct)
  case (1 v)
  then show ?case by (cases v) (auto simp: pretty_parse.simps)
qed auto


subsection \<open>Columns and rows\<close>

definition covered :: "string list \<Rightarrow> obj \<Rightarrow> bool" where
  "covered columns row \<longleftrightarrow> set (keys row) \<subseteq> insert ''_source'' (set columns)"

lemma push_new_simps [simp]: "set (push_new c cs) = insert c (set cs)" "distinct cs \<Longrightarrow> distinct (push_new c cs)"
  by (auto simp: push_new_def)

lemma covered_dput: "covered columns row \<Longrightarrow> k \<in> insert ''_source'' (set columns) \<Longrightarrow> covered columns (dput k v row)"
  by (auto simp: covered_def)

lemma covered_mono: "covered cs row \<Longrightarrow> set cs \<subseteq> set cs' \<Longrightarrow> covered cs' row"
  by (auto simp: covered_def)

definition row_ok :: "string list \<Rightarrow> string list \<times> obj \<Rightarrow> bool" where
  "row_ok columns r \<longleftrightarrow> distinct (fst r) \<and> set columns \<subseteq> set (fst r) \<and> covered (fst r) (snd r)"

lemma fold_leaf_ok:
  assumes "\<And>l acc. row_ok columns acc \<Longrightarrow> row_ok columns (f l acc)" "row_ok columns acc"
  shows "row_ok columns (fold f ls acc)"
  using assms(2) by (induction ls arbitrary: acc) (simp_all add: assms(1) del: split_paired_All)

lemma result_leaf_ok: "row_ok columns acc \<Longrightarrow> row_ok columns (result_leaf l acc)"
  by (auto simp: row_ok_def result_leaf_def covered_def split: prod.splits)

lemma query_leaf_ok: "row_ok columns acc \<Longrightarrow> row_ok columns (query_leaf paths name l acc)"
  by (auto simp: row_ok_def query_leaf_def covered_def split: prod.splits option.splits)

lemma row_ok_start: "distinct columns \<Longrightarrow> row_ok columns (columns, [])"
  by (simp add: row_ok_def covered_def keys_def)

lemma result_row_ok:
  assumes "distinct columns"
  shows "row_ok columns (result_row hit columns)"
proof -
  let ?l = "leaves [to_string (dget (case hit of Obj fs \<Rightarrow> fs | _ \<Rightarrow> []) ''_type'')] hit"
  obtain c1 r1 where f: "fold result_leaf ?l (columns, []) = (c1, r1)" by fastforce
  from fold_leaf_ok [of columns result_leaf, OF result_leaf_ok row_ok_start [OF assms]]
  have "row_ok columns (c1, r1)" by (metis f)
  then show ?thesis unfolding result_row_def f prod.case by (auto simp: row_ok_def covered_def)
qed

lemma query_row_ok:
  assumes "distinct columns" "set metaColumns \<subseteq> set columns"
  shows "row_ok columns (query_row paths hit columns)"
proof -
  let ?path = "[to_string (hit_field hit ''_index''), to_string (hit_field hit ''_type'')]"
  obtain c1 r1 where f: "fold (query_leaf paths (\<lambda>f. f)) (leaves ?path (hit_field hit ''_source'')) (columns, []) = (c1, r1)"
    by fastforce
  from fold_leaf_ok [of columns "query_leaf paths (\<lambda>f. f)", OF query_leaf_ok row_ok_start [OF assms(1)]]
  have r1: "row_ok columns (c1, r1)" by (metis f)
  then have r3: "row_ok columns (c1, dput ''_source'' hit (fold (\<lambda>n r. dput n (hit_field hit n) r) metaColumns r1))"
    using assms(2) by (auto simp: row_ok_def metaColumns_def covered_def)
  show ?thesis
    unfolding query_row_def f Let_def prod.case
    by (simp only: split: if_split) (blast intro: r3 fold_leaf_ok query_leaf_ok)
qed

lemma rows_with_ok:
  assumes "\<And>hit cs. distinct cs \<Longrightarrow> set base \<subseteq> set cs \<Longrightarrow> row_ok cs (f hit cs)"
  shows "distinct columns \<Longrightarrow> set base \<subseteq> set columns \<Longrightarrow> rows_with f hits columns = (columns', rows) \<Longrightarrow>
    distinct columns' \<and> set columns \<subseteq> set columns' \<and> list_all (covered columns') rows \<and> length rows = length hits"
proof (induction hits arbitrary: columns columns' rows)
  case (Cons hit hits)
  obtain c1 row where f: "f hit columns = (c1, row)" by fastforce
  obtain c2 rows2 where r: "rows_with f hits c1 = (c2, rows2)" by fastforce
  from assms [OF Cons.prems(1,2), of hit] have ok: "distinct c1" "set columns \<subseteq> set c1" "covered c1 row"
    by (simp_all add: f row_ok_def)
  from Cons.IH [OF ok(1) _ r] ok Cons.prems covered_mono [OF ok(3), of c2] f r show ?case by auto
qed auto

text \<open>C17: A data source has one row for every hit, its columns are distinct, and every value of every row has its
  column, so that the table shows all of them; the query's source starts with its four own columns.\<close>

theorem data_source_columns:
  "length (ds_data (query_source tr paths q res)) = length (r_hits res)
   \<and> distinct (ds_columns (query_source tr paths q res)) \<and> set metaColumns \<subseteq> set (ds_columns (query_source tr paths q res))
   \<and> list_all (covered (ds_columns (query_source tr paths q res))) (ds_data (query_source tr paths q res))
   \<and> length (ds_data (result_source tr res)) = length (r_hits res) \<and> distinct (ds_columns (result_source tr res))
   \<and> list_all (covered (ds_columns (result_source tr res))) (ds_data (result_source tr res))"
proof -
  have m: "distinct metaColumns" by (simp add: metaColumns_def)
  show ?thesis
    using rows_with_ok [of metaColumns "query_row paths" metaColumns "r_hits res", OF query_row_ok m]
      rows_with_ok [of "[]" result_row "[]" "r_hits res", OF result_row_ok]
    by (auto simp: query_source_def result_source_def split: prod.split)
qed

subsection \<open>Reading the CSV text back\<close>

text \<open>A reader of quoted comma separated values: the state is whether it is inside quotes, the cell and
  the cells of the line so far.\<close>

function read_csv :: "bool \<Rightarrow> string \<Rightarrow> string list \<Rightarrow> string \<Rightarrow> string list list" where
  "read_csv q cell cells [] = [cells @ [cell]]"
| "read_csv True cell cells (c # s) =
     (if [c] = CELL_QUOTE
      then (case s of [] \<Rightarrow> read_csv False cell cells []
            | d # s' \<Rightarrow> if [d] = CELL_QUOTE then read_csv True (cell @ [d]) cells s' else read_csv False cell cells s)
      else read_csv True (cell @ [c]) cells s)"
| "read_csv False cell cells (c # s) =
     (if [c] = CELL_QUOTE then read_csv True cell cells s
      else if [c] = CELL_SEPARATOR then read_csv False [] (cells @ [cell]) s
      else if take 2 (c # s) = LINE_SEPARATOR then (cells @ [cell]) # read_csv False [] [] (drop 1 s)
      else read_csv False (cell @ [c]) cells s)"
  by pat_completeness auto
termination by (relation "measure (\<lambda>(q, cell, cells, s). length s)") auto

definition cell_value :: "jsval \<Rightarrow> string" where
  "cell_value ptr = (if ptr = Null \<or> ptr = Undef then [] else to_string ptr)"

lemmas csv_consts = CELL_QUOTE_def CELL_SEPARATOR_def LINE_SEPARATOR_def

lemma read_quoted:
  "rest = [] \<or> [hd rest] \<noteq> CELL_QUOTE \<Longrightarrow>
   read_csv True cell cells (double_quotes s @ CELL_QUOTE @ rest) = read_csv False (cell @ s) cells rest"
proof (induction s arbitrary: cell)
  case Nil
  then show ?case by (cases rest) (auto simp: double_quotes_def csv_consts)
next
  case (Cons c s)
  then show ?case by (auto simp: double_quotes_def csv_consts)
qed

lemma read_cell:
  assumes "rest = [] \<or> [hd rest] \<noteq> CELL_QUOTE"
  shows "read_csv False [] cells (csv_cell v @ rest) = read_csv False (cell_value v) cells rest"
proof (cases "v = Null \<or> v = Undef")
  case True
  then show ?thesis by (auto simp: csv_cell_def cell_value_def)
next
  case False
  then have "read_csv False [] cells (csv_cell v @ rest) =
      read_csv True [] cells (double_quotes (to_string v) @ CELL_QUOTE @ rest)"
    by (simp add: csv_cell_def csv_consts)
  then show ?thesis using read_quoted [OF assms, of "[]" cells "to_string v"] False by (simp add: cell_value_def)
qed

lemma read_cells:
  assumes "rest = [] \<or> take 2 rest = LINE_SEPARATOR" "vs \<noteq> []"
  shows "read_csv False [] cells (join CELL_SEPARATOR (map csv_cell vs) @ rest) =
    (if rest = [] then [cells @ map cell_value vs] else (cells @ map cell_value vs) # read_csv False [] [] (drop 2 rest))"
  using assms(2)
proof (induction vs arbitrary: cells)
  case (Cons v vs)
  show ?case
  proof (cases "vs = []")
    case True
    have "rest = [] \<or> [hd rest] \<noteq> CELL_QUOTE" using assms(1) by (cases rest) (auto simp: csv_consts)
    from read_cell [OF this, of cells v] True assms(1) show ?thesis
      by (cases rest) (auto simp: csv_consts)
  next
    case False
    then obtain w ws where w: "vs = w # ws" by (cases vs) auto
    have "read_csv False [] cells (csv_cell v @ CELL_SEPARATOR @ (join CELL_SEPARATOR (map csv_cell vs) @ rest)) =
        read_csv False [] (cells @ [cell_value v]) (join CELL_SEPARATOR (map csv_cell vs) @ rest)"
      using read_cell [of "CELL_SEPARATOR @ (join CELL_SEPARATOR (map csv_cell vs) @ rest)" cells v] by (simp add: csv_consts)
    with Cons.IH [OF False, of "cells @ [cell_value v]"] w show ?thesis by simp
  qed
qed simp

text \<open>C19: The lines below the header of the CSV text read back, cell by cell, as the values of the results at the
  column paths, whatever quotes, commas and line ends the values hold.\<close>

theorem csv_results_read_back:
  assumes "columns \<noteq> []" "results \<noteq> []"
  shows "read_csv False [] [] (csv_results columns results) =
    map (\<lambda>r. map (\<lambda>c. cell_value (csv_lookup c r)) columns) results"
  using assms(2)
proof (induction results)
  case (Cons r rs)
  have row: "csv_row columns r = join CELL_SEPARATOR (map csv_cell (map (\<lambda>c. csv_lookup c r) columns))"
    by (simp add: csv_row_def o_def)
  show ?case
  proof (cases "rs = []")
    case True
    then show ?thesis using read_cells [of "[]" "map (\<lambda>c. csv_lookup c r) columns" "[]"] assms(1)
      by (simp add: csv_results_def row o_def)
  next
    case False
    then obtain r' rs' where "rs = r' # rs'" by (cases rs) auto
    then have "csv_results columns (r # rs) = csv_row columns r @ LINE_SEPARATOR @ csv_results columns rs"
      by (simp add: csv_results_def)
    then show ?thesis
      using read_cells [of "LINE_SEPARATOR @ csv_results columns rs" "map (\<lambda>c. csv_lookup c r) columns" "[]"] assms(1) Cons.IH [OF False]
      by (simp add: row o_def) (simp add: csv_consts)
  qed
qed simp

theorem csv_results_read_back_witness:
  "read_csv False [] [] (csv_results [[''a''], [''b'', ''c'']] [Obj [(''a'', Str [CHR 0x22, CHR '','']), (''b'', Obj [(''c'', Num 5)])], Obj [(''a'', Null)]])
     = [[[CHR 0x22, CHR '',''], show_int 5], [[], []]]"
  using csv_results_read_back [of "[[''a''], [''b'', ''c'']]" "[Obj [(''a'', Str [CHR 0x22, CHR '','']), (''b'', Obj [(''c'', Num 5)])], Obj [(''a'', Null)]]"]
  by (simp add: cell_value_def js_property_def props_of_def)

text \<open>The arrow keys move the preview one row down or up between the rows of the body, but they count the header
  row in: a first press of the down key selects the header row and throws, and past an end every further
  key throws until a row is clicked.\<close>

theorem nav_moves_and_dead_ends:
  "(1 \<le> i \<and> i < n \<longrightarrow>
      nav_handler n 40 \<lparr> selected = Some (Some i), preview = p \<rparr> = (None, \<lparr> selected = Some (Some (Suc i)), preview = Some (Suc i) \<rparr>)
      \<and> nav_handler n 38 \<lparr> selected = Some (Some (Suc i)), preview = p \<rparr> = (None, \<lparr> selected = Some (Some i), preview = Some i \<rparr>))
   \<and> nav_handler n 40 \<lparr> selected = None, preview = None \<rparr> = (Some TypeError, \<lparr> selected = Some (Some 0), preview = None \<rparr>)
   \<and> nav_handler n 40 \<lparr> selected = Some (Some n), preview = p \<rparr> = (Some TypeError, \<lparr> selected = Some None, preview = None \<rparr>)
   \<and> nav_handler n 40 \<lparr> selected = Some None, preview = None \<rparr> = (Some TypeError, \<lparr> selected = Some None, preview = None \<rparr>)
   \<and> nav_handler n 38 \<lparr> selected = Some None, preview = None \<rparr> = (Some TypeError, \<lparr> selected = Some None, preview = None \<rparr>)"
  by (simp add: nav_handler_def showPreview_def next_row_def prev_row_def Let_def)

theorem nav_moves_and_dead_ends_witness:
  "nav_handler 3 40 \<lparr> selected = Some (Some 1), preview = Some 1 \<rparr> = (None, \<lparr> selected = Some (Some 2), preview = Some 2 \<rparr>)"
  using nav_moves_and_dead_ends [of 1 3 "Some 1"] by (simp add: numeral_2_eq_2)

end
