(* ===== verification/Services.thy ===== *)
theory Services
  imports MetaData
begin

text \<open>
  \<^verbatim>\<open>services/cluster/cluster.js\<close> (versions and requests),
  \<^verbatim>\<open>services/clusterState/clusterState.js\<close> (the refresh of the cluster's state from
  five requests answered in any order) and \<^verbatim>\<open>services/preferences/preferences.js\<close>.
\<close>

section \<open>The cluster\<close>

text \<open>The pattern \<open>^(\d+)\.(\d+)\.(\d+)\<close>: three numbers at the start; without a match, \<open>null.slice\<close> throws.\<close>

fun parse_numbers :: "nat \<Rightarrow> string \<Rightarrow> nat list option" where
  "parse_numbers 0 s = None"
| "parse_numbers (Suc n) s =
     (let ds = takeWhile is_digit s; r = dropWhile is_digit s
      in if ds = [] then None
         else if n = 0 then Some [nat_of_digits ds]
         else (case r of c # r' \<Rightarrow> if c = CHR ''.'' then map_option ((#) (nat_of_digits ds)) (parse_numbers n r') else None
               | [] \<Rightarrow> None))"

definition parse_version :: "string \<Rightarrow> nat list res" where
  "parse_version v = (case parse_numbers 3 v of None \<Rightarrow> Inl TypeError | Some l \<Rightarrow> Inr l)"

record cluster =
  base_uri :: string
  cl_version :: string
  version_parts :: "nat list option"

definition cluster_init :: "string \<Rightarrow> cluster" where
  "cluster_init uri = \<lparr> base_uri = uri, cl_version = [], version_parts = None \<rparr>"

definition setVersion :: "string \<Rightarrow> cluster \<Rightarrow> cluster res" where
  "setVersion v c = res_bind (parse_version v) (\<lambda>p. Inr (c\<lparr> cl_version := v, version_parts := Some p \<rparr>))"

fun at_least :: "nat list \<Rightarrow> nat list \<Rightarrow> bool" where
  "at_least (t # ts) (p # ps) = (if t \<noteq> p then t < p else at_least ts ps)"
| "at_least _ _ = True"

definition versionAtLeast :: "string \<Rightarrow> cluster \<Rightarrow> bool res" where
  "versionAtLeast v c =
     res_bind (parse_version v) (\<lambda>t. case version_parts c of None \<Rightarrow> Inl TypeError | Some p \<Rightarrow> Inr (at_least t p))"

record ajax =
  rq_type :: string
  rq_url :: string
  rq_data :: "string option"

definition cluster_request :: "cluster \<Rightarrow> string \<Rightarrow> string \<Rightarrow> string option \<Rightarrow> ajax" where
  "cluster_request c type path data = \<lparr> rq_type = type, rq_url = base_uri c @ path, rq_data = data \<rparr>"

definition cluster_get :: "cluster \<Rightarrow> string \<Rightarrow> ajax" where "cluster_get c path = cluster_request c ''GET'' path None"
definition cluster_post :: "cluster \<Rightarrow> string \<Rightarrow> string \<Rightarrow> ajax" where "cluster_post c path data = cluster_request c ''POST'' path (Some data)"
definition cluster_put :: "cluster \<Rightarrow> string \<Rightarrow> string \<Rightarrow> ajax" where "cluster_put c path data = cluster_request c ''PUT'' path (Some data)"
definition cluster_delete :: "cluster \<Rightarrow> string \<Rightarrow> string \<Rightarrow> ajax" where "cluster_delete c path data = cluster_request c ''DELETE'' path (Some data)"

text \<open>A version number in text.\<close>

definition show_version :: "nat \<Rightarrow> nat \<Rightarrow> nat \<Rightarrow> string \<Rightarrow> string" where
  "show_version a b c rest = show_nat a @ ''.'' @ show_nat b @ ''.'' @ show_nat c @ rest"

lemma takeWhile_show: "r = [] \<or> \<not> is_digit (hd r) \<Longrightarrow> takeWhile is_digit (show_nat n @ r) = show_nat n"
  using show_nat_digits [of n] by (cases r) (simp_all add: takeWhile_append)

lemma dropWhile_show: "r = [] \<or> \<not> is_digit (hd r) \<Longrightarrow> dropWhile is_digit (show_nat n @ r) = r"
  using show_nat_digits [of n] by (cases r) (simp_all add: dropWhile_append)

lemma dot_not_digit [simp]: "\<not> is_digit (CHR ''.'')"
  by (simp add: is_digit_def)

lemma parse_show_version:
  assumes "rest = [] \<or> \<not> is_digit (hd rest)"
  shows "parse_version (show_version a b c rest) = Inr [a, b, c]"
proof -
  have d: "\<And>r. ''.'' @ r = [] \<or> \<not> is_digit (hd (''.'' @ r))" by simp
  show ?thesis
    using takeWhile_show [OF assms] dropWhile_show [OF assms] takeWhile_show [OF d] dropWhile_show [OF d]
    by (simp add: parse_version_def show_version_def numeral_3_eq_3 Let_def)
qed

text \<open>C22: A cluster of version a.b.c is at least version x.y.z exactly when (x, y, z) is lexicographically at most
  (a, b, c), whatever follows the third number.\<close>

theorem versionAtLeast_lexicographic:
  assumes "rest = [] \<or> \<not> is_digit (hd rest)" "rest' = [] \<or> \<not> is_digit (hd rest')"
  shows "res_bind (setVersion (show_version a b c rest) cl) (versionAtLeast (show_version x y z rest')) =
    Inr (x < a \<or> x = a \<and> (y < b \<or> y = b \<and> z \<le> c))"
  using parse_show_version [OF assms(1), of a b c] parse_show_version [OF assms(2), of x y z]
  by (auto simp: setVersion_def versionAtLeast_def)

theorem versionAtLeast_lexicographic_witness:
  "res_bind (setVersion (show_version 5 10 0 ''-rc1'') (cluster_init [])) (versionAtLeast (show_version 5 9 3 [])) = Inr True"
  using versionAtLeast_lexicographic [of "''-rc1''" "[]" 5 10 0 "cluster_init []" 5 9 3] by (simp add: is_digit_def)

section \<open>The state of the cluster\<close>

text \<open>
  A refresh has five variables of its own, filled by its five requests; when the last one is there the
  model takes all five and fires \<open>data\<close>. If the cluster state cannot be had, \<open>_all\<close> is asked for instead.
  Several refreshes may be under way.
\<close>

datatype endpoint = E_state | E_all | E_stats | E_nodes_stats | E_nodes | E_health

record cluster_view =
  v_state :: jsval
  v_status :: jsval
  v_nodeStats :: jsval
  v_nodes :: jsval
  v_health :: jsval

record run =
  vars :: cluster_view
  outstanding :: "endpoint list"

record cluster_model =
  view :: cluster_view
  runs :: "run list"
  fired :: "nat list"

definition undef_view :: cluster_view where
  "undef_view = \<lparr> v_state = Undef, v_status = Undef, v_nodeStats = Undef, v_nodes = Undef, v_health = Undef \<rparr>"

definition clusterState_init :: cluster_model where
  "clusterState_init = \<lparr> view = \<lparr> v_state = Null, v_status = Null, v_nodeStats = Null, v_nodes = Null, v_health = Undef \<rparr>,
     runs = [], fired = [] \<rparr>"

definition start_refresh :: "cluster_model \<Rightarrow> cluster_model" where
  "start_refresh m =
     m\<lparr> runs := runs m @ [\<lparr> vars = undef_view, outstanding = [E_state, E_stats, E_nodes_stats, E_nodes, E_health] \<rparr>] \<rparr>"

definition complete :: "cluster_view \<Rightarrow> bool" where
  "complete v \<longleftrightarrow> truthy (v_state v) \<and> truthy (v_status v) \<and> truthy (v_nodeStats v) \<and> truthy (v_nodes v) \<and> truthy (v_health v)"

definition updateModel :: "nat \<Rightarrow> cluster_model \<Rightarrow> cluster_model" where
  "updateModel i m =
     (let v = vars (runs m ! i) in if complete v then m\<lparr> view := v, fired := fired m @ [i] \<rparr> else m)"

text \<open>The state built from \<open>_all\<close>, as in the metadata factory.\<close>

definition state_from_all :: "jsval \<Rightarrow> jsval" where
  "state_from_all data =
     (case data of
        Obj fs \<Rightarrow> Obj [(''routing_table'', Obj [(''indices'', Obj (map (\<lambda>(k, v). (k, unassigned_shard k)) fs))]),
                    (''metadata'', Obj [(''indices'', Obj (map (\<lambda>(k, v). (k,
                       case v of Obj e \<Rightarrow> Obj [(''mappings'', dget e ''mappings''),
                           (''aliases'', Arr (map Str (case dget e ''aliases'' of Obj a \<Rightarrow> keys a | _ \<Rightarrow> []))),
                           (''settings'', dget e ''settings'')]
                       | _ \<Rightarrow> Obj [])) fs))])]
      | _ \<Rightarrow> Obj [(''routing_table'', Obj [(''indices'', Obj [])]), (''metadata'', Obj [(''indices'', Obj [])])])"

definition set_var :: "endpoint \<Rightarrow> jsval \<Rightarrow> cluster_view \<Rightarrow> cluster_view" where
  "set_var e d v =
     (case e of
        E_state \<Rightarrow> v\<lparr> v_state := d \<rparr>
      | E_all \<Rightarrow> v\<lparr> v_state := state_from_all d \<rparr>
      | E_stats \<Rightarrow> v\<lparr> v_status := d \<rparr>
      | E_nodes_stats \<Rightarrow> v\<lparr> v_nodeStats := d \<rparr>
      | E_nodes \<Rightarrow> v\<lparr> v_nodes := d \<rparr>
      | E_health \<Rightarrow> v\<lparr> v_health := d \<rparr>)"

definition on_success :: "nat \<Rightarrow> endpoint \<Rightarrow> jsval \<Rightarrow> cluster_model \<Rightarrow> cluster_model" where
  "on_success i e d m =
     (let r = runs m ! i
      in updateModel i (m\<lparr> runs := (runs m)[i := \<lparr> vars = set_var e d (vars r), outstanding = remove1 e (outstanding r) \<rparr>] \<rparr>))"

definition on_error :: "nat \<Rightarrow> endpoint \<Rightarrow> cluster_model \<Rightarrow> cluster_model" where
  "on_error i e m =
     (let r = runs m ! i
      in m\<lparr> runs := (runs m)[i := r\<lparr> outstanding := remove1 e (outstanding r) @ (if e = E_state then [E_all] else []) \<rparr>] \<rparr>)"

inductive cluster_step :: "cluster_model \<Rightarrow> cluster_model \<Rightarrow> bool" where
  Refresh: "cluster_step m (start_refresh m)"
| Success: "i < length (runs m) \<Longrightarrow> e \<in> set (outstanding (runs m ! i)) \<Longrightarrow> cluster_step m (on_success i e d m)"
| Error: "i < length (runs m) \<Longrightarrow> e \<in> set (outstanding (runs m ! i)) \<Longrightarrow> cluster_step m (on_error i e m)"

inductive cluster_reach :: "cluster_model \<Rightarrow> bool" where
  Init: "cluster_reach clusterState_init"
| Step: "cluster_reach m \<Longrightarrow> cluster_step m m' \<Longrightarrow> cluster_reach m'"

text \<open>The variable that an endpoint fills.\<close>

definition var_of :: "endpoint \<Rightarrow> cluster_view \<Rightarrow> jsval" where
  "var_of e v = (case e of E_state \<Rightarrow> v_state v | E_all \<Rightarrow> v_state v | E_stats \<Rightarrow> v_status v
     | E_nodes_stats \<Rightarrow> v_nodeStats v | E_nodes \<Rightarrow> v_nodes v | E_health \<Rightarrow> v_health v)"

text \<open>What is still asked for is not filled, and nothing is asked for twice.\<close>

definition run_inv :: "run \<Rightarrow> bool" where
  "run_inv r \<longleftrightarrow> distinct (outstanding r) \<and> \<not> (E_state \<in> set (outstanding r) \<and> E_all \<in> set (outstanding r))
     \<and> list_all (\<lambda>e. var_of e (vars r) = Undef) (outstanding r)"

definition cluster_inv :: "cluster_model \<Rightarrow> bool" where
  "cluster_inv m \<longleftrightarrow> list_all run_inv (runs m) \<and> distinct (fired m)
     \<and> (\<forall>i. i \<in> set (fired m) \<longleftrightarrow> i < length (runs m) \<and> complete (vars (runs m ! i)))
     \<and> (fired m \<noteq> [] \<longrightarrow> view m = vars (runs m ! last (fired m)))"

lemma complete_var: "complete v \<Longrightarrow> truthy (var_of e v)"
  by (cases e) (simp_all add: complete_def var_of_def)

lemma run_inv_open: "run_inv r \<Longrightarrow> e \<in> set (outstanding r) \<Longrightarrow> \<not> complete (vars r)"
  using complete_var [of "vars r" e] by (auto simp: run_inv_def list_all_iff)

lemma run_inv_success:
  assumes "run_inv r" "e \<in> set (outstanding r)"
  shows "run_inv \<lparr> vars = set_var e d (vars r), outstanding = remove1 e (outstanding r) \<rparr>"
proof -
  have "var_of e' (set_var e d (vars r)) = var_of e' (vars r)"
    if "e' \<in> set (remove1 e (outstanding r))" for e'
    using assms that by (cases e; cases e') (auto simp: run_inv_def set_var_def var_of_def)
  with assms show ?thesis by (auto simp: run_inv_def list_all_iff dest: notin_set_remove1)
qed

lemma run_inv_error:
  "run_inv r \<Longrightarrow> e \<in> set (outstanding r) \<Longrightarrow>
   run_inv (r\<lparr> outstanding := remove1 e (outstanding r) @ (if e = E_state then [E_all] else []) \<rparr>)"
  by (auto simp: run_inv_def list_all_iff var_of_def dest: notin_set_remove1)

lemma list_all_update: "list_all P xs \<Longrightarrow> P y \<Longrightarrow> list_all P (xs[i := y])"
  using set_update_subset_insert [of xs i y] by (auto simp: list_all_iff)

lemma cluster_inv_update:
  assumes "cluster_inv m" "i < length (runs m)" "\<not> complete (vars (runs m ! i))" "run_inv r"
  shows "\<not> complete (vars r) \<Longrightarrow> cluster_inv (m\<lparr> runs := (runs m)[i := r] \<rparr>)"
    "cluster_inv (updateModel i (m\<lparr> runs := (runs m)[i := r] \<rparr>))"
proof -
  have f: "j \<in> set (fired m) \<longleftrightarrow> j < length (runs m) \<and> complete (vars (runs m ! j))" for j
    using assms(1) by (simp add: cluster_inv_def)
  have i: "i \<notin> set (fired m)" using assms(3) f by simp
  have all: "list_all run_inv ((runs m)[i := r])"
    using assms(1,4) by (simp add: cluster_inv_def list_all_update)
  have mem: "(j < length (runs m) \<and> complete (vars ((runs m)[i := r] ! j))) \<longleftrightarrow> (j = i \<and> complete (vars r) \<or> j \<in> set (fired m))" for j
  proof (cases "j = i")
    case True
    then show ?thesis using assms(2) i by simp
  next
    case False
    then show ?thesis using f by simp
  qed
  have view: "view m = vars ((runs m)[i := r] ! last (fired m))" if "fired m \<noteq> []"
  proof -
    have "last (fired m) \<noteq> i" using i last_in_set [OF that] by metis
    then show ?thesis using assms(1) that by (simp add: cluster_inv_def)
  qed
  have d: "distinct (fired m)" using assms(1) by (simp add: cluster_inv_def)
  show c: "cluster_inv (m\<lparr> runs := (runs m)[i := r] \<rparr>)" if "\<not> complete (vars r)"
    using that all view d mem by (simp add: cluster_inv_def)
  show "cluster_inv (updateModel i (m\<lparr> runs := (runs m)[i := r] \<rparr>))"
  proof (cases "complete (vars r)")
    case False
    with c assms(2) show ?thesis by (simp add: updateModel_def)
  next
    case True
    with assms(2) d i all mem show ?thesis by (auto simp: updateModel_def cluster_inv_def)
  qed
qed

lemma cluster_inv_step:
  assumes "cluster_step m m'" "cluster_inv m"
  shows "cluster_inv m'"
  using assms(1)
proof (cases rule: cluster_step.cases)
  case Refresh
  let ?r = "\<lparr> vars = undef_view, outstanding = [E_state, E_stats, E_nodes_stats, E_nodes, E_health] \<rparr>"
  have "run_inv ?r" "\<not> complete (vars ?r)" by (simp_all add: run_inv_def var_of_def undef_view_def complete_def)
  with assms(2) have "(i < Suc (length (runs m)) \<and> complete (vars ((runs m @ [?r]) ! i))) \<longleftrightarrow> i \<in> set (fired m)" for i
    by (cases "i = length (runs m)") (auto simp: cluster_inv_def nth_append less_Suc_eq)
  moreover have "fired m \<noteq> [] \<Longrightarrow> last (fired m) < length (runs m)"
    using assms(2) last_in_set [of "fired m"] by (simp add: cluster_inv_def)
  ultimately show ?thesis
    using assms(2) \<open>run_inv ?r\<close> by (simp add: Refresh start_refresh_def cluster_inv_def nth_append)
next
  case (Success i e d)
  have r: "run_inv (runs m ! i)" using assms(2) Success(2) by (simp add: cluster_inv_def list_all_length)
  show ?thesis
    using cluster_inv_update(2) [OF assms(2) Success(2) run_inv_open [OF r Success(3)] run_inv_success [OF r Success(3)]]
    by (simp add: Success(1) on_success_def Let_def)
next
  case (Error i e)
  have r: "run_inv (runs m ! i)" using assms(2) Error(2) by (simp add: cluster_inv_def list_all_length)
  show ?thesis
    using cluster_inv_update(1) [OF assms(2) Error(2) run_inv_open [OF r Error(3)] run_inv_error [OF r Error(3)]]
      run_inv_open [OF r Error(3)]
    by (simp add: Error(1) on_error_def Let_def)
qed

lemma cluster_reach_inv: "cluster_reach m \<Longrightarrow> cluster_inv m"
proof (induction rule: cluster_reach.induct)
  case Init
  then show ?case by (simp add: cluster_inv_def clusterState_init_def)
qed (rule cluster_inv_step)

text \<open>C4: However the responses of overlapping refreshes interleave, the model is always what one single refresh read:
  it is the variables of the refresh that fired last; each refresh fires at most once, and it has fired as
  soon as its five answers are there.\<close>

theorem cluster_view_consistent:
  assumes "cluster_reach m"
  shows "distinct (fired m)
    \<and> (if fired m = [] then True else view m = vars (runs m ! last (fired m)) \<and> complete (view m))
    \<and> (i \<in> set (fired m) \<longleftrightarrow> i < length (runs m) \<and> complete (vars (runs m ! i)))"
proof -
  have inv: "cluster_inv m" by (rule cluster_reach_inv [OF assms])
  then have "complete (vars (runs m ! last (fired m)))" if "fired m \<noteq> []"
    using last_in_set [OF that] by (auto simp: cluster_inv_def)
  with inv show ?thesis by (auto simp: cluster_inv_def)
qed

text \<open>Two refreshes, the second answered first: the model ends with the first one.\<close>

definition answer :: "nat \<times> endpoint \<Rightarrow> cluster_model \<Rightarrow> cluster_model" where
  "answer ie m = on_success (fst ie) (snd ie) (Obj [(''run'', Num (int (fst ie)))]) m"

fun answerable :: "(nat \<times> endpoint) list \<Rightarrow> cluster_model \<Rightarrow> bool" where
  "answerable [] m = True"
| "answerable (ie # es) m =
     (fst ie < length (runs m) \<and> snd ie \<in> set (outstanding (runs m ! fst ie)) \<and> answerable es (answer ie m))"

lemma answers_reach: "cluster_reach m \<Longrightarrow> answerable es m \<Longrightarrow> cluster_reach (fold answer es m)"
proof (induction es arbitrary: m)
  case (Cons ie es)
  then have "cluster_step m (answer ie m)" unfolding answer_def by (intro Success) simp_all
  with Cons show ?case by (simp add: Step)
qed simp

definition sample_start :: cluster_model where
  "sample_start = on_error 0 E_state (start_refresh (start_refresh clusterState_init))"

definition sample_answers :: "(nat \<times> endpoint) list" where
  "sample_answers =
     [(1, E_health), (0, E_health), (1, E_nodes), (1, E_stats), (1, E_nodes_stats), (1, E_state),
      (0, E_stats), (0, E_nodes), (0, E_nodes_stats), (0, E_all)]"

definition sample_run :: cluster_model where
  "sample_run = fold answer sample_answers sample_start"

lemma sample_run_reach: "cluster_reach sample_run"
proof -
  have "cluster_reach sample_start" unfolding sample_start_def
    by (intro Step [OF _ Error] Step [OF _ Refresh] Init) (simp_all add: start_refresh_def clusterState_init_def)
  moreover have "answerable sample_answers sample_start" by code_simp
  ultimately show ?thesis unfolding sample_run_def by (rule answers_reach)
qed

theorem cluster_view_consistent_witness:
  "cluster_reach sample_run \<and> fired sample_run = [1, 0] \<and> view sample_run = vars (runs sample_run ! 0)"
proof -
  have "fired sample_run = [1, 0]" by code_simp
  with cluster_view_consistent [OF sample_run_reach, of 0] sample_run_reach show ?thesis by simp
qed

text \<open>The handlers below are left over: they call \<open>this.redraw\<close>, which a \<open>ClusterState\<close> does not have.\<close>

definition stale_handler :: "(cluster_view \<Rightarrow> cluster_view) \<Rightarrow> cluster_model \<Rightarrow> jserr \<times> cluster_model" where
  "stale_handler f m = (TypeError, m\<lparr> view := f (view m) \<rparr>)"

section \<open>Preferences\<close>

text \<open>
  The local storage keeps JSON texts. What a text reads back as is all that matters of it, so the store
  keeps that value; \<open>undefined\<close> and functions have no JSON text, what is stored for them does not
  parse, and reading it gives \<open>undefined\<close>. \<open>room\<close> says whether the storage takes the item.
\<close>

function json_value :: "jsval \<Rightarrow> jsval"
  and json_fields :: "obj \<Rightarrow> obj" where
  "json_value v =
     (case v of
        NaN \<Rightarrow> Null
      | Fn f \<Rightarrow> Undef
      | Widget w \<Rightarrow> Undef
      | Arr vs \<Rightarrow> Arr (map (\<lambda>x. if json_value x = Undef then Null else json_value x) vs)
      | Obj fs \<Rightarrow> Obj (json_fields fs)
      | _ \<Rightarrow> v)"
| "json_fields [] = []"
| "json_fields ((k, v) # fs) = (if json_value v = Undef then json_fields fs else (k, json_value v) # json_fields fs)"
  by pat_completeness auto
termination
  by (relation "measures [\<lambda>x. case x of Inl v \<Rightarrow> size v | Inr fs \<Rightarrow> size_list (size_prod (\<lambda>_. 0) size) fs,
                          \<lambda>x. case x of Inl _ \<Rightarrow> 0 | Inr _ \<Rightarrow> 1]")
    (auto simp: less_Suc_eq_le size_list_estimation')

definition setItem :: "bool \<Rightarrow> string \<Rightarrow> jsval \<Rightarrow> jsval dict \<Rightarrow> jsval dict" where
  "setItem room key val st = (if room then dput key (json_value val) st else st)"

definition getItem :: "string \<Rightarrow> jsval dict \<Rightarrow> jsval" where
  "getItem key st = (case map_of st key of None \<Rightarrow> Null | Some v \<Rightarrow> v)"

definition prefs_init :: "bool \<Rightarrow> jsval dict \<Rightarrow> jsval dict" where
  "prefs_init room st = setItem room ''__version'' (Num 1) st"

definition prefs_get :: "string \<Rightarrow> jsval dict \<Rightarrow> jsval" where "prefs_get = getItem"
definition prefs_set :: "bool \<Rightarrow> string \<Rightarrow> jsval \<Rightarrow> jsval dict \<Rightarrow> jsval dict" where "prefs_set = setItem"

declare json_value.simps [simp del]

lemma json_value_atoms [simp]:
  "json_value Undef = Undef" "json_value Null = Null" "json_value (Bool b) = Bool b" "json_value (Num n) = Num n"
  "json_value NaN = Null" "json_value (Str s) = Str s" "json_value (Fn f) = Undef" "json_value (Widget w) = Undef"
  "json_value (Arr vs) = Arr (map (\<lambda>x. if json_value x = Undef then Null else json_value x) vs)"
  "json_value (Obj fs) = Obj (json_fields fs)"
  by (simp_all add: json_value.simps)

lemma json_value_idem: "json_value (json_value v) = json_value v" "json_fields (json_fields fs) = json_fields fs"
proof (induction v and fs rule: json_value_json_fields.induct)
  case (1 v)
  then show ?case by (cases v) auto
qed auto

text \<open>A preference that is set reads back as its JSON value, the others and a storage without room as before, and
  setting what was read changes nothing that can be read.\<close>

theorem prefs_set_get:
  "prefs_get k (prefs_set room k' v st) = (if room \<and> k = k' then json_value v else prefs_get k st)
   \<and> prefs_get k (prefs_set True k (prefs_get k (prefs_set True k v st)) (prefs_set True k v st)) = prefs_get k (prefs_set True k v st)"
  by (simp add: prefs_get_def prefs_set_def setItem_def getItem_def json_value_idem)

end
