(* ===== verification/Panels.thy ===== *)
theory Panels
  imports Dom
begin

text \<open>
  Panels: \<^verbatim>\<open>ui/abstractPanel/abstractPanel.js\<close> with its stack of open panels and the one modal
  layer that all of them share, \<^verbatim>\<open>ui/menuPanel/menuPanel.js\<close>, and the templates of the draggable,
  dialog, info, JSON and help panels.
\<close>

section \<open>The stack of open panels\<close>

record panel =
  p_modal :: bool
  p_autoRemove :: bool
  p_menu :: bool
  p_z :: int
  p_left :: "int option"
  p_removed :: bool

datatype panel_event = Opened nat | Closed nat | Removed nat

text \<open>
  The open panels, the topmost last; the z-index of the modal layer while it is in the document; the close
  handlers bound to \<open>keyup\<close> and \<open>click\<close> of the document, and those a menu is about to bind.
\<close>

record panels =
  pan :: "nat \<Rightarrow> panel"
  stack :: "nat list"
  modal_z :: "int option"
  keyup :: "nat list"
  click :: "nat list"
  timers :: "nat list"
  p_log :: "panel_event list"

definition upd_panel :: "nat \<Rightarrow> (panel \<Rightarrow> panel) \<Rightarrow> panels \<Rightarrow> panels" where
  "upd_panel p f s = s\<lparr> pan := (pan s)(p := f (pan s p)) \<rparr>"

definition p_fire :: "panel_event \<Rightarrow> panels \<Rightarrow> panels" where
  "p_fire e s = s\<lparr> p_log := p_log s @ [e] \<rparr>"

text \<open>The topmost panel that wants a modal gets it just underneath; without one it is removed.\<close>

fun top_modal :: "(nat \<Rightarrow> panel) \<Rightarrow> nat list \<Rightarrow> nat option" where
  "top_modal f [] = None"
| "top_modal f (p # below) = (if p_modal (f p) then Some p else top_modal f below)"

definition setModal :: "panels \<Rightarrow> panels" where
  "setModal s = s\<lparr> modal_z := (case top_modal (pan s) (rev (stack s)) of None \<Rightarrow> None | Some p \<Rightarrow> Some (p_z (pan s p) - 5)) \<rparr>"

text \<open>\<open>position\<close> is the left edge that \<open>_getPosition\<close> computes.\<close>

definition open_panel :: "nat \<Rightarrow> int \<Rightarrow> panels \<Rightarrow> panels" where
  "open_panel p position s =
     (let z = (if stack s \<noteq> [] then p_z (pan s (last (stack s))) + 10 else 100);
          s1 = upd_panel p (\<lambda>x. x\<lparr> p_left := Some position, p_z := z \<rparr>) s;
          s2 = setModal (s1\<lparr> stack := arr_remove p (stack s1) @ [p] \<rparr>);
          s3 = p_fire (Opened p) (s2\<lparr> keyup := keyup s2 @ [p] \<rparr>)
      in if p_menu (pan s p) then s3\<lparr> timers := timers s3 @ [p] \<rparr> else s3)"

definition unbind_keyup :: "nat \<Rightarrow> panels \<Rightarrow> panels" where
  "unbind_keyup p s = s\<lparr> keyup := filter (\<lambda>q. q \<noteq> p) (keyup s) \<rparr>"

text \<open>\<open>this._super()\<close> of \<open>remove\<close>: the element goes, the event fires once, since its observers go too.\<close>

definition widget_remove :: "nat \<Rightarrow> panels \<Rightarrow> panels" where
  "widget_remove p s =
     (if p_removed (pan s p) then s else p_fire (Removed p) (upd_panel p (\<lambda>x. x\<lparr> p_removed := True \<rparr>) s))"

function close_panel :: "nat \<Rightarrow> panels \<Rightarrow> panels"
  and remove_panel :: "nat \<Rightarrow> panels \<Rightarrow> panels" where
  "close_panel p s =
     (case find_index (\<lambda>q. q = p) (stack s) of
        None \<Rightarrow> s
      | Some index \<Rightarrow>
          let s1 = upd_panel p (\<lambda>x. x\<lparr> p_left := Some (-2999) \<rparr>) (s\<lparr> stack := splice1 index (stack s) \<rparr>);
              s2 = p_fire (Closed p) (setModal s1)
          in if p_autoRemove (pan s p) then remove_panel p s2 else s2)"
| "remove_panel p s = widget_remove p (unbind_keyup p (close_panel p s))"
  by pat_completeness auto
termination
  by (relation "measure (\<lambda>x. case x of Inl (p, s) \<Rightarrow> 2 * length (stack s) | Inr (p, s) \<Rightarrow> Suc (2 * length (stack s)))")
    (auto simp: upd_panel_def p_fire_def setModal_def length_splice1 dest!: find_index_Some)

declare close_panel.simps [simp del] remove_panel.simps [simp del]

text \<open>A key closes only if it is escape; a menu also stops listening to clicks.\<close>

definition close_handler :: "int option \<Rightarrow> nat \<Rightarrow> panels \<Rightarrow> panels" where
  "close_handler key p s =
     (let s1 = (case key of
                  Some k \<Rightarrow> if k \<noteq> 27 then s else close_panel p (unbind_keyup p s)
                | None \<Rightarrow> close_panel p (unbind_keyup p s))
      in if p_menu (pan s p) then s1\<lparr> click := filter (\<lambda>q. q \<noteq> p) (click s1) \<rparr> else s1)"

definition key_pressed :: "int \<Rightarrow> panels \<Rightarrow> panels" where
  "key_pressed k s = fold (close_handler (Some k)) (keyup s) s"

definition document_clicked :: "panels \<Rightarrow> panels" where
  "document_clicked s = fold (close_handler None) (click s) s"

definition timer_fired :: "nat \<Rightarrow> panels \<Rightarrow> panels" where
  "timer_fired p s = s\<lparr> timers := remove1 p (timers s), click := click s @ [p] \<rparr>"

text \<open>The panel is centred in the window, at least 5 pixels from its edges.\<close>

definition panel_position :: "vector \<Rightarrow> vector \<Rightarrow> vector \<Rightarrow> vector" where
  "panel_position viewport extent scroll =
     vec_mod (vec_add (vec_mod (vec_sub viewport (vec extent) VUndef) (\<lambda>s. s / 2)) (vec scroll) VUndef) (\<lambda>s. max 5 s)"

text \<open>A menu opens under its button, flush right in a \<open>pull-right\<close> group.\<close>

definition menu_position :: "bool \<Rightarrow> vector \<Rightarrow> vector \<Rightarrow> vector \<Rightarrow> vector" where
  "menu_position right offset extent own_extent =
     vec_addX (vec_addY offset (vy extent)) (if right then vx extent - vx own_extent else 0)"

inductive panel_step :: "panels \<Rightarrow> panels \<Rightarrow> bool" where
  Open: "\<not> p_removed (pan s p) \<Longrightarrow> panel_step s (open_panel p x s)"
| Close: "panel_step s (close_panel p s)"
| Remove: "panel_step s (remove_panel p s)"
| Key: "panel_step s (key_pressed k s)"
| Click: "panel_step s (document_clicked s)"
| Timer: "p \<in> set (timers s) \<Longrightarrow> panel_step s (timer_fired p s)"

inductive panel_reach :: "(nat \<Rightarrow> panel) \<Rightarrow> panels \<Rightarrow> bool" for f :: "nat \<Rightarrow> panel" where
  Start: "panel_reach f \<lparr> pan = f, stack = [], modal_z = None, keyup = [], click = [], timers = [], p_log = [] \<rparr>"
| Step: "panel_reach f s \<Longrightarrow> panel_step s s' \<Longrightarrow> panel_reach f s'"

section \<open>The order of the panels\<close>

definition z_sorted :: "panels \<Rightarrow> bool" where
  "z_sorted s \<longleftrightarrow> sorted_wrt (\<lambda>a b. p_z (pan s a) + 10 \<le> p_z (pan s b)) (stack s) \<and> distinct (stack s)"

definition modal_ok :: "panels \<Rightarrow> bool" where
  "modal_ok s \<longleftrightarrow> modal_z s = modal_z (setModal s)"

definition panels_inv :: "panels \<Rightarrow> bool" where
  "panels_inv s \<longleftrightarrow> z_sorted s \<and> modal_ok s"

lemma setModal_simps [simp]:
  "pan (setModal s) = pan s" "stack (setModal s) = stack s" "keyup (setModal s) = keyup s" "click (setModal s) = click s"
  "timers (setModal s) = timers s"
  by (simp_all add: setModal_def)

lemma modal_ok_setModal [simp]: "modal_ok (setModal s)"
  by (simp add: modal_ok_def setModal_def split: option.split)

text \<open>The rest of the state does not matter.\<close>

lemma top_modal_cong: "(\<And>q. p_modal (f q) = p_modal (g q)) \<Longrightarrow> top_modal f qs = top_modal g qs"
  by (induction qs) simp_all

lemma panels_inv_cong:
  assumes "panels_inv s" "stack s' = stack s" "modal_z s' = modal_z s"
    "\<And>q. p_z (pan s' q) = p_z (pan s q) \<and> p_modal (pan s' q) = p_modal (pan s q)"
  shows "panels_inv s'"
  using assms top_modal_cong [of "pan s'" "pan s" "rev (stack s)"]
  by (simp add: panels_inv_def z_sorted_def modal_ok_def setModal_def split: option.split)

lemma z_sorted_last:
  assumes "z_sorted s" "q \<in> set (stack s)"
  shows "p_z (pan s q) \<le> p_z (pan s (last (stack s)))"
proof -
  obtain ys y where ys: "stack s = ys @ [y]" using assms(2) by (cases "stack s" rule: rev_cases) auto
  with assms show ?thesis by (auto simp: z_sorted_def sorted_wrt_append)
qed

lemma sorted_wrt_remove1: "sorted_wrt P xs \<Longrightarrow> sorted_wrt P (remove1 x xs)"
  by (induction xs) (auto dest: notin_set_remove1)

lemma open_panel_inv:
  assumes "panels_inv s"
  shows "panels_inv (open_panel p x s)"
proof -
  define z where "z = (if stack s \<noteq> [] then p_z (pan s (last (stack s))) + 10 else 100)"
  define s1 where "s1 = (upd_panel p (\<lambda>y. y\<lparr> p_left := Some x, p_z := z \<rparr>) s)\<lparr> stack := remove1 p (stack s) @ [p] \<rparr>"
  have zs: "z_sorted s" using assms by (simp add: panels_inv_def)
  have z: "p_z (pan s q) + 10 \<le> z" if "q \<in> set (stack s)" for q
    using z_sorted_last [OF zs that] that by (auto simp: z_def)
  have p1: "pan s1 = (pan s)(p := (pan s p)\<lparr> p_left := Some x, p_z := z \<rparr>)" "stack s1 = remove1 p (stack s) @ [p]"
    by (simp_all add: s1_def upd_panel_def)
  have np: "p \<notin> set (remove1 p (stack s))" using zs by (simp add: z_sorted_def)
  have "sorted_wrt (\<lambda>a b. p_z (pan s1 a) + 10 \<le> p_z (pan s1 b)) (remove1 p (stack s))"
    using np zs sorted_wrt_remove1 [of "\<lambda>a b. p_z (pan s a) + 10 \<le> p_z (pan s b)" "stack s" p]
    by (auto simp: p1 z_sorted_def elim!: sorted_wrt_mono_rel [rotated])
  then have "z_sorted s1"
    using zs np z by (auto simp: z_sorted_def p1 sorted_wrt_append dest: notin_set_remove1)
  then have "panels_inv (setModal s1)" by (simp add: panels_inv_def z_sorted_def)
  moreover have "pan (open_panel p x s) = pan (setModal s1)" "stack (open_panel p x s) = stack (setModal s1)"
    "modal_z (open_panel p x s) = modal_z (setModal s1)"
    by (simp_all add: open_panel_def Let_def p_fire_def s1_def z_def upd_panel_def)
  ultimately show ?thesis using panels_inv_cong [of "setModal s1" "open_panel p x s"] by simp
qed

lemma widget_remove_inv: "panels_inv s \<Longrightarrow> panels_inv (widget_remove p s)"
  by (rule panels_inv_cong [of s]) (simp_all add: widget_remove_def p_fire_def upd_panel_def)

lemma unbind_keyup_inv: "panels_inv s \<Longrightarrow> panels_inv (unbind_keyup p s)"
  by (rule panels_inv_cong [of s]) (simp_all add: unbind_keyup_def)

lemma closed_inv:
  assumes "panels_inv s" "find_index (\<lambda>q. q = p) (stack s) = Some i"
  shows "panels_inv (p_fire (Closed p) (setModal (upd_panel p (\<lambda>x. x\<lparr> p_left := Some (-2999) \<rparr>) (s\<lparr> stack := splice1 i (stack s) \<rparr>))))"
proof -
  let ?s1 = "upd_panel p (\<lambda>x. x\<lparr> p_left := Some (-2999) \<rparr>) (s\<lparr> stack := splice1 i (stack s) \<rparr>)"
  have "sorted_wrt (\<lambda>a b. p_z (pan ?s1 a) + 10 \<le> p_z (pan ?s1 b)) (remove1 p (stack s))"
    using assms(1) sorted_wrt_remove1 [of "\<lambda>a b. p_z (pan s a) + 10 \<le> p_z (pan s b)" "stack s" p]
    by (auto simp: upd_panel_def panels_inv_def z_sorted_def elim!: sorted_wrt_mono_rel [rotated])
  then have "panels_inv (setModal ?s1)"
    using assms by (simp add: panels_inv_def z_sorted_def upd_panel_def splice1_find_index_Some)
  then show ?thesis by (rule panels_inv_cong) (simp_all add: p_fire_def)
qed

lemma close_panel_inv:
  "panels_inv s \<Longrightarrow> panels_inv (close_panel p s)" "panels_inv s \<Longrightarrow> panels_inv (remove_panel p s)"
proof (induction p s and p s rule: close_panel_remove_panel.induct)
  case (1 p s)
  then show ?case
    using closed_inv [OF 1(2)] by (simp add: close_panel.simps [of p s] Let_def split: option.split)
next
  case (2 p s)
  then show ?case by (simp add: remove_panel.simps [of p s] widget_remove_inv unbind_keyup_inv)
qed

lemma close_handler_inv: "panels_inv s \<Longrightarrow> panels_inv (close_handler k p s)"
proof -
  assume s: "panels_inv s"
  have "panels_inv (case k of Some k \<Rightarrow> if k \<noteq> 27 then s else close_panel p (unbind_keyup p s) | None \<Rightarrow> close_panel p (unbind_keyup p s))"
    using s by (auto split: option.split intro: close_panel_inv unbind_keyup_inv)
  then show ?thesis unfolding close_handler_def Let_def by (auto intro: panels_inv_cong)
qed

lemma fold_handler_inv: "panels_inv s \<Longrightarrow> panels_inv (fold (close_handler k) qs s)"
  by (induction qs arbitrary: s) (simp_all add: close_handler_inv)

lemma panel_reach_inv: "panel_reach f s \<Longrightarrow> panels_inv s"
proof (induction rule: panel_reach.induct)
  case Start
  then show ?case by (simp add: panels_inv_def z_sorted_def modal_ok_def setModal_def)
next
  case (Step s s')
  from Step(2,3) show ?case
  proof (cases rule: panel_step.cases)
    case (Timer p)
    with Step(3) show ?thesis by (auto simp: timer_fired_def intro: panels_inv_cong)
  qed (simp_all add: open_panel_inv close_panel_inv key_pressed_def document_clicked_def fold_handler_inv)
qed

lemma top_modal_split:
  "top_modal f qs = Some p \<Longrightarrow> \<exists>above below. qs = above @ p # below \<and> p_modal (f p) \<and> list_all (\<lambda>q. \<not> p_modal (f q)) above"
proof (induction qs)
  case (Cons q qs)
  show ?case
  proof (cases "p_modal (f q)")
    case True
    with Cons.prems show ?thesis by (intro exI [of _ "[]"] exI [of _ qs]) auto
  next
    case False
    with Cons obtain above below where "qs = above @ p # below" "p_modal (f p)" "list_all (\<lambda>q. \<not> p_modal (f q)) above" by auto
    with False show ?thesis by (intro exI [of _ "q # above"] exI [of _ below]) auto
  qed
qed simp

lemma top_modal_None: "top_modal f qs = None \<longleftrightarrow> list_all (\<lambda>q. \<not> p_modal (f q)) qs"
  by (induction qs) auto

text \<open>C9: Whatever panels are opened, closed and removed, by calls, keys or clicks, the modal layer lies directly under the
  topmost open panel that is modal: above every panel below that one, below that one and every panel above
  it; and it is out of the document exactly when no open panel is modal.\<close>

theorem modal_under_topmost:
  assumes "panel_reach f s"
  shows "case modal_z s of
      None \<Rightarrow> list_all (\<lambda>q. \<not> p_modal (pan s q)) (stack s)
    | Some m \<Rightarrow> \<exists>below p above. stack s = below @ p # above \<and> p_modal (pan s p) \<and> list_all (\<lambda>q. \<not> p_modal (pan s q)) above
        \<and> list_all (\<lambda>q. p_z (pan s q) < m) below \<and> list_all (\<lambda>q. m < p_z (pan s q)) (p # above)"
proof -
  have inv: "panels_inv s" by (rule panel_reach_inv [OF assms])
  show ?thesis
  proof (cases "top_modal (pan s) (rev (stack s))")
    case None
    with inv have "modal_z s = None" by (simp add: panels_inv_def modal_ok_def setModal_def)
    with None show ?thesis by (auto simp: top_modal_None list_all_iff)
  next
    case (Some p)
    with inv have m: "modal_z s = Some (p_z (pan s p) - 5)" by (simp add: panels_inv_def modal_ok_def setModal_def)
    from top_modal_split [OF Some] obtain above below where "rev (stack s) = above @ p # below"
      and p: "p_modal (pan s p)" "list_all (\<lambda>q. \<not> p_modal (pan s q)) above" by blast
    then have st: "stack s = rev below @ p # rev above" by (simp add: rev_swap)
    have "sorted_wrt (\<lambda>a b. p_z (pan s a) + 10 \<le> p_z (pan s b)) (rev below @ p # rev above)"
      using inv by (simp add: panels_inv_def z_sorted_def st)
    then have "list_all (\<lambda>q. p_z (pan s q) < p_z (pan s p) - 5) (rev below)"
      "list_all (\<lambda>q. p_z (pan s p) - 5 < p_z (pan s q)) (p # rev above)"
      by (force simp: sorted_wrt_append list_all_iff)+
    with m st p show ?thesis
      by simp (rule exI [of _ "rev below"], rule exI [of _ p], rule exI [of _ "rev above"], simp)
  qed
qed

text \<open>Three dialogs of which the middle one is not modal.\<close>

definition sample_panel :: "nat \<Rightarrow> panel" where
  "sample_panel p = \<lparr> p_modal = (p \<noteq> 1), p_autoRemove = False, p_menu = False, p_z = 0, p_left = None, p_removed = False \<rparr>"

definition sample_panels :: panels where
  "sample_panels = close_panel 2 (fold (\<lambda>p. open_panel p 5) [0, 1, 2]
     \<lparr> pan = sample_panel, stack = [], modal_z = None, keyup = [], click = [], timers = [], p_log = [] \<rparr>)"

lemma sample_panels_reach: "panel_reach sample_panel sample_panels"
proof -
  let ?s = "\<lparr> pan = sample_panel, stack = [], modal_z = None, keyup = [], click = [], timers = [], p_log = [] \<rparr>"
  have "panel_reach sample_panel (open_panel 2 5 (open_panel 1 5 (open_panel 0 5 ?s)))"
    by (intro panel_reach.Step [OF _ Open] Start)
      (simp_all add: open_panel_def p_fire_def upd_panel_def sample_panel_def Let_def)
  from panel_reach.Step [OF this Close, of 2] show ?thesis by (simp add: sample_panels_def)
qed

theorem modal_under_topmost_witness:
  "panel_reach sample_panel sample_panels \<and> stack sample_panels = [0, 1] \<and> modal_z sample_panels = Some 95"
proof -
  have "stack sample_panels = [0, 1] \<and> modal_z sample_panels = Some 95" by code_simp
  with sample_panels_reach modal_under_topmost [OF sample_panels_reach] show ?thesis by simp
qed

section \<open>The escape key\<close>

lemma stack_simps [simp]:
  "stack (p_fire e s) = stack s" "keyup (p_fire e s) = keyup s" "stack (upd_panel p f s) = stack s" "keyup (upd_panel p f s) = keyup s"
  "stack (unbind_keyup p s) = stack s" "keyup (unbind_keyup p s) = filter (\<lambda>q. q \<noteq> p) (keyup s)"
  "stack (widget_remove p s) = stack s" "keyup (widget_remove p s) = keyup s"
  by (simp_all add: p_fire_def upd_panel_def unbind_keyup_def widget_remove_def)

lemma close_absent: "p \<notin> set (stack s) \<Longrightarrow> close_panel p s = s"
  by (simp add: close_panel.simps [of p s] find_index_None split: option.split) (auto dest: find_index_Some)

lemma close_panel_effect:
  assumes "distinct (stack s)"
  shows "stack (close_panel p s) = remove1 p (stack s) \<and> set (keyup s) - {p} \<subseteq> set (keyup (close_panel p s))"
proof (cases "find_index (\<lambda>q. q = p) (stack s)")
  case None
  then have "p \<notin> set (stack s)" by (auto simp: find_index_None)
  then show ?thesis by (auto simp: close_absent remove1_idem)
next
  case (Some i)
  define s2 where "s2 = p_fire (Closed p) (setModal (upd_panel p (\<lambda>x. x\<lparr> p_left := Some (-2999) \<rparr>) (s\<lparr> stack := splice1 i (stack s) \<rparr>)))"
  have c: "close_panel p s = (if p_autoRemove (pan s p) then remove_panel p s2 else s2)"
    using Some by (simp add: close_panel.simps [of p s] s2_def Let_def)
  have st: "stack s2 = remove1 p (stack s)" "keyup s2 = keyup s"
    using splice1_find_index_Some [OF Some] by (simp_all add: s2_def)
  then have "p \<notin> set (stack s2)" using assms by simp
  then have "remove_panel p s2 = widget_remove p (unbind_keyup p s2)" by (simp add: remove_panel.simps [of p s2] close_absent)
  with st show ?thesis by (auto simp: c)
qed

definition listening :: "panels \<Rightarrow> bool" where
  "listening s \<longleftrightarrow> distinct (stack s) \<and> set (stack s) \<subseteq> set (keyup s)"

lemma close_panel_listening: "listening s \<Longrightarrow> listening (close_panel p s)"
  using close_panel_effect [of s p] by (auto simp: listening_def)

lemma remove_panel_listening: "listening s \<Longrightarrow> listening (remove_panel p s)"
  using close_panel_effect [of s p] by (auto simp: listening_def remove_panel.simps [of p s])

lemma close_handler_stack:
  assumes "listening s"
  shows "stack (close_handler k p s) = (if k = None \<or> k = Some 27 then remove1 p (stack s) else stack s) \<and> listening (close_handler k p s)"
proof -
  have "listening (close_panel p (unbind_keyup p s)) \<and> stack (close_panel p (unbind_keyup p s)) = remove1 p (stack s)"
    using close_panel_effect [of "unbind_keyup p s" p] assms by (auto simp: listening_def)
  with assms show ?thesis
    by (auto simp: close_handler_def Let_def listening_def split: option.split)
qed

lemma handlers_stack:
  "listening s \<Longrightarrow> k = None \<or> k = Some 27 \<Longrightarrow>
   listening (fold (close_handler k) qs s) \<and> set (stack (fold (close_handler k) qs s)) = set (stack s) - set qs"
proof (induction qs arbitrary: s)
  case (Cons q qs)
  have "set (remove1 q (stack s)) = set (stack s) - {q}" using Cons.prems(1) by (simp add: listening_def)
  with Cons close_handler_stack [OF Cons.prems(1), of k q] show ?case by auto
qed simp

lemma other_keys: "listening s \<Longrightarrow> listening (fold (close_handler (Some k)) qs s)"
  by (induction qs arbitrary: s) (simp_all add: close_handler_stack)

lemma reach_listening: "panel_reach f s \<Longrightarrow> listening s"
proof (induction rule: panel_reach.induct)
  case (Step s s')
  from Step(2,3) show ?case
  proof (cases rule: panel_step.cases)
    case (Open p x)
    with Step(3) show ?thesis
      by (auto simp: listening_def open_panel_def Let_def dest: notin_set_remove1)
  next
    case Click
    with Step(3) handlers_stack [of s None "click s"] show ?thesis by (simp add: document_clicked_def)
  next
    case (Timer p)
    with Step(3) show ?thesis by (simp add: timer_fired_def listening_def)
  qed (simp_all add: close_panel_listening remove_panel_listening key_pressed_def other_keys)
qed (simp add: listening_def)

text \<open>One press of escape closes every open panel, not only the topmost: each of them listens to the document
  for itself.\<close>

theorem escape_closes_all:
  assumes "panel_reach f s"
  shows "stack (key_pressed 27 s) = []"
proof -
  have l: "listening s" by (rule reach_listening [OF assms])
  then have "set (stack s) - set (keyup s) = {}" by (auto simp: listening_def)
  with handlers_stack [OF l, of "Some 27" "keyup s"] have "set (stack (key_pressed 27 s)) = {}"
    by (simp add: key_pressed_def)
  then show ?thesis by simp
qed

theorem escape_closes_all_witness: "stack sample_panels = [0, 1] \<and> stack (key_pressed 27 sample_panels) = []"
proof -
  have "stack sample_panels = [0, 1]" by code_simp
  with escape_closes_all [OF sample_panels_reach] show ?thesis by simp
qed

section \<open>The templates of the panels\<close>

definition el :: "string \<Rightarrow> obj \<Rightarrow> jsval" where
  "el tag rest = Obj ((''tag'', Str tag) # rest)"

text \<open>The content of a draggable panel; \<open>height\<close> is \<open>'auto'\<close> or a number of pixels.\<close>

definition panel_body_template :: "jsval \<Rightarrow> jsval \<Rightarrow> jsval" where
  "panel_body_template height body =
     el ''DIV'' [(''cls'', Str ''uiPanel-body''),
       (''css'', Obj [(''height'', Str (to_string height @ (if height = Str ''auto'' then [] else ''px'')))]), (''children'', Arr [body])]"

definition title_template :: "jsval \<Rightarrow> jsval" where
  "title_template title = el ''SPAN'' [(''cls'', Str ''uiPanel-title''), (''text'', title)]"

definition draggable_template :: "jsval \<Rightarrow> string \<Rightarrow> jsval \<Rightarrow> jsval \<Rightarrow> jsval list \<Rightarrow> jsval" where
  "draggable_template wid baseCls title body extra =
     el ''DIV'' [(''id'', wid), (''cls'', Str baseCls), (''children'', Arr ([
       el ''DIV'' [(''cls'', Str ''uiPanel-titleBar''), (''children'', Arr [
         el ''DIV'' [(''cls'', Str ''uiPanel-close''), (''onclick'', Fn ''_close_handler''), (''text'', Str ''x'')],
         title])],
       body] @ extra))]"

definition actionsBar_template :: "nat \<Rightarrow> nat \<Rightarrow> jsval" where
  "actionsBar_template cancel ok = el ''DIV'' [(''cls'', Str ''pull-right''), (''children'', Arr [Widget cancel, Widget ok])]"

definition dialog_template :: "jsval \<Rightarrow> jsval \<Rightarrow> jsval \<Rightarrow> nat \<Rightarrow> nat \<Rightarrow> jsval" where
  "dialog_template wid title body cancel ok = draggable_template wid ''uiPanel'' title body [actionsBar_template cancel ok]"

definition json_body :: "jsval \<Rightarrow> nat \<Rightarrow> jsval" where
  "json_body height pretty =
     el ''DIV'' [(''cls'', Str ''uiPanel-body''),
       (''css'', Obj [(''height'', Str (to_string height @ (if height = Str ''auto'' then [] else ''px'')))]), (''children'', Arr [Widget pretty])]"

record menu_item =
  mi_text :: string
  mi_disabled :: bool
  mi_selected :: bool
  mi_onclick :: string

definition menuItem_template :: "menu_item \<Rightarrow> jsval" where
  "menuItem_template item =
     el ''LI'' [(''cls'', Str (''uiMenuPanel-item'' @ (if mi_disabled item then '' disabled'' else []) @ (if mi_selected item then '' selected'' else []))),
       (''children'', Arr [Obj [(''tag'', Str ''DIV''), (''cls'', Str ''uiMenuPanel-label''), (''text'', Str (mi_text item)),
         (''disabled'', Bool (mi_disabled item)), (''selected'', Bool (mi_selected item)),
         (''onclick'', Fn (if mi_disabled item then [] else mi_onclick item))]])]"

definition menu_template :: "string \<Rightarrow> menu_item list \<Rightarrow> jsval" where
  "menu_template baseCls items = el ''DIV'' [(''cls'', Str baseCls), (''children'', Arr (map menuItem_template items))]"

end
