(* ===== verification/Widgets.thy ===== *)
theory Widgets
  imports Panels Templates
begin

text \<open>
  The small widgets of \<^verbatim>\<open>ui/\<close>: fields and forms (with \<^verbatim>\<open>ux/fieldCollection.js\<close>),
  buttons and menus, sidebar sections, toolbars and pages; and \<^verbatim>\<open>ux/dragdrop.js\<close>.
\<close>

section \<open>Every widget\<close>

definition widget_id :: "string option \<Rightarrow> string option \<Rightarrow> jsval" where
  "widget_id config_id suffix =
     (case config_id of
        None \<Rightarrow> Undef
      | Some i \<Rightarrow> if i = [] then Undef
                  else Str (i @ (case suffix of None \<Rightarrow> [] | Some x \<Rightarrow> if x = [] then [] else ''-'' @ x)))"

datatype widget_event = Attached | Gone

text \<open>Whether the element is in a parent; \<open>None\<close> is the element of a removed widget.\<close>

record widget =
  w_el :: "bool option"
  w_observed :: bool
  w_events :: "widget_event list"

definition widget_fire :: "widget_event \<Rightarrow> widget \<Rightarrow> widget" where
  "widget_fire e w = (if w_observed w then w\<lparr> w_events := w_events w @ [e] \<rparr> else w)"

definition attach :: "bool \<Rightarrow> widget \<Rightarrow> widget res" where
  "attach parent w =
     (if parent then (case w_el w of None \<Rightarrow> Inl TypeError | Some _ \<Rightarrow> Inr (widget_fire Attached (w\<lparr> w_el := Some True \<rparr>)))
      else Inr (widget_fire Attached w))"

definition remove_widget :: "widget \<Rightarrow> widget" where
  "remove_widget w = (widget_fire Gone w)\<lparr> w_observed := False, w_el := None \<rparr>"

section \<open>Fields\<close>

text \<open>\<open>require\<close> is false, true, or a test (of a regular expression or a function).\<close>

datatype requirement = Optional | Required | Test "string \<Rightarrow> bool"

record text_field =
  tf_name :: string
  tf_label :: string
  tf_require :: requirement
  tf_value :: string

record check_field =
  cf_name :: string
  cf_label :: string
  cf_require :: bool
  cf_checked :: bool

datatype form_item = Text_field text_field | Check_field check_field

definition text_validate :: "text_field \<Rightarrow> bool" where
  "text_validate f =
     (case tf_require f of Optional \<Rightarrow> True | Required \<Rightarrow> length (tf_value f) > 0 | Test p \<Rightarrow> p (tf_value f))"

definition check_validate :: "check_field \<Rightarrow> bool" where
  "check_validate f \<longleftrightarrow> cf_checked f \<or> \<not> cf_require f"

fun field_validate :: "form_item \<Rightarrow> bool" where
  "field_validate (Text_field f) = text_validate f"
| "field_validate (Check_field f) = check_validate f"

fun field_val :: "form_item \<Rightarrow> jsval" where
  "field_val (Text_field f) = Str (tf_value f)"
| "field_val (Check_field f) = Bool (cf_checked f)"

fun field_set :: "jsval \<Rightarrow> form_item \<Rightarrow> form_item" where
  "field_set v (Text_field f) = Text_field (f\<lparr> tf_value := to_string v \<rparr>)"
| "field_set v (Check_field f) = Check_field (f\<lparr> cf_checked := truthy v \<rparr>)"

fun field_name :: "form_item \<Rightarrow> string" where
  "field_name (Text_field f) = tf_name f"
| "field_name (Check_field f) = cf_name f"

fun field_label :: "form_item \<Rightarrow> string" where
  "field_label (Text_field f) = tf_label f"
| "field_label (Check_field f) = cf_label f"

definition text_template :: "jsval \<Rightarrow> string \<Rightarrow> jsval \<Rightarrow> jsval" where
  "text_template wid name placeholder =
     el ''DIV'' [(''id'', wid), (''cls'', Str ''uiField uiTextField''), (''children'', Arr [
       el ''INPUT'' [(''type'', Str ''text''), (''name'', Str name), (''placeholder'', placeholder), (''onkeyup'', Fn ''_keyup_handler'')]])]"

definition check_template :: "jsval \<Rightarrow> string \<Rightarrow> jsval \<Rightarrow> jsval" where
  "check_template wid name val =
     el ''DIV'' [(''id'', wid), (''cls'', Str ''uiCheckField''), (''children'', Arr [
       el ''INPUT'' [(''type'', Str ''checkbox''), (''name'', Str name), (''checked'', Bool (truthy val))]])]"

section \<open>Field collections\<close>

definition fc_validate :: "('f \<Rightarrow> bool) \<Rightarrow> 'f list \<Rightarrow> bool" where
  "fc_validate validate fds = foldl (\<lambda>r f. r \<and> validate f) True fds"

definition fc_getData :: "('f \<Rightarrow> string) \<Rightarrow> ('f \<Rightarrow> jsval) \<Rightarrow> 'f list \<Rightarrow> obj" where
  "fc_getData name val fds = foldl (\<lambda>r f. dput (name f) (val f) r) [] fds"

text \<open>What a collection relies on in its fields: setting a value does not change the name.\<close>

locale form_field =
  fixes validate :: "'f \<Rightarrow> bool" and val :: "'f \<Rightarrow> jsval" and name :: "'f \<Rightarrow> string" and put :: "jsval \<Rightarrow> 'f \<Rightarrow> 'f"
  assumes name_put: "name (put v f) = name f"
    and put_val: "put (val f) f = f"
begin

lemma validate_all: "fc_validate validate fs \<longleftrightarrow> list_all validate fs"
proof -
  have "foldl (\<lambda>r f. r \<and> validate f) b fs \<longleftrightarrow> b \<and> list_all validate fs" for b
    by (induction fs arbitrary: b) auto
  then show ?thesis by (simp add: fc_validate_def)
qed

lemma getData_acc:
  "f \<in> set fs \<Longrightarrow> distinct (map name fs) \<Longrightarrow> dget (foldl (\<lambda>r f. dput (name f) (val f) r) d fs) (name f) = val f"
proof (induction fs arbitrary: d)
  case (Cons g fs)
  have keep: "k \<notin> name ` set gs \<Longrightarrow> dget (foldl (\<lambda>r f. dput (name f) (val f) r) d gs) k = dget d k" for k gs d
    by (induction gs arbitrary: d) auto
  from Cons show ?case by (auto simp: keep)
qed simp

lemma getData_val: "f \<in> set fs \<Longrightarrow> distinct (map name fs) \<Longrightarrow> dget (fc_getData name val fs) (name f) = val f"
  by (simp add: fc_getData_def getData_acc)

lemma getData_other: "k \<notin> set (map name fs) \<Longrightarrow> dget (fc_getData name val fs) k = Undef"
proof -
  have "k \<notin> set (map name fs) \<Longrightarrow> dget (foldl (\<lambda>r f. dput (name f) (val f) r) d fs) k = dget d k" for d
    by (induction fs arbitrary: d) auto
  then show "k \<notin> set (map name fs) \<Longrightarrow> ?thesis" by (simp add: fc_getData_def)
qed

lemma names_put: "i < length fs \<Longrightarrow> map name (fs[i := put v (fs ! i)]) = map name fs"
  by (simp add: map_update name_put list_update_same_conv)

text \<open>Setting one field changes its own entry only.\<close>

lemma getData_put:
  assumes "i < length fs" "distinct (map name fs)" "k \<noteq> name (fs ! i)"
  shows "dget (fc_getData name val (fs[i := put v (fs ! i)])) k = dget (fc_getData name val fs) k"
proof (cases "k \<in> set (map name fs)")
  case False
  then have "k \<notin> set (map name (fs[i := put v (fs ! i)]))" by (simp add: names_put [OF assms(1)])
  with False show ?thesis by (simp add: getData_other)
next
  case True
  then obtain j where j: "j < length fs" "k = name (fs ! j)" by (auto simp: in_set_conv_nth)
  then have "j \<noteq> i" using assms(3) by auto
  then have "fs[i := put v (fs ! i)] ! j = fs ! j" by simp
  moreover have "distinct (map name (fs[i := put v (fs ! i)]))" using assms by (simp add: names_put)
  ultimately show ?thesis
    using getData_val [of "fs ! j" "fs[i := put v (fs ! i)]"] getData_val [of "fs ! j" fs] j assms(2)
    by (metis length_list_update nth_mem)
qed

end

interpretation ff: form_field field_validate field_val field_name field_set
proof
  fix v f
  show "field_name (field_set v f) = field_name f" by (cases f) simp_all
  show "field_set (field_val f) f = f" by (cases f) simp_all
qed

text \<open>C37: A collection of fields with distinct names is valid exactly when each of its fields is, its data holds every
  field's value under its name, and setting one field changes that entry only.\<close>

theorem form_data:
  assumes "distinct (map field_name fs)" "i < length fs"
  shows "(fc_validate field_validate fs \<longleftrightarrow> list_all field_validate fs)
    \<and> list_all (\<lambda>f. dget (fc_getData field_name field_val fs) (field_name f) = field_val f) fs
    \<and> (k \<noteq> field_name (fs ! i) \<longrightarrow>
         dget (fc_getData field_name field_val (fs[i := field_set v (fs ! i)])) k = dget (fc_getData field_name field_val fs) k)"
  using assms by (auto simp: ff.validate_all list_all_iff ff.getData_val ff.getData_put)

theorem form_data_witness:
  "dget (fc_getData field_name field_val
     ([Text_field \<lparr> tf_name = ''name'', tf_label = [], tf_require = Required, tf_value = ''x'' \<rparr>,
       Check_field \<lparr> cf_name = ''ok'', cf_label = [], cf_require = True, cf_checked = False \<rparr>][0 := Text_field \<lparr> tf_name = ''name'', tf_label = [], tf_require = Required, tf_value = ''y'' \<rparr>])) ''ok'' = Bool False"
  using form_data [of "[Text_field \<lparr> tf_name = ''name'', tf_label = [], tf_require = Required, tf_value = ''x'' \<rparr>,
       Check_field \<lparr> cf_name = ''ok'', cf_label = [], cf_require = True, cf_checked = False \<rparr>]" 0 "''ok''" "Str ''y''"]
  by (simp add: fc_getData_def)

definition panelForm_field :: "form_item \<Rightarrow> nat \<Rightarrow> jsval \<Rightarrow> jsval" where
  "panelForm_field f w require =
     el ''LABEL'' [(''cls'', Str ''uiPanelForm-field''), (''children'', Arr [
       el ''DIV'' [(''cls'', Str ''uiPanelForm-label''), (''children'', Arr [Str (field_label f), require])], Widget w])]"

definition panelForm_template :: "jsval \<Rightarrow> jsval list \<Rightarrow> jsval" where
  "panelForm_template wid rows = el ''DIV'' [(''id'', wid), (''cls'', Str ''uiPanelForm''), (''children'', Arr rows)]"

section \<open>Buttons\<close>

record button =
  b_label :: string
  b_autoDisable :: bool
  b_disabled :: bool
  b_clicks :: nat

definition disable :: "bool \<Rightarrow> button \<Rightarrow> button" where
  "disable flag b = b\<lparr> b_disabled := flag \<rparr>"

definition enable :: "button \<Rightarrow> button" where
  "enable b = b\<lparr> b_disabled := False \<rparr>"

definition button_init :: "string \<Rightarrow> bool \<Rightarrow> bool \<Rightarrow> button" where
  "button_init label disabled autoDisable =
     (let b = \<lparr> b_label = label, b_autoDisable = autoDisable, b_disabled = False, b_clicks = 0 \<rparr>
      in if disabled then disable True b else b)"

text \<open>\<open>b_clicks\<close> counts the events \<open>click\<close> that were fired.\<close>

definition click_handler :: "button \<Rightarrow> button" where
  "click_handler b =
     (if \<not> b_disabled b
      then let b1 = b\<lparr> b_clicks := Suc (b_clicks b) \<rparr> in if b_autoDisable b then disable True b1 else b1
      else b)"

definition button_template :: "jsval \<Rightarrow> string \<Rightarrow> jsval \<Rightarrow> jsval" where
  "button_template wid baseCls label =
     el ''BUTTON'' [(''type'', Str ''button''), (''id'', wid), (''cls'', Str baseCls), (''children'', Arr [
       el ''DIV'' [(''cls'', Str ''uiButton-content''), (''children'', Arr [
         el ''DIV'' [(''cls'', Str ''uiButton-label''), (''text'', label)]])]])]"

text \<open>A button that disables itself fires once however often it is clicked, until it is enabled again; a
  disabled one never fires.\<close>

theorem autoDisable_fires_once:
  assumes "b_autoDisable b" "0 < n"
  shows "b_clicks ((click_handler ^^ n) b) = b_clicks b + (if b_disabled b then 0 else 1)
    \<and> b_disabled ((click_handler ^^ n) b) \<and> \<not> b_disabled (enable ((click_handler ^^ n) b))"
proof -
  have "b_autoDisable ((click_handler ^^ k) b) \<and>
      (k = 0 \<or> b_disabled ((click_handler ^^ k) b) \<and> b_clicks ((click_handler ^^ k) b) = b_clicks b + (if b_disabled b then 0 else 1))" for k
  proof (induction k)
    case (Suc k)
    then show ?case using assms(1) by (cases "k = 0") (auto simp: click_handler_def disable_def Let_def)
  qed (simp add: assms(1))
  from this [of n] assms(2) show ?thesis by (simp add: enable_def)
qed

theorem autoDisable_fires_once_witness:
  "b_clicks ((click_handler ^^ 3) (button_init ''go'' False True)) = 1"
  using autoDisable_fires_once [of "button_init ''go'' False True" 3] by (simp add: button_init_def)

section \<open>Menus of choices and the refresh button\<close>

record choice =
  c_text :: string
  c_value :: int

record select_menu =
  sm_items :: "choice list"
  sm_value :: "int option"
  sm_selected :: "bool list"
  sm_events :: "int list"

definition select_items :: "choice list \<Rightarrow> int option \<Rightarrow> bool list" where
  "select_items items value = map (\<lambda>i. value = Some (c_value i)) items"

definition select_init :: "choice list \<Rightarrow> int option \<Rightarrow> select_menu" where
  "select_init items value =
     \<lparr> sm_items = items, sm_value = value, sm_selected = select_items items value, sm_events = [] \<rparr>"

text \<open>A click on an item marks it alone, fires \<open>select\<close> with its value, and only then changes the value.\<close>

definition select_click :: "nat \<Rightarrow> select_menu \<Rightarrow> select_menu" where
  "select_click i m =
     (let v = c_value (sm_items m ! i)
      in m\<lparr> sm_selected := (map (\<lambda>_. False) (sm_items m))[i := True], sm_events := sm_events m @ [v], sm_value := Some v \<rparr>)"

text \<open>The intervals that the window runs, with their periods; a new interval gets a number never used.\<close>

record refresh_button =
  rb_value :: int
  rb_timer :: "nat option"
  intervals :: "(nat \<times> int) list"
  next_timer :: nat
  rb_events :: "string list"
  rb_menu :: select_menu

definition rb_set :: "int \<Rightarrow> refresh_button \<Rightarrow> refresh_button" where
  "rb_set value b =
     (let b1 = b\<lparr> rb_value := value,
                  intervals := (case rb_timer b of None \<Rightarrow> intervals b | Some t \<Rightarrow> filter (\<lambda>(i, _). i \<noteq> t) (intervals b)) \<rparr>
      in if value > 0
         then b1\<lparr> rb_timer := Some (next_timer b1), intervals := intervals b1 @ [(next_timer b1, value)], next_timer := Suc (next_timer b1) \<rparr>
         else b1)"

definition rb_items :: "(string \<Rightarrow> string) \<Rightarrow> choice list" where
  "rb_items tr =
     [\<lparr> c_text = tr ''General.ManualRefresh'', c_value = -1 \<rparr>, \<lparr> c_text = tr ''General.RefreshQuickly'', c_value = 100 \<rparr>,
      \<lparr> c_text = tr ''General.Refresh5seconds'', c_value = 5000 \<rparr>, \<lparr> c_text = tr ''General.Refresh1minute'', c_value = 60000 \<rparr>]"

definition rb_init :: "(string \<Rightarrow> string) \<Rightarrow> int \<Rightarrow> refresh_button" where
  "rb_init tr timer =
     rb_set timer \<lparr> rb_value = 0, rb_timer = None, intervals = [], next_timer = 0, rb_events = [],
       rb_menu = select_init (rb_items tr) None \<rparr>"

definition rb_refresh :: "refresh_button \<Rightarrow> refresh_button" where
  "rb_refresh b = b\<lparr> rb_events := rb_events b @ [''refresh''] \<rparr>"

text \<open>The click on the button itself, and the choice of a period in its menu.\<close>

definition rb_click :: "refresh_button \<Rightarrow> refresh_button" where
  "rb_click = rb_refresh"

definition rb_select :: "nat \<Rightarrow> refresh_button \<Rightarrow> refresh_button" where
  "rb_select i b =
     (let v = c_value (sm_items (rb_menu b) ! i); b1 = rb_set v b
      in b1\<lparr> rb_events := rb_events b1 @ [''change''], rb_menu := select_click i (rb_menu b1) \<rparr>)"

datatype rb_action = Click_refresh | Choose nat

fun rb_do :: "rb_action \<Rightarrow> refresh_button \<Rightarrow> refresh_button" where
  "rb_do Click_refresh b = rb_click b"
| "rb_do (Choose i) b = rb_select i b"

definition rb_inv :: "refresh_button \<Rightarrow> bool" where
  "rb_inv b \<longleftrightarrow> (if rb_value b > 0 then \<exists>t. rb_timer b = Some t \<and> t < next_timer b \<and> intervals b = [(t, rb_value b)] else intervals b = [])"

lemma rb_set_inv: "rb_inv b \<Longrightarrow> rb_inv (rb_set v b) \<and> rb_value (rb_set v b) = v"
  by (auto simp: rb_inv_def rb_set_def Let_def split: if_splits option.splits)

lemma rb_do_inv: "rb_inv b \<Longrightarrow> rb_inv (rb_do a b)"
proof (cases a)
  case (Choose i)
  assume "rb_inv b"
  then have "rb_inv (rb_set (c_value (sm_items (rb_menu b) ! i)) b)" by (simp add: rb_set_inv)
  then show ?thesis by (simp add: Choose rb_select_def Let_def rb_inv_def)
qed (simp add: rb_click_def rb_refresh_def rb_inv_def)

text \<open>Whatever is clicked and chosen, the refresh button runs one interval, with the chosen period, when the
  period is positive, and none otherwise.\<close>

theorem refresh_one_interval:
  "map snd (intervals (fold rb_do acts (rb_init tr timer))) =
     (if rb_value (fold rb_do acts (rb_init tr timer)) > 0 then [rb_value (fold rb_do acts (rb_init tr timer))] else [])"
proof -
  have "rb_inv (rb_init tr timer)"
    unfolding rb_init_def by (rule rb_set_inv [THEN conjunct1]) (simp add: rb_inv_def)
  then have "rb_inv (fold rb_do acts (rb_init tr timer))"
    by (induction acts arbitrary: timer rule: rev_induct) (simp_all add: rb_do_inv)
  then show ?thesis by (auto simp: rb_inv_def split: if_splits)
qed

definition split_template :: "string \<Rightarrow> nat \<Rightarrow> nat \<Rightarrow> jsval" where
  "split_template baseCls button menuButton =
     el ''DIV'' [(''cls'', Str baseCls), (''children'', Arr [Widget button, Widget menuButton])]"

section \<open>Sections, toolbars and pages\<close>

record sidebar_section =
  ss_shown :: bool
  ss_events :: "string list"

definition sidebar_init :: "bool \<Rightarrow> sidebar_section" where
  "sidebar_init opened = \<lparr> ss_shown = opened, ss_events = [] \<rparr>"

definition showSection_handler :: "sidebar_section \<Rightarrow> sidebar_section" where
  "showSection_handler s =
     (let shown = \<not> ss_shown s in \<lparr> ss_shown = shown, ss_events = ss_events s @ [if shown then ''show'' else ''hide''] \<rparr>)"

definition sidebar_template :: "(string \<Rightarrow> string) \<Rightarrow> jsval \<Rightarrow> jsval \<Rightarrow> jsval \<Rightarrow> jsval" where
  "sidebar_template tr title help body =
     el ''DIV'' [(''cls'', Str ''uiSidebarSection''), (''children'', Arr [
       js_and title (el ''DIV'' [(''cls'', Str ''uiSidebarSection-head''), (''onclick'', Fn ''_showSection_handler''), (''children'', Arr [
         title,
         js_and help (el ''SPAN'' [(''cls'', Str ''uiSidebarSection-help pull-right''), (''onclick'', Fn ''_showHelp_handler''),
           (''text'', Str (tr ''General.HelpGlyph''))])])]),
       el ''DIV'' [(''cls'', Str ''uiSidebarSection-body''), (''children'', Arr [body])]])]"

definition toolbar_template :: "jsval \<Rightarrow> jsval list \<Rightarrow> jsval list \<Rightarrow> jsval" where
  "toolbar_template label left right =
     el ''DIV'' [(''cls'', Str ''uiToolbar''), (''children'', Arr [
       el ''DIV'' [(''cls'', Str ''pull-left''), (''children'', Arr (el ''H2'' [(''text'', label)] # left))],
       el ''DIV'' [(''cls'', Str ''pull-right''), (''children'', Arr right)]])]"

definition page_show :: "bool \<Rightarrow> bool" where "page_show visible = True"
definition page_hide :: "bool \<Rightarrow> bool" where "page_hide visible = False"

end
