(* ===== verification/DragDrop.thy ===== *)
theory DragDrop
  imports Boot
begin

text \<open>
  \<^verbatim>\<open>ux/dragdrop.js\<close>: an object is picked up, moved over targets and dropped. The
  mouse handlers are bound from pick-up to drop.
\<close>

datatype drag_event = Drag_start | Drag_over nat | Drag_out nat | Drag_drop nat | Drag_stop

text \<open>A target with its top left and bottom right corners.\<close>

record target =
  tg_id :: nat
  tg_tl :: vector
  tg_br :: vector

record dragdrop =
  dd_targets :: "target list"
  dd_current :: "target option"
  dd_offset :: vector
  dd_lockX :: rat
  dd_lockY :: rat
  dd_bound :: bool
  dd_position :: "(string \<times> rat) list"
  dd_class :: bool
  dd_log :: "drag_event list"

record dd_config =
  with_targets :: bool
  obj_offset :: "vector option"
  lock_x :: bool
  lock_y :: bool

definition dd_init :: dragdrop where
  "dd_init = \<lparr> dd_targets = [], dd_current = None, dd_offset = \<lparr> vx = 0, vy = 0 \<rparr>, dd_lockX = 0, dd_lockY = 0,
     dd_bound = False, dd_position = [], dd_class = False, dd_log = [] \<rparr>"

definition dd_fire :: "drag_event \<Rightarrow> dragdrop \<Rightarrow> dragdrop" where
  "dd_fire e d = d\<lparr> dd_log := dd_log d @ [e] \<rparr>"

definition in_target :: "vector \<Rightarrow> target \<Rightarrow> bool" where
  "in_target mloc t = vec_within mloc (tg_tl t) (tg_br t)"

definition or_num :: "rat \<Rightarrow> rat \<Rightarrow> rat" where
  "or_num a b = (if a \<noteq> 0 then a else b)"

text \<open>The first target that the mouse is in.\<close>

definition find_target :: "vector \<Rightarrow> target list \<Rightarrow> target option" where
  "find_target mloc ts = (case find_index (in_target mloc) ts of None \<Rightarrow> None | Some i \<Rightarrow> Some (ts ! i))"

definition leave_target :: "dragdrop \<Rightarrow> dragdrop" where
  "leave_target d = (case dd_current d of None \<Rightarrow> d | Some t \<Rightarrow> (dd_fire (Drag_out (tg_id t)) d)\<lparr> dd_current := None \<rparr>)"

definition enter_target :: "vector \<Rightarrow> dragdrop \<Rightarrow> dragdrop" where
  "enter_target mloc d =
     (case find_target mloc (dd_targets d) of
        None \<Rightarrow> d | Some t \<Rightarrow> dd_fire (Drag_over (tg_id t)) (d\<lparr> dd_current := Some t \<rparr>))"

definition drag :: "rat \<Rightarrow> rat \<Rightarrow> dragdrop \<Rightarrow> dragdrop" where
  "drag pageX pageY d =
     (let mloc = vector_Init (VNum (or_num (dd_lockX d) pageX)) (VNum (or_num (dd_lockY d) pageY));
          d1 = d\<lparr> dd_position := asOffset (vec_add mloc (vec (dd_offset d)) VUndef) \<rparr>
      in if dd_targets d1 = [] then d1
         else if (case dd_current d1 of None \<Rightarrow> False | Some t \<Rightarrow> in_target mloc t) then d1
         else enter_target mloc (leave_target d1))"

definition dd_drop :: "dragdrop \<Rightarrow> dragdrop" where
  "dd_drop d =
     (let d1 = d\<lparr> dd_bound := False, dd_class := False \<rparr>;
          d2 = (case dd_current d1 of
                  None \<Rightarrow> d1 | Some t \<Rightarrow> dd_fire (Drag_drop (tg_id t)) (dd_fire (Drag_out (tg_id t)) d1))
      in dd_fire Drag_stop d2)"

text \<open>\<open>offset\<close> is where the object is, \<open>targets\<close> what the target selector finds.\<close>

definition pickup :: "dd_config \<Rightarrow> vector \<Rightarrow> target list \<Rightarrow> rat \<Rightarrow> rat \<Rightarrow> dragdrop \<Rightarrow> dragdrop" where
  "pickup c offset targets pageX pageY d =
     (let d1 = dd_fire Drag_start d;
          d2 = d1\<lparr> dd_offset := (case obj_offset c of Some v \<Rightarrow> v | None \<Rightarrow> vec_sub offset (VNum pageX) (VNum pageY)),
                   dd_lockX := (if lock_x c then pageX else 0), dd_lockY := (if lock_y c then pageY else 0), dd_class := True \<rparr>;
          d3 = (if with_targets c then d2\<lparr> dd_current := None, dd_targets := targets \<rparr> else d2)
      in drag pageX pageY (d3\<lparr> dd_bound := True \<rparr>))"

inductive dd_step :: "dd_config \<Rightarrow> dragdrop \<Rightarrow> dragdrop \<Rightarrow> bool" for c :: dd_config where
  Pickup: "\<not> dd_bound d \<Longrightarrow> dd_step c d (pickup c offset targets x y d)"
| Drag: "dd_bound d \<Longrightarrow> dd_step c d (drag x y d)"
| Drop: "dd_bound d \<Longrightarrow> dd_step c d (dd_drop d)"

inductive dd_reach :: "dd_config \<Rightarrow> dragdrop \<Rightarrow> bool" for c :: dd_config where
  Init: "dd_reach c dd_init"
| Step: "dd_reach c d \<Longrightarrow> dd_step c d d' \<Longrightarrow> dd_reach c d'"

section \<open>The protocol of the events\<close>

text \<open>
  An observer sees a drag start, then entries and exits of one target after the other, and at the end
  an exit and a drop for the target the mouse is in, and the stop.
\<close>

datatype drag_phase = Idle | Over_none | Over nat | Left_of nat

fun next_phase :: "drag_phase \<Rightarrow> drag_event \<Rightarrow> drag_phase option" where
  "next_phase Idle Drag_start = Some Over_none"
| "next_phase Over_none (Drag_over t) = Some (Over t)"
| "next_phase Over_none Drag_stop = Some Idle"
| "next_phase (Over t) (Drag_out u) = (if t = u then Some (Left_of t) else None)"
| "next_phase (Left_of t) (Drag_drop u) = (if t = u then Some Over_none else None)"
| "next_phase (Left_of t) (Drag_over u) = Some (Over u)"
| "next_phase (Left_of t) Drag_stop = Some Idle"
| "next_phase _ _ = None"

fun phase :: "drag_phase \<Rightarrow> drag_event list \<Rightarrow> drag_phase option" where
  "phase p [] = Some p"
| "phase p (e # es) = (case next_phase p e of None \<Rightarrow> None | Some q \<Rightarrow> phase q es)"

lemma phase_append: "phase p (es @ es') = (case phase p es of None \<Rightarrow> None | Some q \<Rightarrow> phase q es')"
  by (induction es arbitrary: p) (auto split: option.split)

definition phase_ok :: "dragdrop \<Rightarrow> bool" where
  "phase_ok d = (case phase Idle (dd_log d) of
     None \<Rightarrow> False
   | Some p \<Rightarrow> if \<not> dd_bound d then p = Idle
       else (case dd_current d of Some t \<Rightarrow> p = Over (tg_id t) | None \<Rightarrow> p = Over_none \<or> (\<exists>t. p = Left_of t)))"

definition dd_inv :: "dd_config \<Rightarrow> dragdrop \<Rightarrow> bool" where
  "dd_inv c d \<longleftrightarrow> phase_ok d \<and> (\<not> with_targets c \<longrightarrow> dd_current d = None \<and> dd_targets d = [])"

lemma leave_enter_phase:
  assumes "phase_ok d" "dd_bound d"
  shows "phase_ok (enter_target m (leave_target d)) \<and> dd_bound (enter_target m (leave_target d))"
proof -
  have "phase_ok (leave_target d) \<and> dd_bound (leave_target d) \<and> dd_current (leave_target d) = None"
    using assms by (auto simp: leave_target_def phase_ok_def dd_fire_def phase_append split: option.splits)
  then show ?thesis
    by (auto simp: enter_target_def phase_ok_def dd_fire_def phase_append split: option.splits)
qed

lemma phase_ok_cong:
  "phase_ok d \<Longrightarrow> dd_log d' = dd_log d \<Longrightarrow> dd_bound d' = dd_bound d \<Longrightarrow> dd_current d' = dd_current d \<Longrightarrow> phase_ok d'"
  by (simp only: phase_ok_def)

lemma drag_inv:
  assumes "dd_inv c d" "dd_bound d"
  shows "dd_inv c (drag x y d) \<and> dd_bound (drag x y d)"
proof -
  define d1 where "d1 = d\<lparr> dd_position := asOffset (vec_add (vector_Init (VNum (or_num (dd_lockX d) x)) (VNum (or_num (dd_lockY d) y))) (vec (dd_offset d)) VUndef) \<rparr>"
  have p: "phase_ok d1" "dd_bound d1" using assms phase_ok_cong [of d d1] by (simp_all add: d1_def dd_inv_def)
  with leave_enter_phase [OF p] assms show ?thesis
    by (auto simp: drag_def Let_def dd_inv_def simp flip: d1_def) (auto simp: d1_def)
qed

lemma dd_step_inv: "dd_step c d d' \<Longrightarrow> dd_inv c d \<Longrightarrow> dd_inv c d'"
proof (induction rule: dd_step.induct)
  case (Pickup d offset targets x y)
  define d3 where "d3 = (let d1 = dd_fire Drag_start d;
          d2 = d1\<lparr> dd_offset := (case obj_offset c of Some v \<Rightarrow> v | None \<Rightarrow> vec_sub offset (VNum x) (VNum y)),
                   dd_lockX := (if lock_x c then x else 0), dd_lockY := (if lock_y c then y else 0), dd_class := True \<rparr>
      in if with_targets c then d2\<lparr> dd_current := None, dd_targets := targets \<rparr> else d2)\<lparr> dd_bound := True \<rparr>"
  have "dd_inv c d3" "dd_bound d3"
    using Pickup by (auto simp: d3_def dd_inv_def phase_ok_def dd_fire_def phase_append Let_def split: option.splits)
  from drag_inv [OF this, of x y] show ?case
    by (simp add: pickup_def d3_def Let_def)
next
  case (Drop d)
  then show ?case
    by (auto simp: dd_drop_def dd_inv_def phase_ok_def dd_fire_def phase_append Let_def split: option.splits)
qed (simp add: drag_inv)

lemma dd_reach_inv: "dd_reach c d \<Longrightarrow> dd_inv c d"
proof (induction rule: dd_reach.induct)
  case Init
  then show ?case by (simp add: dd_inv_def phase_ok_def dd_init_def)
qed (rule dd_step_inv)


definition sample_config :: dd_config where
  "sample_config = \<lparr> with_targets = True, obj_offset = None, lock_x = False, lock_y = False \<rparr>"

definition sample_drag :: dragdrop where
  "sample_drag = dd_drop (drag 5 5 (pickup sample_config \<lparr> vx = 0, vy = 0 \<rparr>
     [\<lparr> tg_id = 7, tg_tl = \<lparr> vx = 4, vy = 4 \<rparr>, tg_br = \<lparr> vx = 9, vy = 9 \<rparr> \<rparr>] 1 1 dd_init))"


end
