(* ===== verification/Overview.thy ===== *)
theory Overview
  imports Services
begin

text \<open>
  The drawing of the cluster: \<^verbatim>\<open>ui/clusterOverview/clusterOverview.js\<close> builds from the
  state of the cluster a table with one row per node and one column per index, whose cells hold the copies
  of shards, and one row per alias.
\<close>

section \<open>What the cluster answers\<close>

text \<open>A copy of a shard, as the routing table has it; \<open>cp_node\<close> is \<open>null\<close> while it is unassigned.\<close>

record shard_copy =
  cp_node :: "string option"
  cp_index :: string
  cp_shard :: nat
  cp_primary :: bool
  cp_state :: string

type_synonym shard_table = "shard_copy list dict"

record index_meta =
  im_state :: string
  im_aliases :: "string list"
  im_settings :: "obj option"

record node_info =
  ni_name :: string
  ni_address :: string
  ni_host :: string
  ni_data :: "string option"
  ni_tribe :: bool

record cluster_data =
  cd_master :: string
  cd_routing :: "shard_table dict"
  cd_metadata :: "index_meta dict"
  cd_status :: "jsval dict"
  cd_stats :: "jsval dict"
  cd_nodes :: "node_info dict"

section \<open>What is drawn\<close>

record placed =
  pl_copy :: shard_copy
  pl_status :: "shard_copy option"

text \<open>A cell of the table: \<open>None\<close> in the list of replicas is a hole of the array.\<close>

record routing =
  rt_name :: string
  rt_replicas :: "placed option list"
  rt_max :: jsval
  rt_open :: bool

record node_row =
  nv_name :: string
  nv_routings :: "routing option list"
  nv_master :: bool
  nv_stats :: jsval
  nv_cluster :: "node_info option"
  nv_data :: bool

record index_view =
  iv_name :: "string option"
  iv_state :: string
  iv_metadata :: "index_meta option"
  iv_status :: jsval

text \<open>A row of aliases; \<open>None\<close> as a bound is \<open>NaN\<close>, in the list of indices it is \<open>false\<close>.\<close>

record alias_row =
  ar_name :: string
  ar_min :: "int option"
  ar_max :: "int option"
  ar_indices :: "index_view option list"

record overview =
  ov_nodes :: "node_row list"
  ov_aliases :: "alias_row list"
  ov_indices :: "index_view list"

section \<open>Sorting the nodes\<close>

text \<open>The name of a node that \<open>_nodes\<close> does not know is \<open><unknown>\<close>, and it has no address. \<open>lc\<close> is \<open>localeCompare\<close>.\<close>

definition cluster_name :: "node_row \<Rightarrow> string" where
  "cluster_name a = (case nv_cluster a of None \<Rightarrow> ''<unknown>'' | Some c \<Rightarrow> ni_name c)"

definition nodeSort_name :: "(string \<Rightarrow> string \<Rightarrow> int) \<Rightarrow> node_row \<Rightarrow> node_row \<Rightarrow> int res" where
  "nodeSort_name lc a b = Inr (lc (cluster_name a) (cluster_name b))"

definition nodeSort_addr :: "(string \<Rightarrow> string \<Rightarrow> int) \<Rightarrow> node_row \<Rightarrow> node_row \<Rightarrow> int res" where
  "nodeSort_addr lc a b =
     (case (nv_cluster a, nv_cluster b) of
        (Some c, Some d) \<Rightarrow> Inr (lc (ni_address c) (ni_address d))
      | _ \<Rightarrow> Inl TypeError)"

definition nodeSort_type :: "(string \<Rightarrow> string \<Rightarrow> int) \<Rightarrow> node_row \<Rightarrow> node_row \<Rightarrow> int res" where
  "nodeSort_type lc a b =
     (if nv_master a then Inr (-1)
      else if nv_master b then Inr 1
      else if nv_data a \<and> \<not> nv_data b then Inr (-1)
      else if nv_data b \<and> \<not> nv_data a then Inr 1
      else Inr (lc (cluster_name a) (cluster_name b)))"

definition NODE_SORT_TYPES :: "(string \<Rightarrow> string \<Rightarrow> int) \<Rightarrow> (node_row \<Rightarrow> node_row \<Rightarrow> int res) dict" where
  "NODE_SORT_TYPES lc =
     [(''Sort.ByName'', nodeSort_name lc), (''Sort.ByAddress'', nodeSort_addr lc), (''Sort.ByType'', nodeSort_type lc)]"

definition nodeFilter_none :: "node_row \<Rightarrow> bool" where
  "nodeFilter_none a = True"

definition nodeFilter_clients :: "node_row \<Rightarrow> bool" where
  "nodeFilter_clients a \<longleftrightarrow> nv_master a \<or> nv_data a"

text \<open>\<open>Array.prototype.sort\<close> with a comparator that may throw: a stable insertion sort.\<close>

fun ins_by :: "('a \<Rightarrow> 'a \<Rightarrow> int res) \<Rightarrow> 'a \<Rightarrow> 'a list \<Rightarrow> 'a list res" where
  "ins_by c x [] = Inr [x]"
| "ins_by c x (y # ys) =
     res_bind (c y x) (\<lambda>r. if r > 0 then Inr (x # y # ys) else res_bind (ins_by c x ys) (\<lambda>zs. Inr (y # zs)))"

definition sort_by :: "('a \<Rightarrow> 'a \<Rightarrow> int res) \<Rightarrow> 'a list \<Rightarrow> 'a list res" where
  "sort_by c xs = foldl (\<lambda>r x. res_bind r (ins_by c x)) (Inr []) xs"

section \<open>Placing the copies\<close>

record drawing =
  d_nodes :: "node_row list"
  d_nodeIndices :: "nat dict"
  d_indexIndices :: "nat dict"
  d_next :: nat
  d_indices :: "string list"

definition newNode :: "string \<Rightarrow> string \<Rightarrow> node_row" where
  "newNode master n =
     \<lparr> nv_name = n, nv_routings = [], nv_master = (master = n), nv_stats = Undef, nv_cluster = None, nv_data = False \<rparr>"

definition newIndex :: "string \<Rightarrow> routing" where
  "newIndex i = \<lparr> rt_name = i, rt_replicas = [], rt_max = Undef, rt_open = False \<rparr>"

definition getIndexForNode :: "string \<Rightarrow> string \<Rightarrow> drawing \<Rightarrow> nat \<times> drawing" where
  "getIndexForNode master n d =
     (case map_of (d_nodeIndices d) n of
        Some k \<Rightarrow> (k, d)
      | None \<Rightarrow> (length (d_nodes d),
          d\<lparr> d_nodes := d_nodes d @ [newNode master n], d_nodeIndices := dput n (length (d_nodes d)) (d_nodeIndices d) \<rparr>))"

text \<open>Reading and writing an array with holes.\<close>

definition hole_at :: "'a option list \<Rightarrow> nat \<Rightarrow> 'a option" where
  "hole_at xs i = (if i < length xs then xs ! i else None)"

definition hole_set :: "nat \<Rightarrow> 'a \<Rightarrow> 'a option list \<Rightarrow> 'a option list" where
  "hole_set i v xs = arr_set i None (Some v) xs"

text \<open>The column of an index, made in the routings of the node when it is not there.\<close>

definition getIndexForIndex :: "routing option list \<Rightarrow> string \<Rightarrow> drawing \<Rightarrow> nat \<times> routing option list \<times> drawing" where
  "getIndexForIndex routings i d =
     (case map_of (d_indexIndices d) i of
        Some k \<Rightarrow> (k, (case hole_at routings k of None \<Rightarrow> hole_set k (newIndex i) routings | Some r \<Rightarrow> hole_set k r routings),
                   d\<lparr> d_indices := arr_set k [] i (d_indices d) \<rparr>)
      | None \<Rightarrow> (d_next d, hole_set (d_next d) (newIndex i) routings,
                   d\<lparr> d_indexIndices := dput i (d_next d) (d_indexIndices d), d_next := Suc (d_next d),
                      d_indices := arr_set (d_next d) [] i (d_indices d) \<rparr>))"

definition add_replica :: "shard_table \<Rightarrow> string \<Rightarrow> shard_copy \<Rightarrow> routing \<Rightarrow> routing" where
  "add_replica shards n c r =
     (case map_of shards (show_nat (cp_shard c)) of
        Some copies \<Rightarrow>
          if n = ''Unassigned'' then r\<lparr> rt_replicas := rt_replicas r @ [Some \<lparr> pl_copy = c, pl_status = None \<rparr>] \<rparr>
          else r\<lparr> rt_replicas := hole_set (cp_shard c) \<lparr> pl_copy = c, pl_status = find (\<lambda>x. cp_node x = Some n) copies \<rparr> (rt_replicas r) \<rparr>
      | None \<Rightarrow> r\<lparr> rt_replicas := rt_replicas r @ [Some \<lparr> pl_copy = c, pl_status = None \<rparr>] \<rparr>)"

definition node_of :: "shard_copy \<Rightarrow> string" where
  "node_of c = (case cp_node c of None \<Rightarrow> ''Unassigned'' | Some n \<Rightarrow> n)"

definition place_copy :: "string \<Rightarrow> shard_table \<Rightarrow> shard_copy \<Rightarrow> drawing \<Rightarrow> drawing" where
  "place_copy master shards c d =
     (let n = node_of c;
          (k, d1) = getIndexForNode master n d;
          (j, routings, d2) = getIndexForIndex (nv_routings (d_nodes d1 ! k)) (cp_index c) d1;
          routings' = (case hole_at routings j of None \<Rightarrow> routings | Some r \<Rightarrow> hole_set j (add_replica shards n c r) routings)
      in d2\<lparr> d_nodes := (d_nodes d2)[k := (d_nodes d2 ! k)\<lparr> nv_routings := routings' \<rparr>] \<rparr>)"

definition place_index :: "string \<Rightarrow> shard_table \<Rightarrow> drawing \<Rightarrow> drawing" where
  "place_index master shards = fold (\<lambda>(_, copies). fold (place_copy master shards) copies) shards"

definition index_names :: "bool \<Rightarrow> (string \<Rightarrow> bool) \<Rightarrow> cluster_data \<Rightarrow> string list" where
  "index_names desc keep s =
     (let names = sort (keys (cd_routing s)) in filter keep (if desc then rev names else names))"

definition shards_of :: "cluster_data \<Rightarrow> string \<Rightarrow> shard_table" where
  "shards_of s name = (case map_of (cd_routing s) name of None \<Rightarrow> [] | Some t \<Rightarrow> t)"

definition known_nodes :: "cluster_data \<Rightarrow> drawing" where
  "known_nodes s =
     fold (\<lambda>n d. snd (getIndexForNode (cd_master s) n d)) (keys (cd_nodes s))
       \<lparr> d_nodes = [], d_nodeIndices = [], d_indexIndices = [], d_next = 0, d_indices = [] \<rparr>"

definition place_all :: "bool \<Rightarrow> (string \<Rightarrow> bool) \<Rightarrow> cluster_data \<Rightarrow> drawing" where
  "place_all desc keep s =
     fold (\<lambda>name. place_index (cd_master s) (shards_of s name)) (index_names desc keep s) (known_nodes s)"

section \<open>The columns, the cells and the aliases\<close>

definition index_views :: "(string \<Rightarrow> bool) \<Rightarrow> cluster_data \<Rightarrow> drawing \<Rightarrow> index_view list" where
  "index_views keep s d =
     map (\<lambda>i. \<lparr> iv_name = Some i, iv_state = ''open'', iv_metadata = map_of (cd_metadata s) i, iv_status = dget (cd_status s) i \<rparr>) (d_indices d)
     @ map (\<lambda>(i, m). \<lparr> iv_name = Some i, iv_state = ''close'', iv_metadata = Some m, iv_status = Null \<rparr>)
         (filter (\<lambda>(i, m). im_state m = ''close'' \<and> keep i) (cd_metadata s))"

definition fill_cell :: "index_view \<Rightarrow> routing option \<Rightarrow> routing" where
  "fill_cell v c =
     (let r = (case c of Some r \<Rightarrow> r | None \<Rightarrow> newIndex (case iv_name v of Some i \<Rightarrow> i | None \<Rightarrow> []));
          r1 = (case iv_metadata v of
                  Some m \<Rightarrow> (case im_settings m of Some st \<Rightarrow> r\<lparr> rt_max := dget st ''index.number_of_shards'' \<rparr> | None \<Rightarrow> r)
                | None \<Rightarrow> r)
      in r1\<lparr> rt_open := (iv_state v = ''open'') \<rparr>)"

text \<open>An index of the routing table without metadata throws.\<close>

definition fill_node :: "cluster_data \<Rightarrow> index_view list \<Rightarrow> node_row \<Rightarrow> node_row res" where
  "fill_node s vs n =
     (if list_ex (\<lambda>v. iv_metadata v = None) vs then Inl TypeError
      else Inr (n\<lparr> nv_stats := dget (cd_stats s) (nv_name n),
        nv_cluster := map_of (cd_nodes s) (nv_name n),
        nv_data := (case map_of (cd_nodes s) (nv_name n) of Some c \<Rightarrow> ni_data c \<noteq> Some ''false'' | None \<Rightarrow> True),
        nv_routings := map (\<lambda>i. Some (fill_cell (vs ! i) (hole_at (nv_routings n) i))) [0..<length vs]
          @ drop (length vs) (nv_routings n) \<rparr>))"

fun fill_nodes :: "cluster_data \<Rightarrow> index_view list \<Rightarrow> node_row list \<Rightarrow> node_row list res" where
  "fill_nodes s vs [] = Inr []"
| "fill_nodes s vs (n # rest) = res_bind (fill_node s vs n) (\<lambda>n'. res_bind (fill_nodes s vs rest) (\<lambda>rest'. Inr (n' # rest')))"

text \<open>\<open>position\<close> is the column of the index, \<open>undefined\<close> when it has none.\<close>

definition nan_min :: "int option \<Rightarrow> nat option \<Rightarrow> int option" where
  "nan_min a position = (case (a, position) of (Some x, Some p) \<Rightarrow> Some (min x (int p)) | _ \<Rightarrow> None)"

definition nan_max :: "int option \<Rightarrow> nat option \<Rightarrow> int option" where
  "nan_max a position = (case (a, position) of (Some x, Some p) \<Rightarrow> Some (max x (int p)) | _ \<Rightarrow> None)"

definition new_alias :: "index_view list \<Rightarrow> string \<Rightarrow> alias_row" where
  "new_alias vs a = \<lparr> ar_name = a, ar_min = Some 999, ar_max = Some (-1), ar_indices = map (\<lambda>_. None) vs \<rparr>"

definition put_alias :: "index_view list \<Rightarrow> nat option \<Rightarrow> alias_row \<Rightarrow> alias_row" where
  "put_alias vs position r =
     r\<lparr> ar_min := nan_min (ar_min r) position, ar_max := nan_max (ar_max r) position,
        ar_indices := (case position of Some p \<Rightarrow> (ar_indices r)[p := Some (vs ! p)] | None \<Rightarrow> ar_indices r) \<rparr>"

definition add_alias_row :: "index_view list \<Rightarrow> nat option \<Rightarrow> string \<Rightarrow> nat dict \<times> alias_row list \<Rightarrow> nat dict \<times> alias_row list" where
  "add_alias_row vs position a acc =
     (case acc of (ix, rows) \<Rightarrow>
        (case map_of ix a of
           Some k \<Rightarrow> (ix, rows[k := put_alias vs position (rows ! k)])
         | None \<Rightarrow> (dput a (length rows) ix, rows @ [put_alias vs position (new_alias vs a)])))"

definition alias_rows :: "cluster_data \<Rightarrow> drawing \<Rightarrow> index_view list \<Rightarrow> alias_row list" where
  "alias_rows s d vs =
     snd (fold (\<lambda>(i, m). fold (add_alias_row vs (map_of (d_indexIndices d) i)) (im_aliases m)) (cd_metadata s) ([], []))"

definition no_index :: index_view where
  "no_index = \<lparr> iv_name = None, iv_state = [], iv_metadata = None, iv_status = Undef \<rparr>"

text \<open>\<open>re\<close> compiles a pattern, with \<open>None\<close> when that throws; then every index is shown.\<close>

definition index_filter :: "(string \<Rightarrow> (string \<Rightarrow> bool) option) \<Rightarrow> string \<Rightarrow> string \<Rightarrow> bool" where
  "index_filter re pattern = (case re pattern of Some f \<Rightarrow> f | None \<Rightarrow> (\<lambda>_. True))"

definition draw :: "(node_row \<Rightarrow> node_row \<Rightarrow> int res) \<Rightarrow> bool \<Rightarrow> (string \<Rightarrow> bool) \<Rightarrow> cluster_data \<Rightarrow> overview res" where
  "draw nodeSort desc keep s =
     (let d = place_all desc keep s; vs = index_views keep s d
      in res_bind (fill_nodes s vs (d_nodes d)) (\<lambda>rows.
         res_bind (sort_by nodeSort (filter nodeFilter_none rows)) (\<lambda>sorted.
           Inr \<lparr> ov_nodes = sorted, ov_aliases = alias_rows s d vs, ov_indices = no_index # vs \<rparr>)))"

section \<open>Every copy is in its cell\<close>

lemma hole_at_set [simp]: "hole_at (hole_set i v xs) k = (if k = i then Some v else hole_at xs k)"
  by (auto simp: hole_at_def hole_set_def arr_set_def nth_append nth_Cons')

lemma hole_at_push: "hole_at xs k = Some v \<Longrightarrow> hole_at (xs @ ys) k = Some v"
  by (auto simp: hole_at_def nth_append split: if_splits)

text \<open>The cell of a node, an index and the number of a shard.\<close>

definition routing_of :: "drawing \<Rightarrow> string \<Rightarrow> string \<Rightarrow> routing option" where
  "routing_of d n i =
     (case (map_of (d_nodeIndices d) n, map_of (d_indexIndices d) i) of
        (Some k, Some j) \<Rightarrow> hole_at (nv_routings (d_nodes d ! k)) j
      | _ \<Rightarrow> None)"

definition cell :: "drawing \<Rightarrow> string \<Rightarrow> string \<Rightarrow> nat \<Rightarrow> placed option" where
  "cell d n i s = (case routing_of d n i of None \<Rightarrow> None | Some r \<Rightarrow> hole_at (rt_replicas r) s)"

text \<open>The two tables of positions tell where the node and the column of a name are.\<close>

definition drawing_inv :: "drawing \<Rightarrow> bool" where
  "drawing_inv d \<longleftrightarrow>
     (\<forall>n k. map_of (d_nodeIndices d) n = Some k \<longrightarrow> k < length (d_nodes d) \<and> nv_name (d_nodes d ! k) = n)
     \<and> (\<forall>i j. map_of (d_indexIndices d) i = Some j \<longrightarrow> j < length (d_indices d) \<and> d_indices d ! j = i)
     \<and> length (d_indices d) = d_next d"

lemma inv_node: "drawing_inv d \<Longrightarrow> map_of (d_nodeIndices d) n = Some k \<Longrightarrow> k < length (d_nodes d) \<and> nv_name (d_nodes d ! k) = n"
  unfolding drawing_inv_def by blast

lemma inv_index: "drawing_inv d \<Longrightarrow> map_of (d_indexIndices d) i = Some j \<Longrightarrow> j < length (d_indices d) \<and> d_indices d ! j = i"
  unfolding drawing_inv_def by blast

lemma getIndexForNode_inv:
  assumes "drawing_inv d" "getIndexForNode master n d = (k, d')"
  shows "drawing_inv d'" "map_of (d_nodeIndices d') n = Some k"
    "d_indexIndices d' = d_indexIndices d" "d_indices d' = d_indices d" "d_next d' = d_next d"
    "routing_of d' n' i = routing_of d n' i"
    "map_of (d_nodeIndices d) n' = Some k' \<Longrightarrow> map_of (d_nodeIndices d') n' = Some k'"
proof -
  have old: "map_of (d_nodeIndices d) m = Some q \<Longrightarrow> q < length (d_nodes d)" for m q
    using inv_node [OF assms(1)] by blast
  show "map_of (d_nodeIndices d') n = Some k"
    "d_indexIndices d' = d_indexIndices d" "d_indices d' = d_indices d" "d_next d' = d_next d"
    "map_of (d_nodeIndices d) n' = Some k' \<Longrightarrow> map_of (d_nodeIndices d') n' = Some k'"
    using assms(2) by (auto simp: getIndexForNode_def split: option.splits)
  show "drawing_inv d'"
    using assms
    by (auto simp: getIndexForNode_def drawing_inv_def newNode_def nth_append split: option.splits if_splits intro: less_SucI [OF old])
  show "routing_of d' n' i = routing_of d n' i"
    using assms(2) old
    by (auto simp: getIndexForNode_def routing_of_def nth_append newNode_def hole_at_def split: option.splits if_splits)
qed

text \<open>What \<open>getIndexForIndex\<close> gives for the routings of a node.\<close>

lemma getIndexForIndex_inv:
  assumes "drawing_inv d" "getIndexForIndex rs i d = (j, rs', d')"
  shows "drawing_inv d'" "map_of (d_indexIndices d') i = Some j"
    "d_nodes d' = d_nodes d" "d_nodeIndices d' = d_nodeIndices d"
    "map_of (d_indexIndices d) i' = Some j' \<Longrightarrow> map_of (d_indexIndices d') i' = Some j'"
    "hole_at rs' j' = (if j' = j then Some (case map_of (d_indexIndices d) i of None \<Rightarrow> newIndex i
       | Some _ \<Rightarrow> (case hole_at rs j of None \<Rightarrow> newIndex i | Some r \<Rightarrow> r)) else hole_at rs j')"
proof -
  have old: "map_of (d_indexIndices d) m = Some q \<Longrightarrow> q < length (d_indices d) \<and> d_indices d ! q = m" for m q
    using inv_index [OF assms(1)] by blast
  show "map_of (d_indexIndices d') i = Some j" "d_nodes d' = d_nodes d" "d_nodeIndices d' = d_nodeIndices d"
    "map_of (d_indexIndices d) i' = Some j' \<Longrightarrow> map_of (d_indexIndices d') i' = Some j'"
    "hole_at rs' j' = (if j' = j then Some (case map_of (d_indexIndices d) i of None \<Rightarrow> newIndex i
       | Some _ \<Rightarrow> (case hole_at rs j of None \<Rightarrow> newIndex i | Some r \<Rightarrow> r)) else hole_at rs j')"
    using assms(2) by (auto simp: getIndexForIndex_def split: option.splits)
  have len: "length (d_indices d) = d_next d" using assms(1) by (simp add: drawing_inv_def)
  show "drawing_inv d'"
  proof (cases "map_of (d_indexIndices d) i")
    case None
    then have d': "d' = d\<lparr> d_indexIndices := dput i (d_next d) (d_indexIndices d), d_next := Suc (d_next d),
        d_indices := d_indices d @ [i] \<rparr>"
      using assms(2) by (auto simp: getIndexForIndex_def arr_set_def len)
    show ?thesis using assms(1) old by (auto simp: d' drawing_inv_def nth_append intro: less_SucI)
  next
    case (Some k)
    have "(d_indices d)[k := i] = d_indices d" using old [OF Some] list_update_id [of "d_indices d" k] by simp
    with Some have "d' = d" using assms(2) old [OF Some] by (auto simp: getIndexForIndex_def arr_set_def)
    with assms(1) show ?thesis by simp
  qed
qed

lemma place_copy_inv:
  assumes "drawing_inv d"
  shows "drawing_inv (place_copy master shards c d)"
    "routing_of (place_copy master shards c d) (node_of c) (cp_index c) =
       Some (add_replica shards (node_of c) c (case routing_of d (node_of c) (cp_index c) of None \<Rightarrow> newIndex (cp_index c) | Some r \<Rightarrow> r))"
    "routing_of d n i = Some r \<Longrightarrow> \<not> (n = node_of c \<and> i = cp_index c) \<Longrightarrow>
       routing_of (place_copy master shards c d) n i = Some r"
proof -
  obtain k d1 where g: "getIndexForNode master (node_of c) d = (k, d1)" by fastforce
  obtain j rs d2 where h: "getIndexForIndex (nv_routings (d_nodes d1 ! k)) (cp_index c) d1 = (j, rs, d2)"
    using prod_cases3 by blast
  note G = getIndexForNode_inv [OF assms g]
  note H = getIndexForIndex_inv [OF G(1) h]
  let ?r = "case map_of (d_indexIndices d1) (cp_index c) of None \<Rightarrow> newIndex (cp_index c)
       | Some _ \<Rightarrow> (case hole_at (nv_routings (d_nodes d1 ! k)) j of None \<Rightarrow> newIndex (cp_index c) | Some r \<Rightarrow> r)"
  have hj: "hole_at rs j = Some ?r" using H(6) [of j] by simp
  let ?rs = "hole_set j (add_replica shards (node_of c) c ?r) rs"
  have p: "place_copy master shards c d = d2\<lparr> d_nodes := (d_nodes d2)[k := (d_nodes d2 ! k)\<lparr> nv_routings := ?rs \<rparr>] \<rparr>"
    using hj by (simp add: place_copy_def g h Let_def)
  have k: "k < length (d_nodes d2)" "nv_name (d_nodes d2 ! k) = node_of c" and kn: "map_of (d_nodeIndices d2) (node_of c) = Some k"
    using inv_node [OF H(1), of "node_of c" k] G(2) H(4) by auto
  show "drawing_inv (place_copy master shards c d)"
    unfolding p using H(1) k by (auto simp: drawing_inv_def nth_list_update)
  have r: "?r = (case routing_of d (node_of c) (cp_index c) of None \<Rightarrow> newIndex (cp_index c) | Some r \<Rightarrow> r)"
    using G(6) [of "node_of c" "cp_index c"] G(2) H(2) H(5) [of "cp_index c"]
    by (auto simp: routing_of_def split: option.splits)
  show "routing_of (place_copy master shards c d) (node_of c) (cp_index c) =
       Some (add_replica shards (node_of c) c (case routing_of d (node_of c) (cp_index c) of None \<Rightarrow> newIndex (cp_index c) | Some r \<Rightarrow> r))"
    unfolding p r [symmetric] using k kn H(2) by (simp add: routing_of_def)
  assume r0: "routing_of d n i = Some r" and ne: "\<not> (n = node_of c \<and> i = cp_index c)"
  have "routing_of d1 n i = Some r" using r0 G(6) by simp
  then obtain k' j' where kj: "map_of (d_nodeIndices d1) n = Some k'" "map_of (d_indexIndices d1) i = Some j'"
      "hole_at (nv_routings (d_nodes d1 ! k')) j' = Some r"
    by (auto simp: routing_of_def split: option.splits)
  have j': "map_of (d_indexIndices d2) i = Some j'" using H(5) kj(2) by blast
  have "k' = k \<Longrightarrow> j' \<noteq> j"
    using ne inv_node [OF H(1), of n k'] kj(1) H(4) k(2) inv_index [OF H(1) j'] inv_index [OF H(1) H(2)] by auto
  then show "routing_of (place_copy master shards c d) n i = Some r"
    unfolding p using k kj j' H(3,4) H(6) [of j'] by (cases "k' = k") (auto simp: routing_of_def)
qed

text \<open>An assigned copy of a shard that the table of shards has is put in its cell, and no copy of another shard moves it.\<close>

definition assigned :: "shard_table \<Rightarrow> shard_copy \<Rightarrow> bool" where
  "assigned shards c \<longleftrightarrow> cp_node c \<noteq> None \<and> cp_node c \<noteq> Some ''Unassigned'' \<and> map_of shards (show_nat (cp_shard c)) \<noteq> None"

definition same_cell :: "shard_copy \<Rightarrow> shard_copy \<Rightarrow> bool" where
  "same_cell c c' \<longleftrightarrow> node_of c \<noteq> ''Unassigned'' \<and> node_of c = node_of c' \<and> cp_index c = cp_index c' \<and> cp_shard c = cp_shard c'"

lemma place_self:
  assumes "drawing_inv d" "assigned shards c"
  shows "map_option pl_copy (cell (place_copy master shards c d) (node_of c) (cp_index c) (cp_shard c)) = Some c"
proof -
  have "node_of c \<noteq> ''Unassigned''" using assms(2) by (auto simp: assigned_def node_of_def)
  with assms place_copy_inv(2) [OF assms(1), of master shards c] show ?thesis
    by (auto simp: cell_def add_replica_def assigned_def)
qed

lemma place_other:
  assumes "drawing_inv d" "cell d n i s = Some p" "\<not> (n = node_of c \<and> i = cp_index c \<and> s = cp_shard c)"
  shows "cell (place_copy master shards c d) n i s = Some p"
proof -
  obtain r where r: "routing_of d n i = Some r" "hole_at (rt_replicas r) s = Some p"
    using assms(2) by (auto simp: cell_def split: option.splits)
  show ?thesis
  proof (cases "n = node_of c \<and> i = cp_index c")
    case True
    with assms(3) r place_copy_inv(2) [OF assms(1), of master shards c] show ?thesis
      by (auto simp: cell_def add_replica_def hole_at_push split: option.splits)
  next
    case False
    from place_copy_inv(3) [OF assms(1) r(1) False] r(2) show ?thesis by (simp add: cell_def)
  qed
qed

text \<open>The nested loops as one loop over pairs of a table of shards and a copy.\<close>

definition copies_of :: "shard_table \<Rightarrow> (shard_table \<times> shard_copy) list" where
  "copies_of shards = concat (map (\<lambda>(_, copies). map (\<lambda>c. (shards, c)) copies) shards)"

lemma fold_concat_map: "fold (\<lambda>x. fold f (g x)) xs = fold f (concat (map g xs))"
  by (induction xs) (simp_all add: fun_eq_iff)

lemma place_index_flat: "place_index master shards = fold (\<lambda>(sh, c). place_copy master sh c) (copies_of shards)"
proof -
  have "fold (\<lambda>(_, copies). fold (place_copy master shards) copies) xs =
      fold (\<lambda>(sh, c). place_copy master sh c) (concat (map (\<lambda>(_, copies). map (\<lambda>c. (shards, c)) copies) xs))" for xs :: shard_table
    by (induction xs) (auto simp: fold_map o_def fun_eq_iff)
  then show ?thesis by (simp add: place_index_def copies_of_def)
qed

definition all_copies :: "bool \<Rightarrow> (string \<Rightarrow> bool) \<Rightarrow> cluster_data \<Rightarrow> (shard_table \<times> shard_copy) list" where
  "all_copies desc keep s = concat (map (\<lambda>i. copies_of (shards_of s i)) (index_names desc keep s))"

lemma place_all_flat: "place_all desc keep s = fold (\<lambda>(sh, c). place_copy (cd_master s) sh c) (all_copies desc keep s) (known_nodes s)"
  by (simp add: place_all_def place_index_flat all_copies_def fold_concat_map)

lemma known_nodes_inv: "drawing_inv (known_nodes s)"
proof -
  have *: "drawing_inv d \<Longrightarrow> drawing_inv (fold (\<lambda>n d. snd (getIndexForNode m n d)) xs d)" for m xs d
  proof (induction xs arbitrary: d)
    case (Cons n xs)
    obtain k d' where "getIndexForNode m n d = (k, d')" by fastforce
    with Cons getIndexForNode_inv(1) show ?case by fastforce
  qed simp
  show ?thesis unfolding known_nodes_def by (rule *) (simp add: drawing_inv_def)
qed

lemma place_fold_inv: "drawing_inv d \<Longrightarrow> drawing_inv (fold (\<lambda>(sh, c). place_copy master sh c) cs d)"
  by (induction cs arbitrary: d) (auto simp: place_copy_inv(1))

lemma place_fold_keeps:
  "drawing_inv d \<Longrightarrow> cell d n i s = Some p \<Longrightarrow>
   list_all (\<lambda>(sh, c). \<not> (n = node_of c \<and> i = cp_index c \<and> s = cp_shard c)) cs \<Longrightarrow>
   cell (fold (\<lambda>(sh, c). place_copy master sh c) cs d) n i s = Some p"
  by (induction cs arbitrary: d) (auto simp: place_copy_inv(1) place_other)

lemma place_fold_all:
  assumes "drawing_inv d" "(sh, c) \<in> set cs" "assigned sh c"
    "sorted_wrt (\<lambda>(_, c) (_, c'). \<not> same_cell c c') cs"
  shows "map_option pl_copy (cell (fold (\<lambda>(sh, c). place_copy master sh c) cs d) (node_of c) (cp_index c) (cp_shard c)) = Some c"
proof -
  obtain xs ys where cs: "cs = xs @ (sh, c) # ys" using assms(2) by (meson split_list)
  let ?d = "fold (\<lambda>(sh, c). place_copy master sh c) xs d"
  have inv: "drawing_inv ?d" using assms(1) by (rule place_fold_inv)
  from place_self [OF inv assms(3), of master] obtain p where
      p: "cell (place_copy master sh c ?d) (node_of c) (cp_index c) (cp_shard c) = Some p" "pl_copy p = c"
    by blast
  have "list_all (\<lambda>(sh, c'). \<not> (node_of c = node_of c' \<and> cp_index c = cp_index c' \<and> cp_shard c = cp_shard c')) ys"
    using assms(3,4) by (auto simp: cs sorted_wrt_append same_cell_def list_all_iff assigned_def node_of_def split: option.splits)
  from place_fold_keeps [OF place_copy_inv(1) [OF inv] p(1) this] p(2) show ?thesis by (simp add: cs)
qed

text \<open>
  What Elasticsearch guarantees of its routing table: a copy is listed under its own index and shard number,
  and a node holds at most one copy of a shard.
\<close>

definition well_routed :: "cluster_data \<Rightarrow> bool" where
  "well_routed s \<longleftrightarrow> wf_dict (cd_routing s) \<and> list_all (\<lambda>(i, shards). wf_dict shards \<and> list_all (\<lambda>(k, copies).
      list_all (\<lambda>c. cp_index c = i \<and> show_nat (cp_shard c) = k) copies
      \<and> sorted_wrt (\<lambda>c c'. cp_node c = None \<or> cp_node c \<noteq> cp_node c') copies) shards) (cd_routing s)"

lemma sorted_wrt_concat:
  "list_all (sorted_wrt P) xss \<Longrightarrow> sorted_wrt (\<lambda>xs ys. list_all (\<lambda>x. list_all (P x) ys) xs) xss \<Longrightarrow> sorted_wrt P (concat xss)"
  by (induction xss) (fastforce simp: sorted_wrt_append list_all_iff)+

lemma distinct_sorted_wrt: "distinct (map f xs) \<Longrightarrow> sorted_wrt (\<lambda>x y. f x \<noteq> f y) xs"
  by (induction xs) auto

lemma well_routed_copies:
  assumes "well_routed s" "(i, shards) \<in> set (cd_routing s)"
  shows "sorted_wrt (\<lambda>(_, c) (_, c'). \<not> same_cell c c') (copies_of shards)"
    "(sh, c) \<in> set (copies_of shards) \<Longrightarrow> cp_index c = i"
proof -
  have w: "wf_dict shards" and
    l: "\<And>k copies. (k, copies) \<in> set shards \<Longrightarrow> list_all (\<lambda>c. cp_index c = i \<and> show_nat (cp_shard c) = k) copies
      \<and> sorted_wrt (\<lambda>c c'. cp_node c = None \<or> cp_node c \<noteq> cp_node c') copies"
    using assms unfolding well_routed_def list_all_iff by fastforce+
  have shard: "\<And>k copies c. c \<in> set copies \<Longrightarrow> (k, copies) \<in> set shards \<Longrightarrow> show_nat (cp_shard c) = k"
    using l by (fastforce simp: list_all_iff)
  have "sorted_wrt (\<lambda>x y. fst x \<noteq> fst y) shards"
    using w by (intro distinct_sorted_wrt) (simp add: wf_dict_def keys_def)
  then have "sorted_wrt (\<lambda>x y. list_all (\<lambda>(_, c). list_all (\<lambda>(_, c'). \<not> same_cell c c')
        (map (\<lambda>c. (shards, c)) (snd y))) (map (\<lambda>c. (shards, c)) (snd x))) shards"
    by (rule sorted_wrt_mono_rel [rotated]) (auto simp: list_all_iff same_cell_def dest!: shard)
  moreover have "sorted_wrt (\<lambda>c c'. \<not> same_cell c c') copies" if "(k, copies) \<in> set shards" for k copies
    by (rule sorted_wrt_mono_rel [OF _ l [OF that, THEN conjunct2]])
      (auto simp: same_cell_def node_of_def split: option.splits)
  ultimately show "sorted_wrt (\<lambda>(_, c) (_, c'). \<not> same_cell c c') (copies_of shards)"
    unfolding copies_of_def
    by (intro sorted_wrt_concat) (auto simp: list_all_iff sorted_wrt_map case_prod_beta split_def)
  show "(sh, c) \<in> set (copies_of shards) \<Longrightarrow> cp_index c = i"
    using l by (fastforce simp: copies_of_def list_all_iff)
qed

lemma set_index_names: "set (index_names desc keep s) = {i \<in> set (keys (cd_routing s)). keep i}"
  by (auto simp: index_names_def Let_def)

lemma shards_of_in: "i \<in> set (index_names desc keep s) \<Longrightarrow> (i, shards_of s i) \<in> set (cd_routing s)"
  by (auto simp: set_index_names shards_of_def keys_def dest: map_of_SomeD split: option.splits)
    (metis image_eqI fst_conv map_of_eq_None_iff)

lemma all_copies_apart:
  assumes "well_routed s"
  shows "sorted_wrt (\<lambda>(_, c) (_, c'). \<not> same_cell c c') (all_copies desc keep s)"
proof -
  have "distinct (index_names desc keep s)"
    using assms by (simp add: well_routed_def wf_dict_def index_names_def Let_def)
  then have "sorted_wrt (\<noteq>) (index_names desc keep s)"
    using distinct_sorted_wrt [of "\<lambda>x. x" "index_names desc keep s"] by simp
  then have "sorted_wrt (\<lambda>i j. list_all (\<lambda>(_, c). list_all (\<lambda>(_, c'). \<not> same_cell c c') (copies_of (shards_of s j)))
      (copies_of (shards_of s i))) (index_names desc keep s)"
    by (rule sorted_wrt_mono_rel [rotated])
      (auto simp: list_all_iff same_cell_def dest!: shards_of_in well_routed_copies(2) [OF assms])
  moreover have "list_all (sorted_wrt (\<lambda>(_, c) (_, c'). \<not> same_cell c c'))
      (map (\<lambda>i. copies_of (shards_of s i)) (index_names desc keep s))"
    by (auto simp: list_all_iff intro: well_routed_copies(1) [OF assms] shards_of_in)
  ultimately show ?thesis
    unfolding all_copies_def by (intro sorted_wrt_concat) (auto simp: sorted_wrt_map case_prod_beta split_def)
qed

lemma copy_in_cell:
  assumes "well_routed s" "map_of (cd_routing s) i = Some shards" "keep i" "map_of shards k = Some copies"
    "c \<in> set copies" "cp_node c = Some n" "n \<noteq> ''Unassigned''"
  shows "map_option pl_copy (cell (place_all desc keep s) n i (cp_shard c)) = Some c"
proof -
  have i: "(i, shards) \<in> set (cd_routing s)" using assms(2) by (rule map_of_SomeD)
  then have wf: "cp_index c = i" "show_nat (cp_shard c) = k"
    using assms(1) map_of_SomeD [OF assms(4)] assms(5) unfolding well_routed_def list_all_iff by fastforce+
  have "i \<in> set (index_names desc keep s)" using assms(3) i by (force simp: set_index_names keys_def)
  moreover have "shards_of s i = shards" by (simp add: shards_of_def assms(2))
  moreover have "(shards, c) \<in> set (copies_of shards)"
    using map_of_SomeD [OF assms(4)] assms(5) by (force simp: copies_of_def)
  ultimately have m: "(shards, c) \<in> set (all_copies desc keep s)" by (force simp: all_copies_def)
  have a: "assigned shards c" using assms(4,6,7) wf by (simp add: assigned_def)
  from place_fold_all [OF known_nodes_inv m a all_copies_apart [OF assms(1)], of "cd_master s"] show ?thesis
    by (simp add: place_all_flat wf node_of_def assms(6))
qed

lemma fill_nodes_nth:
  "fill_nodes s vs rows = Inr rows' \<Longrightarrow> k < length rows \<Longrightarrow> k < length rows' \<and> fill_node s vs (rows ! k) = Inr (rows' ! k)"
proof (induction rows arbitrary: rows' k)
  case (Cons n rest)
  from Cons.prems(1) obtain n' rest' where n': "fill_node s vs n = Inr n'" "fill_nodes s vs rest = Inr rest'" "rows' = n' # rest'"
    by auto
  show ?case
  proof (cases k)
    case 0
    with n' show ?thesis by simp
  next
    case (Suc q)
    with n' Cons.IH [OF n'(2), of q] Cons.prems(2) show ?thesis by simp
  qed
qed simp

lemma ins_by_set: "ins_by c x ys = Inr zs \<Longrightarrow> set zs = insert x (set ys)"
  by (induction ys arbitrary: zs) (auto split: if_splits)

lemma sort_by_set: "sort_by c xs = Inr ys \<Longrightarrow> set ys = set xs"
proof -
  have "foldl (\<lambda>r x. res_bind r (ins_by c x)) r xs = Inr ys \<Longrightarrow> \<exists>zs. r = Inr zs \<and> set ys = set zs \<union> set xs" for r
  proof (induction xs arbitrary: r)
    case (Cons x xs)
    then have "\<exists>zs. res_bind r (ins_by c x) = Inr zs \<and> set ys = set zs \<union> set xs"
      by (intro Cons.IH) simp
    then obtain zs where zs: "res_bind r (ins_by c x) = Inr zs" "set ys = set zs \<union> set xs" by blast
    then show ?case by (cases r) (simp_all add: ins_by_set)
  qed simp
  from this [of "Inr []"] show "sort_by c xs = Inr ys \<Longrightarrow> set ys = set xs" by (auto simp: sort_by_def)
qed

lemma fill_node_cell:
  assumes "fill_node s vs row = Inr row'" "hole_at (nv_routings row) j = Some r" "j < length vs"
  shows "nv_name row' = nv_name row \<and> (\<exists>r'. nv_routings row' ! j = Some r' \<and> rt_replicas r' = rt_replicas r)"
  using assms by (auto simp: fill_node_def fill_cell_def nth_append Let_def split: if_splits option.splits)

text \<open>C1: In the drawing of a cluster whose routing table is well formed, every copy of a shard that is assigned to a
  node, of an index that the filter keeps, stands in the row of that node, under the column of that index, at the
  number of its shard, whatever the order of the indices and of the nodes.\<close>

theorem draw_places_copies:
  assumes "draw nodeSort desc keep s = Inr ov" "well_routed s"
    "map_of (cd_routing s) i = Some shards" "keep i" "map_of shards k = Some copies"
    "c \<in> set copies" "cp_node c = Some n" "n \<noteq> ''Unassigned''"
  shows "\<exists>row j r p. row \<in> set (ov_nodes ov) \<and> nv_name row = n \<and> Suc j < length (ov_indices ov)
    \<and> iv_name (ov_indices ov ! Suc j) = Some i \<and> nv_routings row ! j = Some r
    \<and> hole_at (rt_replicas r) (cp_shard c) = Some p \<and> pl_copy p = c"
proof -
  let ?d = "place_all desc keep s"
  let ?vs = "index_views keep s ?d"
  have inv: "drawing_inv ?d" unfolding place_all_flat by (rule place_fold_inv [OF known_nodes_inv])
  obtain rows where rows: "fill_nodes s ?vs (d_nodes ?d) = Inr rows" "sort_by nodeSort rows = Inr (ov_nodes ov)"
      "ov_indices ov = no_index # ?vs"
    using assms(1) by (auto simp: draw_def Let_def nodeFilter_none_def)
  obtain p where p: "cell ?d n i (cp_shard c) = Some p" "pl_copy p = c"
    using copy_in_cell [where keep = keep and desc = desc, OF assms(2-8)] by blast
  then obtain k j r where kj: "map_of (d_nodeIndices ?d) n = Some k" "map_of (d_indexIndices ?d) i = Some j"
      "hole_at (nv_routings (d_nodes ?d ! k)) j = Some r" "hole_at (rt_replicas r) (cp_shard c) = Some p"
    by (auto simp: cell_def routing_of_def split: option.splits)
  have k: "k < length (d_nodes ?d)" "nv_name (d_nodes ?d ! k) = n" using inv_node [OF inv kj(1)] by auto
  have j: "j < length (d_indices ?d)" "d_indices ?d ! j = i" using inv_index [OF inv kj(2)] by auto
  then have v: "j < length ?vs" "iv_name (?vs ! j) = Some i" by (simp_all add: index_views_def nth_append)
  have row: "k < length rows" "fill_node s ?vs (d_nodes ?d ! k) = Inr (rows ! k)"
    using fill_nodes_nth [OF rows(1) k(1)] by auto
  obtain r' where r': "nv_name (rows ! k) = n" "nv_routings (rows ! k) ! j = Some r'" "rt_replicas r' = rt_replicas r"
    using fill_node_cell [OF row(2) kj(3) v(1)] k(2) by auto
  have "rows ! k \<in> set (ov_nodes ov)" using row(1) sort_by_set [OF rows(2)] by simp
  then show ?thesis
    using r' v rows(3) kj(4) p(2)
    by (intro exI [of _ "rows ! k"] exI [of _ j] exI [of _ r'] exI [of _ p]) simp
qed

definition lc_sample :: "string \<Rightarrow> string \<Rightarrow> int" where
  "lc_sample a b = (if a < b then -1 else if a = b then 0 else 1)"

definition copy_sample :: "string option \<Rightarrow> string \<Rightarrow> nat \<Rightarrow> bool \<Rightarrow> shard_copy" where
  "copy_sample n i s p = \<lparr> cp_node = n, cp_index = i, cp_shard = s, cp_primary = p, cp_state = ''STARTED'' \<rparr>"

definition cluster_sample :: cluster_data where
  "cluster_sample =
     \<lparr> cd_master = ''n2'',
       cd_routing = [(''a'', [(''0'', [copy_sample (Some ''n1'') ''a'' 0 True]), (''1'', [copy_sample (Some ''n2'') ''a'' 1 True, copy_sample None ''a'' 1 False])]),
                     (''b'', [(''0'', [copy_sample (Some ''n1'') ''b'' 0 True, copy_sample (Some ''n2'') ''b'' 0 False])])],
       cd_metadata = map (\<lambda>i. (i, \<lparr> im_state = ''open'', im_aliases = [''x''], im_settings = None \<rparr>)) [''a'', ''b''],
       cd_status = [], cd_stats = [],
       cd_nodes = map (\<lambda>n. (n, \<lparr> ni_name = n, ni_address = n, ni_host = n, ni_data = None, ni_tribe = False \<rparr>)) [''n1'', ''n2''] \<rparr>"

theorem draw_places_copies_witness:
  "\<exists>ov row j r p. draw (nodeSort_type lc_sample) True (\<lambda>_. True) cluster_sample = Inr ov
    \<and> row \<in> set (ov_nodes ov) \<and> nv_name row = ''n2'' \<and> Suc j < length (ov_indices ov)
    \<and> iv_name (ov_indices ov ! Suc j) = Some ''a'' \<and> nv_routings row ! j = Some r
    \<and> hole_at (rt_replicas r) 1 = Some p \<and> pl_copy p = copy_sample (Some ''n2'') ''a'' 1 True"
proof -
  have "case draw (nodeSort_type lc_sample) True (\<lambda>_. True) cluster_sample of Inr ov \<Rightarrow> True | Inl _ \<Rightarrow> False" by code_simp
  then obtain ov where ov: "draw (nodeSort_type lc_sample) True (\<lambda>_. True) cluster_sample = Inr ov" by (auto split: sum.splits)
  have "well_routed cluster_sample" by code_simp
  from draw_places_copies [OF ov this, of "''a''" "[(''0'', [copy_sample (Some ''n1'') ''a'' 0 True]),
      (''1'', [copy_sample (Some ''n2'') ''a'' 1 True, copy_sample None ''a'' 1 False])]" "''1''"
      "[copy_sample (Some ''n2'') ''a'' 1 True, copy_sample None ''a'' 1 False]"
      "copy_sample (Some ''n2'') ''a'' 1 True" "''n2''"] ov
  show ?thesis by (auto simp: cluster_sample_def copy_sample_def)
qed

section \<open>Where the drawing fails or misleads\<close>

lemma ins_by_unknown:
  assumes "\<And>a b. bad a \<or> bad b \<Longrightarrow> c a b = Inl e" "ys \<noteq> []" "bad x \<or> ys = [y] \<and> bad y"
  shows "ins_by c x ys = Inl e"
  using assms by (cases ys) auto

lemma sort_by_unknown:
  assumes bad: "\<And>a b. bad a \<or> bad b \<Longrightarrow> c a b = Inl (TypeError :: jserr)" and total: "\<And>a b e. c a b = Inl e \<Longrightarrow> e = TypeError"
    and "x \<in> set xs" "bad x" "2 \<le> length xs"
  shows "sort_by c xs = Inl TypeError"
proof -
  have err: "foldl (\<lambda>r x. res_bind r (ins_by c x)) (Inl e) zs = Inl e" for e zs by (induction zs) auto
  have ins: "ins_by c z ys = Inl e \<Longrightarrow> e = TypeError" for z ys e
  proof (induction ys)
    case (Cons y ys)
    then show ?case by (cases "c y z"; cases "ins_by c z ys") (auto split: if_splits dest: total)
  qed simp
  have step: "x \<in> set zs \<Longrightarrow> ys \<noteq> [] \<Longrightarrow> foldl (\<lambda>r x. res_bind r (ins_by c x)) (Inr ys) zs = Inl TypeError" for ys zs
  proof (induction zs arbitrary: ys)
    case (Cons z zs)
    show ?case
    proof (cases "ins_by c z ys")
      case (Inl e)
      then show ?thesis using ins err by auto
    next
      case (Inr ws)
      then have "z \<noteq> x" using ins_by_unknown [of bad c TypeError ys x] bad assms(4) Cons.prems(2) by auto
      moreover have "ws \<noteq> []" using ins_by_set [OF Inr] by auto
      ultimately show ?thesis using Cons Inr by auto
    qed
  qed simp
  obtain a b zs where xs: "xs = a # b # zs" using assms(5) by (cases xs; cases "tl xs") auto
  show ?thesis
  proof (cases "bad a \<or> bad b")
    case True
    then have "ins_by c b [a] = Inl TypeError" using bad by simp
    then show ?thesis by (simp add: sort_by_def xs err)
  next
    case False
    then have "x \<in> set (b # zs)" "x \<noteq> b" using assms(3,4) xs by auto
    then show ?thesis using step [of "b # zs" "[a]"] by (simp add: sort_by_def xs)
  qed
qed

lemma place_fold_nodes:
  "drawing_inv d \<Longrightarrow> map_of (d_nodeIndices d) n \<noteq> None \<or> n \<in> (\<lambda>(_, c). node_of c) ` set cs \<Longrightarrow>
   map_of (d_nodeIndices (fold (\<lambda>(sh, c). place_copy master sh c) cs d)) n \<noteq> None"
proof (induction cs arbitrary: d)
  case (Cons x cs)
  obtain sh c where x: "x = (sh, c)" by fastforce
  obtain k d1 where g: "getIndexForNode master (node_of c) d = (k, d1)" by fastforce
  obtain j rs d2 where h: "getIndexForIndex (nv_routings (d_nodes d1 ! k)) (cp_index c) d1 = (j, rs, d2)"
    using prod_cases3 by blast
  note G = getIndexForNode_inv [OF Cons.prems(1) g]
  have "d_nodeIndices (place_copy master sh c d) = d_nodeIndices d1"
    using getIndexForIndex_inv(4) [OF G(1) h] by (simp add: place_copy_def g h Let_def)
  then have "map_of (d_nodeIndices (place_copy master sh c d)) n \<noteq> None \<or> n \<in> (\<lambda>(_, c). node_of c) ` set cs"
    using Cons.prems(2) G(2) G(7) [of n] by (auto simp: x)
  from Cons.IH [OF place_copy_inv(1) [OF Cons.prems(1)] this] show ?case by (simp add: x)
qed simp

lemma known_nodes_in: "n \<in> set (keys (cd_nodes s)) \<Longrightarrow> map_of (d_nodeIndices (known_nodes s)) n \<noteq> None"
proof -
  have *: "drawing_inv d \<Longrightarrow> map_of (d_nodeIndices d) n \<noteq> None \<or> n \<in> set xs \<Longrightarrow>
    map_of (d_nodeIndices (fold (\<lambda>n d. snd (getIndexForNode m n d)) xs d)) n \<noteq> None" for m xs d
  proof (induction xs arbitrary: d)
    case (Cons x xs)
    obtain k d' where g: "getIndexForNode m x d = (k, d')" by fastforce
    note G = getIndexForNode_inv [OF Cons.prems(1) g]
    from Cons.prems(2) G(2) G(7) [of n] have "map_of (d_nodeIndices d') n \<noteq> None \<or> n \<in> set xs" by auto
    from Cons.IH [OF G(1) this] show ?case by (simp add: g)
  qed simp
  show "n \<in> set (keys (cd_nodes s)) \<Longrightarrow> ?thesis"
    unfolding known_nodes_def by (rule *) (simp_all add: drawing_inv_def)
qed

lemma fill_nodes_error: "fill_nodes s vs rows = Inl e \<Longrightarrow> e = TypeError"
proof (induction rows)
  case (Cons n rest)
  then show ?case
    by (cases "fill_node s vs n"; cases "fill_nodes s vs rest") (auto simp: fill_node_def split: if_splits)
qed simp

lemma fill_node_cluster: "fill_node s vs n = Inr n' \<Longrightarrow> nv_cluster n' = map_of (cd_nodes s) (nv_name n)"
  by (auto simp: fill_node_def split: if_splits)

lemma fill_nodes_length: "fill_nodes s vs rows = Inr rows' \<Longrightarrow> length rows' = length rows"
  by (induction rows arbitrary: rows') auto

text \<open>C16: Once a copy of a shown index is unassigned, the overview of a cluster with a known node cannot be sorted by
  address: the row \<open>Unassigned\<close> has no address, and drawing throws.\<close>

theorem sort_by_address_fails:
  assumes "map_of (cd_routing s) i = Some shards" "keep i" "map_of shards k = Some copies" "c \<in> set copies"
    "cp_node c = None" "n \<in> set (keys (cd_nodes s))" "map_of (cd_nodes s) ''Unassigned'' = None"
  shows "draw (nodeSort_addr lc) desc keep s = Inl TypeError"
proof -
  let ?d = "place_all desc keep s"
  let ?vs = "index_views keep s ?d"
  let ?bad = "\<lambda>r. nv_cluster r = None"
  have inv: "drawing_inv ?d" unfolding place_all_flat by (rule place_fold_inv [OF known_nodes_inv])
  have "i \<in> set (index_names desc keep s)"
    using assms(2) map_of_SomeD [OF assms(1)] by (force simp: set_index_names keys_def)
  moreover have "shards_of s i = shards" by (simp add: shards_of_def assms(1))
  moreover have "(shards, c) \<in> set (copies_of shards)"
    using map_of_SomeD [OF assms(3)] assms(4) by (force simp: copies_of_def)
  ultimately have "(shards, c) \<in> set (all_copies desc keep s)" by (force simp: all_copies_def)
  then have "''Unassigned'' \<in> (\<lambda>(_, c). node_of c) ` set (all_copies desc keep s)"
    using assms(5) by (force simp: node_of_def)
  then have "map_of (d_nodeIndices ?d) ''Unassigned'' \<noteq> None"
    unfolding place_all_flat by (intro place_fold_nodes known_nodes_inv) simp
  then obtain u where u: "u < length (d_nodes ?d)" "nv_name (d_nodes ?d ! u) = ''Unassigned''" using inv_node [OF inv] by blast
  have "map_of (d_nodeIndices ?d) n \<noteq> None"
    unfolding place_all_flat using known_nodes_in [OF assms(6)] by (intro place_fold_nodes known_nodes_inv) simp
  then obtain q where q: "q < length (d_nodes ?d)" "nv_name (d_nodes ?d ! q) = n" using inv_node [OF inv] by blast
  have "n \<noteq> ''Unassigned''" using assms(6,7) by (force simp: keys_def map_of_eq_None_iff)
  then have two: "2 \<le> length (d_nodes ?d)" using u q by (cases "u = q") auto
  show ?thesis
  proof (cases "fill_nodes s ?vs (d_nodes ?d)")
    case (Inl e)
    then show ?thesis using fill_nodes_error [OF Inl] by (simp add: draw_def Let_def)
  next
    case (Inr rows)
    have r: "u < length rows" "?bad (rows ! u)"
      using fill_nodes_nth [OF Inr u(1)] fill_node_cluster u(2) assms(7) by auto
    have "sort_by (nodeSort_addr lc) rows = Inl TypeError"
      by (rule sort_by_unknown [of ?bad _ "rows ! u"])
        (use r two in \<open>auto simp: nodeSort_addr_def fill_nodes_length [OF Inr] split: option.splits\<close>)
    then show ?thesis by (simp add: draw_def Let_def Inr nodeFilter_none_def)
  qed
qed

theorem sort_by_address_fails_witness:
  "draw (nodeSort_addr lc_sample) False (\<lambda>_. True) cluster_sample = Inl TypeError"
  by (rule sort_by_address_fails [of cluster_sample "''a''" "[(''0'', [copy_sample (Some ''n1'') ''a'' 0 True]),
      (''1'', [copy_sample (Some ''n2'') ''a'' 1 True, copy_sample None ''a'' 1 False])]" _ "''1''"
      "[copy_sample (Some ''n2'') ''a'' 1 True, copy_sample None ''a'' 1 False]" "copy_sample None ''a'' 1 False" "''n1''"])
    (simp_all add: cluster_sample_def copy_sample_def keys_def)

text \<open>The bounds of a row of aliases are \<open>NaN\<close> exactly when the alias has an index without a column, which is
  closed or hidden by the filter.\<close>

definition alias_pairs :: "cluster_data \<Rightarrow> drawing \<Rightarrow> (nat option \<times> string) list" where
  "alias_pairs s d = concat (map (\<lambda>(i, m). map (\<lambda>a. (map_of (d_indexIndices d) i, a)) (im_aliases m)) (cd_metadata s))"

lemma alias_rows_flat: "alias_rows s d vs = snd (fold (\<lambda>(p, a). add_alias_row vs p a) (alias_pairs s d) ([], []))"
proof -
  have "fold (\<lambda>(i, m). fold (add_alias_row vs (map_of (d_indexIndices d) i)) (im_aliases m)) xs acc =
    fold (\<lambda>(p, a). add_alias_row vs p a) (concat (map (\<lambda>(i, m). map (\<lambda>a. (map_of (d_indexIndices d) i, a)) (im_aliases m)) xs)) acc"
    for xs :: "index_meta dict" and acc
    by (induction xs arbitrary: acc) (auto simp: fold_map o_def)
  then show ?thesis by (simp add: alias_rows_def alias_pairs_def)
qed

definition alias_inv :: "(nat option \<times> string) list \<Rightarrow> nat dict \<times> alias_row list \<Rightarrow> bool" where
  "alias_inv ps acc \<longleftrightarrow>
     (\<forall>a k. map_of (fst acc) a = Some k \<longleftrightarrow> k < length (snd acc) \<and> ar_name (snd acc ! k) = a)
     \<and> list_all (\<lambda>r. ar_min r = None \<longleftrightarrow> (None, ar_name r) \<in> set ps) (snd acc)
     \<and> (\<forall>p a. (p, a) \<in> set ps \<longrightarrow> map_of (fst acc) a \<noteq> None)"

lemma add_alias_inv:
  assumes "alias_inv ps acc"
  shows "alias_inv (ps @ [(p, a)]) (add_alias_row vs p a acc)"
proof -
  obtain ix rows where acc: "acc = (ix, rows)" by fastforce
  have min: "ar_min (put_alias vs p r) = None \<longleftrightarrow> ar_min r = None \<or> p = None" and name: "ar_name (put_alias vs p r) = ar_name r" for r
    by (simp_all add: put_alias_def nan_min_def split: option.split)
  have ix: "map_of ix b = Some k \<longleftrightarrow> k < length rows \<and> ar_name (rows ! k) = b" for b k
    using assms by (simp add: alias_inv_def acc)
  have found: "\<forall>q b. (q, b) \<in> set ps \<longrightarrow> map_of ix b \<noteq> None"
    and rows: "list_all (\<lambda>r. ar_min r = None \<longleftrightarrow> (None, ar_name r) \<in> set ps) rows"
    using assms unfolding alias_inv_def acc fst_conv snd_conv by blast+
  show ?thesis
  proof (cases "map_of ix a")
    case (Some k)
    then have k: "k < length rows" "ar_name (rows ! k) = a" using ix [of a k] by simp_all
    have other: "q < length rows \<Longrightarrow> q \<noteq> k \<Longrightarrow> ar_name (rows ! q) \<noteq> a" for q using ix [of a q] Some by auto
    have "list_all (\<lambda>r. ar_min r = None \<longleftrightarrow> (None, ar_name r) \<in> set (ps @ [(p, a)])) (rows[k := put_alias vs p (rows ! k)])"
      using k other rows by (auto simp: list_all_length nth_list_update min name)
    moreover have "(map_of ix b = Some q) = (q < length rows \<and> ar_name (rows[k := put_alias vs p (rows ! k)] ! q) = b)" for b q
      using ix [of b q] by (cases "q = k") (auto simp: name)
    moreover have "add_alias_row vs p a acc = (ix, rows[k := put_alias vs p (rows ! k)])"
      by (simp add: acc add_alias_row_def Some)
    moreover have "\<forall>q b. (q, b) \<in> set (ps @ [(p, a)]) \<longrightarrow> map_of ix b \<noteq> None" using found Some by auto
    ultimately show ?thesis unfolding alias_inv_def by simp
  next
    case None
    have free: "ar_name r \<noteq> a" if in_rows: "r \<in> set rows" for r
    proof -
      obtain k where "k < length rows" "rows ! k = r" using in_rows unfolding in_set_conv_nth by blast
      with ix [of a k] None show ?thesis by simp
    qed
    have "(q, a) \<notin> set ps" for q using None found by blast
    moreover have "add_alias_row vs p a acc = (dput a (length rows) ix, rows @ [put_alias vs p (new_alias vs a)])"
      by (simp add: acc add_alias_row_def None)
    moreover have "(map_of (dput a (length rows) ix) b = Some k) =
        (k < Suc (length rows) \<and> ar_name ((rows @ [put_alias vs p (new_alias vs a)]) ! k) = b)" for b k
      using ix [of b k] None ix [of a k] by (auto simp: nth_append name new_alias_def less_Suc_eq)
    moreover have "list_all (\<lambda>r. ar_min r = None \<longleftrightarrow> (None, ar_name r) \<in> set (ps @ [(p, a)])) (rows @ [put_alias vs p (new_alias vs a)])"
      using free rows \<open>\<And>q. (q, a) \<notin> set ps\<close> by (auto simp: list_all_iff min name new_alias_def)
    moreover have "\<forall>q b. (q, b) \<in> set (ps @ [(p, a)]) \<longrightarrow> map_of (dput a (length rows) ix) b \<noteq> None" using found by auto
    ultimately show ?thesis unfolding alias_inv_def by simp
  qed
qed

lemma alias_bounds_nan:
  assumes "r \<in> set (alias_rows s d vs)"
  shows "ar_min r = None \<longleftrightarrow> (None, ar_name r) \<in> set (alias_pairs s d)"
proof -
  have "alias_inv ps (fold (\<lambda>(p, a). add_alias_row vs p a) ps ([], []))" for ps
    by (induction ps rule: rev_induct) (simp add: alias_inv_def, auto simp: add_alias_inv)
  with assms show ?thesis by (auto simp: alias_rows_flat alias_inv_def list_all_iff)
qed

end
