(* ===== verification/NodesView.thy ===== *)
theory NodesView
  imports Overview Widgets Results
begin

text \<open>
  The cluster as a table, \<^verbatim>\<open>ui/nodesView/nodesView.js\<close>: its templates, its menus and the
  requests they lead to; the settings of \<^verbatim>\<open>ui/clusterOverview/clusterOverview.js\<close> that are kept
  as preferences; and the list of indices of \<^verbatim>\<open>ui/indexOverview/indexOverview.js\<close>.
\<close>

section \<open>Texts of addresses and of JSON\<close>

definition uri_safe :: "char \<Rightarrow> bool" where
  "uri_safe c \<longleftrightarrow> (let n = of_char c :: nat in
     48 \<le> n \<and> n \<le> 57 \<or> 65 \<le> n \<and> n \<le> 90 \<or> 97 \<le> n \<and> n \<le> 122) \<or> c \<in> set ''-_.!~*()'' \<or> c = CHR 0x27"

definition upper_hex :: "nat \<Rightarrow> char" where
  "upper_hex d = (if d < 10 then char_of (48 + d) else char_of (55 + d))"

definition percent :: "nat \<Rightarrow> string" where
  "percent b = [CHR ''%'', upper_hex (b div 16), upper_hex (b mod 16)]"

text \<open>\<open>encodeURIComponent\<close>: the bytes of UTF-8, two of them from 128 on.\<close>

definition encode_char :: "char \<Rightarrow> string" where
  "encode_char c =
     (let n = of_char c :: nat
      in if uri_safe c then [c] else if n < 128 then percent n else percent (192 + n div 64) @ percent (128 + n mod 64))"

definition encodeURIComponent :: "string \<Rightarrow> string" where
  "encodeURIComponent s = concat (map encode_char s)"

lemma upper_hex_safe: "d < 16 \<Longrightarrow> uri_safe (upper_hex d)"
  by (auto simp: uri_safe_def upper_hex_def Let_def)

lemma percent_safe: "b < 256 \<Longrightarrow> c \<in> set (percent b) \<Longrightarrow> uri_safe c \<or> c = CHR ''%''"
  using upper_hex_safe [of "b div 16"] upper_hex_safe [of "b mod 16"] by (auto simp: percent_def)

lemma encode_char_safe: "x \<in> set (encode_char c) \<Longrightarrow> uri_safe x \<or> x = CHR ''%''"
proof -
  have n: "(of_char c :: nat) < 256" by simp
  then have "192 + of_char c div 64 < (256::nat)" "128 + of_char c mod 64 < (256::nat)" by linarith+
  then show "x \<in> set (encode_char c) \<Longrightarrow> ?thesis"
    using percent_safe [of "of_char c"] percent_safe [of "192 + of_char c div 64" x] percent_safe [of "128 + of_char c mod 64" x] n
    by (auto simp: encode_char_def Let_def split: if_splits)
qed

lemma encode_safe: "x \<in> set (encodeURIComponent s) \<Longrightarrow> uri_safe x \<or> x = CHR ''%''"
  by (auto simp: encodeURIComponent_def dest: encode_char_safe)

lemma encode_no_separator: "c \<in> set ''/?#&='' \<Longrightarrow> c \<notin> set (encodeURIComponent s)"
  using encode_safe [of c s] by (auto simp: uri_safe_def)

text \<open>\<open>JSON.stringify\<close> of a value that has a JSON text.\<close>

definition json_char :: "char \<Rightarrow> string" where
  "json_char c =
     (if c = dquote then [backslash, dquote] else if c = backslash then [backslash, backslash]
      else if c = CHR 0x08 then [backslash, CHR ''b''] else if c = CHR 0x0C then [backslash, CHR ''f'']
      else if c = CHR 0x0A then [backslash, CHR ''n''] else if c = CHR 0x0D then [backslash, CHR ''r'']
      else if c = CHR 0x09 then [backslash, CHR ''t'']
      else if (of_char c :: nat) < 32 then [backslash, CHR ''u''] @ zeroPad 4 (show_hex (of_char c))
      else [c])"

definition json_quote :: "string \<Rightarrow> string" where
  "json_quote s = dquote # concat (map json_char s) @ [dquote]"

function compact_text :: "jsval \<Rightarrow> string"
  and compact_members :: "obj \<Rightarrow> string list" where
  "compact_text v =
     (case v of
        Bool b \<Rightarrow> (if b then ''true'' else ''false'')
      | Num n \<Rightarrow> show_int n
      | Str s \<Rightarrow> json_quote s
      | Arr vs \<Rightarrow> ''['' @ join '','' (map compact_text vs) @ '']''
      | Obj fs \<Rightarrow> ''{'' @ join '','' (compact_members fs) @ ''}''
      | _ \<Rightarrow> ''null'')"
| "compact_members [] = []"
| "compact_members ((k, v) # fs) = (json_quote k @ '':'' @ compact_text v) # compact_members fs"
  by pat_completeness auto
termination
  by (relation "measures [\<lambda>x. case x of Inl v \<Rightarrow> size v | Inr fs \<Rightarrow> size_list (size_prod (\<lambda>_. 0) size) fs,
                          \<lambda>x. case x of Inl _ \<Rightarrow> 0 | Inr _ \<Rightarrow> 1]")
    (auto simp: less_Suc_eq_le size_list_estimation')

definition stringify :: "jsval \<Rightarrow> string" where
  "stringify v = compact_text (json_value v)"

text \<open>\<open>jQuery.param\<close> of an object of plain values.\<close>

fun plus_spaces :: "string \<Rightarrow> string" where
  "plus_spaces [] = []"
| "plus_spaces (c # s) =
     (if starts_with ''%20'' (c # s) then CHR ''+'' # plus_spaces (drop 2 s) else c # plus_spaces s)"

definition jq_param :: "obj \<Rightarrow> string" where
  "jq_param fs =
     plus_spaces (join ''&'' (map (\<lambda>(k, v). encodeURIComponent k @ ''='' @ encodeURIComponent (to_string v)) fs))"

section \<open>The requests\<close>

text \<open>
  What a handler sends: the body of a post is \<open>null\<close>, a text or an object. \<open>cl_redraw\<close> says
  whether the answer makes the view fire \<open>redraw\<close>. A handler that stops at a question or at a form
  sends nothing.
\<close>

record request_call =
  cl_type :: string
  cl_path :: string
  cl_body :: jsval
  cl_redraw :: bool

definition alias_command :: "string \<Rightarrow> string \<Rightarrow> string \<Rightarrow> string" where
  "alias_command verb index name =
     stringify (Obj [(''actions'', Arr [Obj [(verb, Obj [(''index'', Str index), (''alias'', Str name)])]])])"

definition newAlias_fields :: "i18n \<Rightarrow> form_item list" where
  "newAlias_fields tr =
     [Text_field \<lparr> tf_name = ''alias'', tf_label = tr ''AliasForm.AliasName'' [], tf_require = Required, tf_value = [] \<rparr>]"

definition newAliasAction_handler :: "string \<Rightarrow> form_item list \<Rightarrow> request_call option" where
  "newAliasAction_handler index fs =
     (if fc_validate field_validate fs
      then Some \<lparr> cl_type = ''POST'', cl_path = ''_aliases'',
             cl_body = Str (alias_command ''add'' index (to_string (dget (fc_getData field_name field_val fs) ''alias''))), cl_redraw = True \<rparr>
      else None)"

definition postIndexAction_handler :: "string \<Rightarrow> string \<Rightarrow> bool \<Rightarrow> request_call" where
  "postIndexAction_handler action index redraw =
     \<lparr> cl_type = ''POST'', cl_path = encodeURIComponent index @ ''/'' @ encodeURIComponent action, cl_body = Null, cl_redraw = redraw \<rparr>"

definition optimize_fields :: "i18n \<Rightarrow> form_item list" where
  "optimize_fields tr =
     [Text_field \<lparr> tf_name = ''max_num_segments'', tf_label = tr ''OptimizeForm.MaxSegments'' [], tf_require = Required, tf_value = ''1'' \<rparr>,
      Check_field \<lparr> cf_name = ''only_expunge_deletes'', cf_label = tr ''OptimizeForm.ExpungeDeletes'' [], cf_require = False, cf_checked = False \<rparr>,
      Check_field \<lparr> cf_name = ''flush'', cf_label = tr ''OptimizeForm.FlushAfter'' [], cf_require = False, cf_checked = True \<rparr>,
      Check_field \<lparr> cf_name = ''wait_for_merge'', cf_label = tr ''OptimizeForm.WaitForMerge'' [], cf_require = False, cf_checked = False \<rparr>]"

definition optimizeIndex_handler :: "string \<Rightarrow> form_item list \<Rightarrow> request_call option" where
  "optimizeIndex_handler index fs =
     (if fc_validate field_validate fs
      then Some \<lparr> cl_type = ''POST'', cl_path = encodeURIComponent index @ ''/_optimize'',
             cl_body = Obj (fc_getData field_name field_val fs), cl_redraw = False \<rparr>
      else None)"

definition forceMerge_fields :: "i18n \<Rightarrow> form_item list" where
  "forceMerge_fields tr =
     [Text_field \<lparr> tf_name = ''max_num_segments'', tf_label = tr ''ForceMergeForm.MaxSegments'' [], tf_require = Required, tf_value = ''1'' \<rparr>,
      Check_field \<lparr> cf_name = ''only_expunge_deletes'', cf_label = tr ''ForceMergeForm.ExpungeDeletes'' [], cf_require = False, cf_checked = False \<rparr>,
      Check_field \<lparr> cf_name = ''flush'', cf_label = tr ''ForceMergeForm.FlushAfter'' [], cf_require = False, cf_checked = True \<rparr>]"

definition forceMergeIndex_handler :: "string \<Rightarrow> form_item list \<Rightarrow> request_call option" where
  "forceMergeIndex_handler index fs =
     (if fc_validate field_validate fs
      then Some \<lparr> cl_type = ''POST'', cl_path = encodeURIComponent index @ ''/_forcemerge?'' @ jq_param (fc_getData field_name field_val fs),
             cl_body = Null, cl_redraw = False \<rparr>
      else None)"

text \<open>The answer to a question is \<open>null\<close> when it is cancelled; \<open>encodeURIComponent(null)\<close> is \<open>null\<close>.\<close>

definition testAnalyser_handler :: "string \<Rightarrow> string option \<Rightarrow> request_call" where
  "testAnalyser_handler index typed =
     \<lparr> cl_type = ''GET'', cl_path = encodeURIComponent index @ ''/_analyze?text='' @
         encodeURIComponent (case typed of None \<Rightarrow> ''null'' | Some a \<Rightarrow> a), cl_body = Undef, cl_redraw = False \<rparr>"

definition deleteIndexAction_handler :: "i18n \<Rightarrow> string \<Rightarrow> string option \<Rightarrow> request_call option" where
  "deleteIndexAction_handler tr index typed =
     (if typed = Some (tr ''Command.DELETE'' [])
      then Some \<lparr> cl_type = ''DELETE'', cl_path = encodeURIComponent index, cl_body = Null, cl_redraw = True \<rparr> else None)"

definition shutdownNode_handler :: "i18n \<Rightarrow> string \<Rightarrow> string option \<Rightarrow> request_call option" where
  "shutdownNode_handler tr node typed =
     (if typed = Some (tr ''Command.SHUTDOWN'' [])
      then Some \<lparr> cl_type = ''POST'', cl_path = ''_cluster/nodes/'' @ encodeURIComponent node @ ''/_shutdown'', cl_body = Null, cl_redraw = True \<rparr> else None)"

definition deleteAliasAction_handler :: "string \<Rightarrow> string \<Rightarrow> bool \<Rightarrow> request_call option" where
  "deleteAliasAction_handler index name confirmed =
     (if confirmed
      then Some \<lparr> cl_type = ''POST'', cl_path = ''_aliases'', cl_body = Str (alias_command ''remove'' index name), cl_redraw = True \<rparr> else None)"

text \<open>
  The menu of an index. \<open>disabled: closed\<close> reads the global \<open>window.closed\<close>, the variable
  \<open>closed\<close> being that of another function; it is false in an open window.
\<close>

datatype index_action =
    New_alias
  | Post string bool
  | Force_merge
  | Optimize
  | Analyse
  | Delete_index

definition index_actions :: "i18n \<Rightarrow> bool \<Rightarrow> bool \<Rightarrow> bool \<Rightarrow> (string \<times> bool \<times> index_action) list" where
  "index_actions tr window_closed five is_closed =
     [(tr ''IndexActionsMenu.NewAlias'' [], False, New_alias),
      (tr ''IndexActionsMenu.Refresh'' [], False, Post ''_refresh'' False),
      (tr ''IndexActionsMenu.Flush'' [], False, Post ''_flush'' False),
      (if five then tr ''IndexActionsMenu.ForceMerge'' [] else tr ''IndexActionsMenu.Optimize'' [], False, if five then Force_merge else Optimize),
      (tr ''IndexActionsMenu.Snapshot'' [], window_closed, Post ''_gateway/snapshot'' False),
      (tr ''IndexActionsMenu.Analyser'' [], False, Analyse),
      (if is_closed then tr ''IndexActionsMenu.Open'' [] else tr ''IndexActionsMenu.Close'' [], False, Post (if is_closed then ''_open'' else ''_close'') True),
      (tr ''IndexActionsMenu.Delete'' [], False, Delete_index)]"

definition index_action_call :: "i18n \<Rightarrow> string \<Rightarrow> form_item list \<Rightarrow> string option \<Rightarrow> index_action \<Rightarrow> request_call option" where
  "index_action_call tr index fs typed a =
     (case a of
        New_alias \<Rightarrow> newAliasAction_handler index fs
      | Post action redraw \<Rightarrow> Some (postIndexAction_handler action index redraw)
      | Force_merge \<Rightarrow> forceMergeIndex_handler index fs
      | Optimize \<Rightarrow> optimizeIndex_handler index fs
      | Analyse \<Rightarrow> Some (testAnalyser_handler index typed)
      | Delete_index \<Rightarrow> deleteIndexAction_handler tr index typed)"

text \<open>The slash of the snapshot action is encoded too, so its address is not the one Elasticsearch serves.\<close>

lemma snapshot_path: "cl_path (postIndexAction_handler ''_gateway/snapshot'' index False) = encodeURIComponent index @ ''/_gateway%2Fsnapshot''"
proof -
  have "encodeURIComponent ''_gateway/snapshot'' = ''_gateway%2Fsnapshot''" by code_simp
  then show ?thesis by (simp add: postIndexAction_handler_def)
qed

lemmas handler_defs = newAliasAction_handler_def postIndexAction_handler_def forceMergeIndex_handler_def
  optimizeIndex_handler_def testAnalyser_handler_def deleteIndexAction_handler_def

lemma takeWhile_encode:
  "takeWhile (\<lambda>x. x \<noteq> CHR ''/'') (encodeURIComponent s) = encodeURIComponent s"
  "takeWhile (\<lambda>x. x \<noteq> CHR ''/'') (encodeURIComponent s @ CHR ''/'' # r) = encodeURIComponent s"
  using encode_no_separator [of "CHR ''/''" s] by (auto simp: takeWhile_append)

text \<open>Whatever an entry of the menu of an index sends is about that index: the first part of the address is
  the encoded name, in which no character of the name can end it, or it is the command that adds an alias to the
  index; and an index is deleted only on typing the word of the language for it.\<close>

theorem index_actions_scoped:
  assumes "index_action_call tr index fs typed a = Some c"
  shows "(takeWhile (\<lambda>x. x \<noteq> CHR ''/'') (cl_path c) = encodeURIComponent index
      \<or> cl_path c = ''_aliases'' \<and> (\<exists>name. cl_body c = Str (alias_command ''add'' index name)))
    \<and> (cl_type c = ''DELETE'' \<longrightarrow> typed = Some (tr ''Command.DELETE'' []))"
  using assms
  by (auto simp: index_action_call_def handler_defs takeWhile_encode split: index_action.splits if_splits)

theorem index_actions_scoped_witness:
  "takeWhile (\<lambda>x. x \<noteq> CHR ''/'')
     (cl_path (postIndexAction_handler ''_close'' ''a/b'' True)) = encodeURIComponent ''a/b''
   \<and> encodeURIComponent ''a/b'' = ''a%2Fb''"
proof -
  from index_actions_scoped [of "\<lambda>k _. k" "''a/b''" "[]" None "Post ''_close'' True" "postIndexAction_handler ''_close'' ''a/b'' True"]
  have "takeWhile (\<lambda>x. x \<noteq> CHR ''/'') (cl_path (postIndexAction_handler ''_close'' ''a/b'' True)) = encodeURIComponent ''a/b''"
    by (auto simp: index_action_call_def postIndexAction_handler_def)
  moreover have "encodeURIComponent ''a/b'' = ''a%2Fb''" by code_simp
  ultimately show ?thesis by simp
qed

section \<open>The templates\<close>

definition replica_template :: "placed \<Rightarrow> jsval" where
  "replica_template p =
     (let r = pl_copy p
      in el ''DIV'' [(''cls'', Str (''uiNodesView-replica'' @ (if cp_primary r then '' primary'' else []) @ '' state-'' @ cp_state r)),
           (''text'', Str (show_nat (cp_shard r))), (''onclick'', Fn ''JsonPanel'')])"

text \<open>What the panel of a copy shows: its status, or else the copy, under a title.\<close>

definition replica_title :: "shard_copy \<Rightarrow> string" where
  "replica_title r =
     cp_index r @ ''/'' @ (case cp_node r of None \<Rightarrow> ''null'' | Some n \<Rightarrow> n) @ '' ['' @ show_nat (cp_shard r) @ '']''"

definition replica_json :: "placed \<Rightarrow> shard_copy" where
  "replica_json p = (case pl_status p of Some st \<Rightarrow> st | None \<Rightarrow> pl_copy p)"

text \<open>\<open>i % max\<close> with the text or number that the settings have; without one it is \<open>NaN\<close>.\<close>

definition modulus :: "jsval \<Rightarrow> nat option" where
  "modulus v =
     (case v of
        Num n \<Rightarrow> if n = 0 then None else Some (nat \<bar>n\<bar>)
      | Str s \<Rightarrow> if s \<noteq> [] \<and> list_all is_digit s \<and> nat_of_digits s \<noteq> 0 then Some (nat_of_digits s) else None
      | _ \<Rightarrow> None)"

definition row_break :: "jsval \<Rightarrow> nat \<Rightarrow> bool" where
  "row_break shards i \<longleftrightarrow> i > 0 \<and> (case modulus shards of Some m \<Rightarrow> i mod m = 0 | None \<Rightarrow> False)"

definition replica_or_hole :: "placed option \<Rightarrow> jsval" where
  "replica_or_hole p =
     (case p of Some r \<Rightarrow> replica_template r | None \<Rightarrow> el ''DIV'' [(''cls'', Str ''uiNodesView-nullReplica'')])"

fun replica_cells :: "jsval \<Rightarrow> nat \<Rightarrow> placed option list \<Rightarrow> jsval list" where
  "replica_cells shards i [] = []"
| "replica_cells shards i (p # ps) =
     (if row_break shards i then [el ''BR'' []] else []) @ [replica_or_hole p] @ replica_cells shards (Suc i) ps"

definition routing_template :: "routing \<Rightarrow> jsval" where
  "routing_template r =
     el ''TD'' [(''cls'', Str (''uiNodesView-routing'' @ (if rt_open r then [] else '' close''))),
       (''children'', Arr (replica_cells (rt_max r) 0 (rt_replicas r)))]"

text \<open>The text of a cell are the numbers of the shards it holds, in order.\<close>

lemma routing_text:
  "texts (create_nodes (routing_template r)) =
     concat (map (\<lambda>p. case p of Some q \<Rightarrow> show_nat (cp_shard (pl_copy q)) | None \<Rightarrow> []) (rt_replicas r))"
proof -
  have "texts (create_list (replica_cells m i ps)) =
      concat (map (\<lambda>p. case p of Some q \<Rightarrow> show_nat (cp_shard (pl_copy q)) | None \<Rightarrow> []) ps)" for m i ps
    by (induction ps arbitrary: i)
      (auto simp: replica_or_hole_def replica_template_def el_def Let_def dget_def split: option.split)
  then show ?thesis by (simp add: routing_template_def el_def)
qed

text \<open>The two menus of a node: the entries that show something, and the one that stops it.\<close>

definition node_menus :: "i18n \<Rightarrow> (string \<times> menu_item list) list" where
  "node_menus tr =
     [(tr ''NodeInfoMenu.Title'' [],
        [\<lparr> mi_text = tr ''NodeInfoMenu.ClusterNodeInfo'' [], mi_disabled = False, mi_selected = False, mi_onclick = ''cluster'' \<rparr>,
         \<lparr> mi_text = tr ''NodeInfoMenu.NodeStats'' [], mi_disabled = False, mi_selected = False, mi_onclick = ''stats'' \<rparr>]),
      (tr ''NodeActionsMenu.Title'' [],
        [\<lparr> mi_text = tr ''NodeActionsMenu.Shutdown'' [], mi_disabled = False, mi_selected = False, mi_onclick = ''_shutdownNode_handler'' \<rparr>])]"

definition nodeControls_template :: "nat \<Rightarrow> nat \<Rightarrow> jsval" where
  "nodeControls_template info actions =
     el ''DIV'' [(''cls'', Str ''uiNodesView-controls''), (''children'', Arr [Widget info, Widget actions])]"

definition node_icon :: "i18n \<Rightarrow> node_row \<Rightarrow> string \<times> string" where
  "node_icon tr n =
     (if nv_name n = ''Unassigned'' then (''fa-exclamation-triangle'', tr ''NodeType.Unassigned'' [])
      else if (case nv_cluster n of Some c \<Rightarrow> ni_tribe c | None \<Rightarrow> False) then (''fa-sitemap'', tr ''NodeType.Tribe'' [])
      else (''fa-'' @ (if nv_master n then ''star'' else ''circle'') @ (if nv_data n then [] else ''-o''),
            tr (if nv_master n then (if nv_data n then ''NodeType.Master'' else ''NodeType.Coord'')
                else (if nv_data n then ''NodeType.Worker'' else ''NodeType.Client'')) []))"

definition nodeIcon_template :: "i18n \<Rightarrow> node_row \<Rightarrow> jsval" where
  "nodeIcon_template tr n =
     (case node_icon tr n of (icon, alt) \<Rightarrow>
        el ''TD'' [(''title'', Str alt), (''cls'', Str ''uiNodesView-icon''),
          (''children'', Arr [el ''SPAN'' [(''cls'', Str (''fa fa-2x '' @ icon))]])])"

definition node_template :: "i18n \<Rightarrow> bool \<Rightarrow> nat \<Rightarrow> nat \<Rightarrow> node_row \<Rightarrow> jsval" where
  "node_template tr interactive info actions n =
     el ''TR'' [(''cls'', Str (''uiNodesView-node'' @ (if nv_master n then '' master'' else []))),
       (''children'', Arr ([nodeIcon_template tr n,
          el ''TH'' [(''children'', Arr (if nv_name n = ''Unassigned'' then [el ''H3'' [(''text'', Str (nv_name n))]]
            else [el ''H3'' [(''text'', Str (cluster_name n))],
                  el ''DIV'' [(''text'', case nv_cluster n of Some c \<Rightarrow> Str (ni_host c) | None \<Rightarrow> Undef)],
                  if interactive then nodeControls_template info actions else Null]))]]
          @ map (\<lambda>r. case r of Some x \<Rightarrow> routing_template x | None \<Rightarrow> Undef) (nv_routings n)))]"

definition indexHeaderControls_template :: "nat \<Rightarrow> nat \<Rightarrow> jsval" where
  "indexHeaderControls_template info actions =
     el ''DIV'' [(''cls'', Str ''uiNodesView-controls''), (''children'', Arr [Widget info, Widget actions])]"

definition index_info_menu :: "i18n \<Rightarrow> string \<times> menu_item list" where
  "index_info_menu tr =
     (tr ''IndexInfoMenu.Title'' [],
        [\<lparr> mi_text = tr ''IndexInfoMenu.Status'' [], mi_disabled = False, mi_selected = False, mi_onclick = ''status'' \<rparr>,
         \<lparr> mi_text = tr ''IndexInfoMenu.Metadata'' [], mi_disabled = False, mi_selected = False, mi_onclick = ''metadata'' \<rparr>])"

text \<open>Reading a property: of \<open>undefined\<close> and \<open>null\<close> it throws.\<close>

definition js_get :: "jsval \<Rightarrow> string \<Rightarrow> jsval res" where
  "js_get v k = (case v of Undef \<Rightarrow> Inl TypeError | Null \<Rightarrow> Inl TypeError | Obj fs \<Rightarrow> Inr (dget fs k) | _ \<Rightarrow> Inr Undef)"

fun js_path :: "jsval \<Rightarrow> string list \<Rightarrow> jsval res" where
  "js_path v [] = Inr v"
| "js_path v (k # ks) = res_bind (js_get v k) (\<lambda>w. js_path w ks)"

text \<open>\<open>a && a.b && ...\<close>: whether each property along a path is there.\<close>

fun guarded :: "jsval \<Rightarrow> string list \<Rightarrow> bool" where
  "guarded v [] = truthy v"
| "guarded v (k # ks) \<longleftrightarrow> truthy v \<and> guarded (case v of Obj fs \<Rightarrow> dget fs k | _ \<Rightarrow> Undef) ks"

definition byteSize_of :: "jsval \<Rightarrow> string" where
  "byteSize_of v = (case v of Num n \<Rightarrow> byteSize_template n | _ \<Rightarrow> to_string v @ ''B'')"

definition locale_text :: "(int \<Rightarrow> string) \<Rightarrow> jsval \<Rightarrow> string res" where
  "locale_text loc v =
     (case v of Num n \<Rightarrow> Inr (loc n) | Undef \<Rightarrow> Inl TypeError | Null \<Rightarrow> Inl TypeError | _ \<Rightarrow> Inr (to_string v))"

definition js_plus :: "jsval \<Rightarrow> jsval \<Rightarrow> jsval" where
  "js_plus a b = (case (a, b) of (Num x, Num y) \<Rightarrow> Num (x + y) | _ \<Rightarrow> NaN)"

definition header_line1 :: "index_view \<Rightarrow> string res" where
  "header_line1 v =
     (if iv_state v = ''close'' then Inr ''index: close''
      else if guarded (iv_status v) [''primaries''] \<and> guarded (iv_status v) [''total'']
      then res_bind (js_path (iv_status v) [''primaries'', ''store'', ''size_in_bytes'']) (\<lambda>p.
           res_bind (js_path (iv_status v) [''total'', ''store'', ''size_in_bytes'']) (\<lambda>q.
             Inr (''size: '' @ byteSize_of p @ '' ('' @ byteSize_of q @ '')'')))
      else Inr ''size: unknown'')"

definition header_line2 :: "(int \<Rightarrow> string) \<Rightarrow> index_view \<Rightarrow> string res" where
  "header_line2 loc v =
     (if iv_state v = ''close'' then Inr [CHR 0xA0]
      else if guarded (iv_status v) [''primaries'', ''docs''] \<and> guarded (iv_status v) [''total'', ''docs'']
      then res_bind (js_path (iv_status v) [''primaries'', ''docs'', ''count'']) (\<lambda>p.
           res_bind (js_path (iv_status v) [''total'', ''docs'', ''count'']) (\<lambda>q.
           res_bind (js_path (iv_status v) [''total'', ''docs'', ''deleted'']) (\<lambda>r.
           res_bind (locale_text loc p) (\<lambda>a.
           res_bind (locale_text loc (js_plus q r)) (\<lambda>b. Inr (''docs: '' @ a @ '' ('' @ b @ '')''))))))
      else Inr ''docs: unknown'')"

definition indexHeader_template :: "(int \<Rightarrow> string) \<Rightarrow> bool \<Rightarrow> nat \<Rightarrow> nat \<Rightarrow> index_view \<Rightarrow> jsval res" where
  "indexHeader_template loc interactive info actions v =
     res_bind (header_line1 v) (\<lambda>line1. res_bind (header_line2 loc v) (\<lambda>line2.
       Inr (case iv_name v of
          Some (c # name) \<Rightarrow> el ''TH'' [(''cls'', Str (if iv_state v = ''close'' then ''close'' else [])), (''children'', Arr [
            el ''H3'' [(''text'', Str (c # name))], el ''DIV'' [(''text'', Str line1)], el ''DIV'' [(''text'', Str line2)],
            if interactive then indexHeaderControls_template info actions else Null])]
        | _ \<Rightarrow> Arr [el ''TD'' [], el ''TH'' []])))"

definition aliasRender_template_none :: "alias_row list \<Rightarrow> index_view list \<Rightarrow> jsval" where
  "aliasRender_template_none arows cols = Null"

definition aliasRender_template_list :: "alias_row list \<Rightarrow> index_view list \<Rightarrow> jsval" where
  "aliasRender_template_list arows cols =
     (if arows = [] then Num 0
      else el ''TBODY'' [(''children'', Arr [el ''TR'' [(''children'', Arr (el ''TD'' [] # map (\<lambda>v.
        el ''TD'' [(''children'', case iv_metadata v of Some m \<Rightarrow> Arr (map (\<lambda>a. el ''LI'' [(''text'', Str a)]) (im_aliases m)) | None \<Rightarrow> Undef)])
        cols))]])])"

definition alias_colour :: "nat \<Rightarrow> string" where
  "alias_colour row = ''#'' @ take 3 (List.drop ((row + 6) mod 7) ''9ce9c7fc9'')"

definition alias_cell :: "i18n \<Rightarrow> bool \<Rightarrow> nat \<Rightarrow> alias_row \<Rightarrow> nat \<Rightarrow> index_view option \<Rightarrow> jsval" where
  "alias_cell tr interactive row a i v =
     (case v of
        Some x \<Rightarrow> el ''TD'' [(''css'', Obj [(''background'', Str (alias_colour row))]),
            (''cls'', Str (''uiNodesView-hasAlias'' @ (if ar_min a = Some (int i) then '' min'' else []) @ (if ar_max a = Some (int i) then '' max'' else []))),
            (''text'', Str (ar_name a)),
            (''children'', if interactive then Arr [el ''SPAN'' [(''text'', Str (tr ''General.CloseGlyph'' [])),
                (''cls'', Str ''uiNodesView-hasAlias-remove''), (''onclick'', Fn ''_deleteAliasAction_handler'')]] else Null)]
      | None \<Rightarrow> el ''TD'' [])"

definition aliasRender_template_full :: "i18n \<Rightarrow> bool \<Rightarrow> alias_row list \<Rightarrow> index_view list \<Rightarrow> jsval" where
  "aliasRender_template_full tr interactive arows cols =
     (if arows = [] then Num 0
      else el ''TBODY'' [(''children'', Arr (map (\<lambda>row. let a = arows ! row in
        el ''TR'' [(''children'', Arr ([el ''TD'' [], el ''TD'' []] @
          map (\<lambda>i. alias_cell tr interactive row a i (ar_indices a ! i)) [0..<length (ar_indices a)]))]) [0..<length arows]))])"

text \<open>An unknown name of a renderer gives \<open>undefined\<close>, and calling it throws.\<close>

definition aliasRenderFunction :: "i18n \<Rightarrow> bool \<Rightarrow> string \<Rightarrow> alias_row list \<Rightarrow> index_view list \<Rightarrow> jsval res" where
  "aliasRenderFunction tr interactive name arows cols =
     (if name = ''none'' then Inr (aliasRender_template_none arows cols)
      else if name = ''list'' then Inr (aliasRender_template_list arows cols)
      else if name = ''full'' then Inr (aliasRender_template_full tr interactive arows cols)
      else Inl TypeError)"

fun res_map :: "('a \<Rightarrow> 'b res) \<Rightarrow> 'a list \<Rightarrow> 'b list res" where
  "res_map f [] = Inr []"
| "res_map f (x # xs) = res_bind (f x) (\<lambda>y. res_bind (res_map f xs) (\<lambda>ys. Inr (y # ys)))"

text \<open>\<open>ids\<close> gives the numbers of the two menu buttons of a column or a row.\<close>

definition nodesView_template :: "i18n \<Rightarrow> (int \<Rightarrow> string) \<Rightarrow> bool \<Rightarrow> string \<Rightarrow> (string \<Rightarrow> nat \<times> nat) \<Rightarrow> jsval \<Rightarrow> overview \<Rightarrow> jsval res" where
  "nodesView_template tr loc interactive renderer ids style ov =
     res_bind (res_map (\<lambda>v. let (a, b) = ids (case iv_name v of Some n \<Rightarrow> n | None \<Rightarrow> []) in indexHeader_template loc interactive a b v) (ov_indices ov)) (\<lambda>heads.
     res_bind (aliasRenderFunction tr interactive renderer (ov_aliases ov) (ov_indices ov)) (\<lambda>arows.
       Inr (el ''TABLE'' [(''cls'', Str ''table uiNodesView''), (''children'', Arr [
         style,
         el ''THEAD'' [(''children'', Arr [el ''TR'' [(''children'', Arr heads)]])],
         arows,
         el ''TBODY'' [(''children'', Arr (map (\<lambda>n. let (a, b) = ids (nv_name n) in node_template tr interactive a b n) (ov_nodes ov)))]])])))"

section \<open>The settings of the overview\<close>

record overview_page =
  op_nodeSort :: string
  op_indicesSort :: jsval
  op_aliasRenderer :: jsval
  op_filter :: jsval
  op_prefs :: "jsval dict"

definition overview_init :: "jsval dict \<Rightarrow> overview_page" where
  "overview_init prefs =
     \<lparr> op_nodeSort = to_string (js_or (prefs_get ''clusterOverview-nodeSort'' prefs) (Str ''Sort.ByName'')),
       op_indicesSort = js_or (prefs_get ''clusterOverview-indicesSort'' prefs) (Str ''desc''),
       op_aliasRenderer = js_or (prefs_get ''clusterOverview-aliasRender'' prefs) (Str ''full''),
       op_filter = prefs_get ''clusterOverview-indexFilter'' prefs,
       op_prefs = prefs \<rparr>"

definition choose_nodeSort :: "bool \<Rightarrow> string \<Rightarrow> overview_page \<Rightarrow> overview_page" where
  "choose_nodeSort room v p = p\<lparr> op_nodeSort := v, op_prefs := prefs_set room ''clusterOverview-nodeSort'' (Str v) (op_prefs p) \<rparr>"

definition choose_indicesSort :: "bool \<Rightarrow> string \<Rightarrow> overview_page \<Rightarrow> overview_page" where
  "choose_indicesSort room v p = p\<lparr> op_indicesSort := Str v, op_prefs := prefs_set room ''clusterOverview-indicesSort'' (Str v) (op_prefs p) \<rparr>"

definition choose_aliases :: "bool \<Rightarrow> string \<Rightarrow> overview_page \<Rightarrow> overview_page" where
  "choose_aliases room v p = p\<lparr> op_aliasRenderer := Str v, op_prefs := prefs_set room ''clusterOverview-aliasRender'' (Str v) (op_prefs p) \<rparr>"

definition change_filter :: "bool \<Rightarrow> string \<Rightarrow> overview_page \<Rightarrow> overview_page" where
  "change_filter room v p = p\<lparr> op_filter := Str v, op_prefs := prefs_set room ''clusterOverview-indexFilter'' (Str v) (op_prefs p) \<rparr>"

datatype overview_choice = Sort_nodes string | Sort_indices string | Render_aliases string | Filter_indices string

fun make_choice :: "bool \<Rightarrow> overview_choice \<Rightarrow> overview_page \<Rightarrow> overview_page" where
  "make_choice room (Sort_nodes v) = choose_nodeSort room v"
| "make_choice room (Sort_indices v) = choose_indicesSort room v"
| "make_choice room (Render_aliases v) = choose_aliases room v"
| "make_choice room (Filter_indices v) = change_filter room v"

fun real_choice :: "overview_choice \<Rightarrow> bool" where
  "real_choice (Sort_nodes v) \<longleftrightarrow> v \<noteq> []"
| "real_choice (Sort_indices v) \<longleftrightarrow> v \<noteq> []"
| "real_choice (Render_aliases v) \<longleftrightarrow> v \<noteq> []"
| "real_choice (Filter_indices v) \<longleftrightarrow> True"

lemma choose_kept: "overview_init (op_prefs p) = p \<Longrightarrow> real_choice c \<Longrightarrow> overview_init (op_prefs (make_choice True c p)) = make_choice True c p"
  by (cases c; cases p)
    (auto simp: overview_init_def choose_nodeSort_def choose_indicesSort_def choose_aliases_def change_filter_def
      prefs_get_def prefs_set_def setItem_def getItem_def js_or_def split: option.splits)

text \<open>Whatever is chosen in the overview, a new overview over the same storage starts with the same order of the
  nodes and indices, the same rendering of aliases and the same filter.\<close>

theorem overview_settings_kept:
  assumes "list_all real_choice cs"
  shows "overview_init (op_prefs (fold (make_choice True) cs (overview_init prefs))) = fold (make_choice True) cs (overview_init prefs)"
proof -
  have "overview_init (op_prefs p) = p \<Longrightarrow> overview_init (op_prefs (fold (make_choice True) cs p)) = fold (make_choice True) cs p" for p
    using assms by (induction cs arbitrary: p) (simp_all add: choose_kept)
  then show ?thesis by (simp add: overview_init_def)
qed

theorem overview_settings_kept_witness:
  "op_nodeSort (overview_init (op_prefs (fold (make_choice True) [Sort_nodes ''Sort.ByType'', Filter_indices ''log''] (overview_init [])))) = ''Sort.ByType''"
  using overview_settings_kept [of "[Sort_nodes ''Sort.ByType'', Filter_indices ''log'']" "[]"]
  by (simp add: choose_nodeSort_def change_filter_def)

text \<open>A comparator that is \<open>undefined\<close> sorts by the texts of the rows, which are all the same.\<close>

definition draw_handler :: "(string \<Rightarrow> string \<Rightarrow> int) \<Rightarrow> (string \<Rightarrow> (string \<Rightarrow> bool) option) \<Rightarrow> cluster_data \<Rightarrow> overview_page \<Rightarrow> overview res" where
  "draw_handler lc re s p =
     draw (case map_of (NODE_SORT_TYPES lc) (op_nodeSort p) of Some f \<Rightarrow> f | None \<Rightarrow> (\<lambda>_ _. Inr 0))
       (op_indicesSort p = Str ''desc'')
       (index_filter re (if op_filter p = Undef \<or> op_filter p = Null then [] else to_string (op_filter p))) s"

definition overview_template :: "i18n \<Rightarrow> jsval \<Rightarrow> nat \<Rightarrow> nat \<Rightarrow> jsval" where
  "overview_template tr wid toolbar table =
     el ''DIV'' [(''id'', wid), (''cls'', Str ''uiClusterOverview''), (''children'', Arr [Widget toolbar, el ''DIV'' [(''cls'', Str ''uiClusterOverview-table'')]])]"

section \<open>The list of indices\<close>

definition new_index_fields :: "i18n \<Rightarrow> form_item list" where
  "new_index_fields tr =
     [Text_field \<lparr> tf_name = ''_name'', tf_label = tr ''ClusterOverView.IndexName'' [], tf_require = Required, tf_value = [] \<rparr>,
      Text_field \<lparr> tf_name = ''number_of_shards'', tf_label = tr ''ClusterOverview.NumShards'' [],
        tf_require = Test (\<lambda>s. case parseInt s of Num n \<Rightarrow> n \<ge> 1 | _ \<Rightarrow> False), tf_value = ''5'' \<rparr>,
      Text_field \<lparr> tf_name = ''number_of_replicas'', tf_label = tr ''ClusterOverview.NumReplicas'' [],
        tf_require = Test (\<lambda>s. case parseInt s of Num n \<Rightarrow> n \<ge> 0 | _ \<Rightarrow> False), tf_value = ''1'' \<rparr>]"

definition newIndex_handler :: "form_item list \<Rightarrow> request_call option" where
  "newIndex_handler fs =
     (if fc_validate field_validate fs
      then let d = fc_getData field_name field_val fs
           in Some \<lparr> cl_type = ''PUT'', cl_path = encodeURIComponent (to_string (dget d ''_name'')),
                cl_body = Str (stringify (Obj [(''settings'', Obj [(''index'', Obj (ddel ''_name'' d))])])), cl_redraw = True \<rparr>
      else None)"

definition index_template :: "string \<times> jsval \<Rightarrow> jsval res" where
  "index_template index =
     (case index of (name, st) \<Rightarrow>
       res_bind (js_path st [''primaries'', ''store'', ''size_in_bytes'']) (\<lambda>a.
       res_bind (js_path st [''total'', ''store'', ''size_in_bytes'']) (\<lambda>b.
       res_bind (js_path st [''primaries'', ''docs'', ''count'']) (\<lambda>c.
         Inr (el ''TR'' [(''children'', Arr [
           el ''TD'' [(''children'', Arr [el ''H3'' [(''text'', Str name)]])],
           el ''TD'' [(''text'', Str (byteSize_of a @ ''/'' @ byteSize_of b))],
           el ''TD'' [(''text'', Str (case c of Num n \<Rightarrow> count_template n | _ \<Rightarrow> to_string c))]])])))))"

definition indexTable_template :: "(string \<times> jsval) list \<Rightarrow> jsval res" where
  "indexTable_template cols =
     res_bind (res_map index_template cols) (\<lambda>rows.
       Inr (el ''TABLE'' [(''cls'', Str ''table''), (''children'', Arr [
         el ''THEAD'' [(''children'', Arr [el ''TR'' [(''children'', Arr [
           el ''TH'' [],
           el ''TH'' [(''children'', Arr [el ''H3'' [(''text'', Str ''Size'')]])],
           el ''TH'' [(''children'', Arr [el ''H3'' [(''text'', Str ''Docs'')]])]])]])],
         el ''TBODY'' [(''cls'', Str ''striped''), (''children'', Arr rows)]])]))"

text \<open>The names are distinct, so that a comparator of -1 and 1 sorts.\<close>

definition index_refresh :: "jsval dict \<Rightarrow> jsval res" where
  "index_refresh status =
     res_bind (sort_by (\<lambda>a b. Inr (if fst a < fst b then -1 else 1)) status) indexTable_template"

definition indexOverview_template :: "jsval \<Rightarrow> nat \<Rightarrow> jsval \<Rightarrow> jsval" where
  "indexOverview_template wid toolbar view_el =
     el ''DIV'' [(''id'', wid), (''cls'', Str ''uiIndexOverview''), (''children'', Arr [
       Widget toolbar, el ''DIV'' [(''cls'', Str ''uiIndexOverview-table''), (''children'', view_el)]])]"

end
