(* ===== verification/DateRange.thy ===== *)
theory DateRange
  imports Boot
begin

text \<open>
  \<^verbatim>\<open>vendor/dateRangeParser/date-range-parser.js\<close>: texts such as \<open>thisweek\<close>,
  \<open>2011-03 -> 2011-06\<close> or \<open>now <> 2hrs\<close> as ranges of milliseconds; with the calendar of the
  language's dates, in UTC.
\<close>

section \<open>The calendar\<close>

definition day_from_year :: "int \<Rightarrow> int" where
  "day_from_year y = 365 * (y - 1970) + (y - 1969) div 4 - (y - 1901) div 100 + (y - 1601) div 400"

definition leap :: "int \<Rightarrow> bool" where
  "leap y \<longleftrightarrow> y mod 4 = 0 \<and> (y mod 100 \<noteq> 0 \<or> y mod 400 = 0)"

lemma div_step: "0 < n \<Longrightarrow> (x + 1) div n = x div n + (if (x + 1) mod n = 0 then 1 else (0::int))"
proof -
  assume n: "0 < n"
  have x: "x + 1 = n * (x div n) + (x mod n + 1)" by simp
  have r: "0 \<le> x mod n" "x mod n < n" using n by simp_all
  show ?thesis
  proof (cases "x mod n + 1 = n")
    case True
    then have "x + 1 = n * (x div n + 1)" using x by (simp add: algebra_simps)
    then show ?thesis using n by (metis mod_mult_self1_is_0 nonzero_mult_div_cancel_left order_less_irrefl)
  next
    case False
    then have "x mod n + 1 < n" "0 < x mod n + 1" using r by linarith+
    then have "(x + 1) mod n = x mod n + 1" by (metis mod_add_left_eq mod_pos_pos_trivial less_imp_le)
    moreover have "(x + 1) div n = x div n"
      by (rule int_div_pos_eq [of _ _ _ "x mod n + 1"]) (use x \<open>x mod n + 1 < n\<close> r in auto)
    ultimately show ?thesis using r by simp
  qed
qed

lemma day_from_next_year: "day_from_year (y + 1) = day_from_year y + (if leap y then 366 else 365)"
proof -
  have a: "(y + 1 - 1969) div 4 = (y - 1969) div 4 + (if y mod 4 = 0 then 1 else 0)"
  proof -
    have "(y - 1968) mod 4 = y mod 4" by presburger
    with div_step [of 4 "y - 1969"] show ?thesis by simp
  qed
  have b: "(y + 1 - 1901) div 100 = (y - 1901) div 100 + (if y mod 100 = 0 then 1 else 0)"
  proof -
    have "(y - 1900) mod 100 = y mod 100" using mod_mult_self1 [of y "-19" 100] by simp
    with div_step [of 100 "y - 1901"] show ?thesis by simp
  qed
  have c: "(y + 1 - 1601) div 400 = (y - 1601) div 400 + (if y mod 400 = 0 then 1 else 0)"
  proof -
    have "(y - 1600) mod 400 = y mod 400" using mod_mult_self1 [of y "-4" 400] by simp
    with div_step [of 400 "y - 1601"] show ?thesis by simp
  qed
  have d: "y mod 400 = 0 \<Longrightarrow> y mod 100 = 0" "y mod 100 = 0 \<Longrightarrow> y mod 4 = 0"
    using mod_mod_cancel [of 100 400 y] mod_mod_cancel [of 4 100 y] by auto
  have sum: "365 * (y + 1 - 1970) + (A + p) - (B + q) + (C + r) = 365 * (y - 1970) + A - B + C + (365 + p - q + r)"
    for A B C p q r :: int by simp
  show ?thesis unfolding day_from_year_def [of "y + 1"] a b c sum day_from_year_def [of y, symmetric]
    using d by (auto simp only: leap_def split: if_split) simp_all
qed

text \<open>The last year that starts at the latest on the day; the search starts at a year before it.\<close>

function year_up :: "int \<Rightarrow> int \<Rightarrow> int" where
  "year_up day y = (if day_from_year (y + 1) \<le> day then year_up day (y + 1) else y)"
  by pat_completeness auto
termination
  by (relation "measure (\<lambda>(day, y). nat (day - day_from_year y))") (auto simp: day_from_next_year split: if_splits)

declare year_up.simps [simp del]

definition year_of :: "int \<Rightarrow> int" where
  "year_of day = year_up day (if day \<ge> 0 then 1970 + day div 366 else 1969 + day div 365)"

definition cum_days :: "bool \<Rightarrow> int list" where
  "cum_days lp = (if lp then [0, 31, 60, 91, 121, 152, 182, 213, 244, 274, 305, 335]
                  else [0, 31, 59, 90, 120, 151, 181, 212, 243, 273, 304, 334])"

text \<open>The month, from 0, of a day of the year, from 0.\<close>

definition month_of :: "bool \<Rightarrow> int \<Rightarrow> nat" where
  "month_of lp doy = length (filter (\<lambda>c. c \<le> doy) (cum_days lp)) - 1"

definition makeArray :: "int \<Rightarrow> int list" where
  "makeArray t =
     (let day = t div 86400000; y = year_of day; doy = day - day_from_year y; m = month_of (leap y) doy; r = t mod 86400000
      in [y, int m + 1, doy - cum_days (leap y) ! m + 1, r div 3600000, r div 60000 mod 60, r div 1000 mod 60, r mod 1000])"

text \<open>\<open>Date.UTC\<close>: fields out of range carry over, and the years 0 to 99 are those of the twentieth century.\<close>

definition day_from_month :: "int \<Rightarrow> int \<Rightarrow> int" where
  "day_from_month y m =
     (let ym = y + m div 12 in day_from_year ym + cum_days (leap ym) ! nat (m mod 12))"

definition date_utc :: "int list \<Rightarrow> int" where
  "date_utc a =
     (let y = (if 0 \<le> a ! 0 \<and> a ! 0 \<le> 99 then 1900 + a ! 0 else a ! 0)
      in (day_from_month y (a ! 1) + a ! 2 - 1) * 86400000 + a ! 3 * 3600000 + a ! 4 * 60000 + a ! 5 * 1000 + a ! 6)"

definition fromArray :: "int list \<Rightarrow> int" where
  "fromArray a = date_utc (a[1 := a ! 1 - 1])"

definition getUTCDay :: "int \<Rightarrow> int" where
  "getUTCDay t = (t div 86400000 + 4) mod 7"

lemma year_up_spec:
  "day_from_year y \<le> day \<Longrightarrow> day_from_year (year_up day y) \<le> day \<and> day < day_from_year (year_up day y + 1)"
  by (induction day y rule: year_up.induct) (subst year_up.simps, auto simp: year_up.simps)

lemma day_from_year_le: "0 \<le> k \<Longrightarrow> day_from_year (1970 + k) \<le> 366 * k" "0 \<le> k \<Longrightarrow> day_from_year (1970 - k) \<le> - 365 * k"
proof -
  have "day_from_year (1970 + int n) \<le> 366 * int n" for n
  proof (induction n)
    case (Suc n)
    then show ?case using day_from_next_year [of "1970 + int n"] by (simp add: algebra_simps split: if_splits)
  qed (simp add: day_from_year_def)
  then show "0 \<le> k \<Longrightarrow> day_from_year (1970 + k) \<le> 366 * k" by (metis nonneg_int_cases)
  have "day_from_year (1970 - int n) \<le> - 365 * int n" for n
  proof (induction n)
    case (Suc n)
    then show ?case using day_from_next_year [of "1970 - int (Suc n)"] by (simp add: algebra_simps split: if_splits)
  qed (simp add: day_from_year_def)
  then show "0 \<le> k \<Longrightarrow> day_from_year (1970 - k) \<le> - 365 * k" by (metis nonneg_int_cases)
qed

lemma year_of_spec: "day_from_year (year_of day) \<le> day" "day < day_from_year (year_of day + 1)"
proof -
  have "day_from_year (if day \<ge> 0 then 1970 + day div 366 else 1969 + day div 365) \<le> day"
  proof (cases "day \<ge> 0")
    case True
    then have "0 \<le> day div 366" by (simp add: pos_imp_zdiv_nonneg_iff)
    from day_from_year_le(1) [OF this] have "day_from_year (1970 + day div 366) \<le> day" by linarith
    with True show ?thesis by simp
  next
    case False
    then have "0 \<le> 1 - day div 365" by linarith
    from day_from_year_le(2) [OF this] have "day_from_year (1969 + day div 365) \<le> day" by (simp add: algebra_simps)
    with False show ?thesis by simp
  qed
  from year_up_spec [OF this] show "day_from_year (year_of day) \<le> day" "day < day_from_year (year_of day + 1)"
    by (simp_all add: year_of_def)
qed

text \<open>The month of a day: the day lies between its first and the first of the next one.\<close>

lemma month_of_spec:
  assumes "0 \<le> doy" "doy < (if lp then 366 else 365)"
  shows "month_of lp doy < 12" "cum_days lp ! month_of lp doy \<le> doy"
    "doy < (cum_days lp @ [if lp then 366 else 365]) ! Suc (month_of lp doy)"
  using assms by (auto simp: month_of_def cum_days_def nth_Cons split: nat.splits)

lemma day_from_month_simps:
  "m < 12 \<Longrightarrow> day_from_month y (int m) = day_from_year y + cum_days (leap y) ! m"
  "m < 12 \<Longrightarrow> day_from_month y (int m + 1) = day_from_year y + (cum_days (leap y) @ [if leap y then 366 else 365]) ! Suc m"
proof -
  assume m: "m < 12"
  then show "day_from_month y (int m) = day_from_year y + cum_days (leap y) ! m"
    by (simp add: day_from_month_def Let_def)
  show "day_from_month y (int m + 1) = day_from_year y + (cum_days (leap y) @ [if leap y then 366 else 365]) ! Suc m"
  proof (cases "m = 11")
    case True
    then show ?thesis by (simp add: day_from_month_def Let_def day_from_next_year cum_days_def)
  next
    case False
    then have "nat ((int m + 1) mod 12) = Suc m" "(int m + 1) div 12 = 0" using m by auto
    with False m show ?thesis by (simp add: day_from_month_def Let_def nth_append cum_days_def)
  qed
qed

section \<open>Ranges\<close>

text \<open>\<open>precArray\<close>: the fields of a time, with one of them moved, and the smaller ones at their start.\<close>

definition precArray :: "int \<Rightarrow> nat \<Rightarrow> int \<Rightarrow> int list" where
  "precArray d p offset =
     (let tn = makeArray d; tn1 = tn[p := tn ! p + offset]
      in map (\<lambda>i. if p < i then (if i < 3 then 1 else 0) else tn1 ! i) [0..<7])"

text \<open>A range or a term; what is absent is \<open>undefined\<close>, an open end is \<open>null\<close>.\<close>

record term_range =
  tr_start :: jsval
  tr_end :: jsval
  tr_rel :: jsval
  tr_now :: jsval

definition makePrecRange :: "int list \<Rightarrow> nat \<Rightarrow> int \<Rightarrow> term_range" where
  "makePrecRange dt p r =
     \<lparr> tr_start = Num (fromArray dt), tr_end = Num (fromArray (dt[p := dt ! p + (if r = 0 then 1 else r)])), tr_rel = Undef, tr_now = Undef \<rparr>"

definition dra :: "int \<Rightarrow> nat \<Rightarrow> int \<Rightarrow> int \<Rightarrow> term_range" where
  "dra now p offset r =
     (let dt = precArray now p offset;
          dt1 = (if r \<noteq> 0 then dt[2 := dt ! 2 - getUTCDay (fromArray dt)] else dt)
      in makePrecRange dt1 p r)"

definition word_range :: "int \<Rightarrow> string \<Rightarrow> term_range res" where
  "word_range now w =
     (if w = ''now'' then Inr \<lparr> tr_start = Num now, tr_end = Num now, tr_rel = Undef, tr_now = Num now \<rparr>
      else if w = ''today'' then Inr (dra now 2 0 0)
      else if w = ''thisweek'' then Inr (dra now 2 0 7)
      else if w = ''thismonth'' then Inr (dra now 1 0 0)
      else if w = ''thisyear'' then Inr (dra now 0 0 0)
      else if w = ''yesterday'' then Inr (dra now 2 (-1) 0)
      else if w = ''lastweek'' then Inr (dra now 2 (-7) 7)
      else if w = ''lastmonth'' then Inr (dra now 1 (-1) 0)
      else if w = ''lastyear'' then Inr (dra now 0 (-1) 0)
      else if w = ''tomorrow'' then Inr (dra now 2 1 0)
      else if w = ''nextweek'' then Inr (dra now 2 7 7)
      else if w = ''nextmonth'' then Inr (dra now 1 1 0)
      else if w = ''nextyear'' then Inr (dra now 0 1 0)
      else Inl (Thrown (''unknown token '' @ w)))"

definition alias_lu :: "(string list \<times> int) list" where
  "alias_lu =
     [([''y'', ''yr'', ''yrs'', ''year'', ''years''], 365 * 24 * 60 * 60 * 1000),
      ([''mo'', ''mon'', ''mos'', ''mons'', ''month'', ''months''], 31 * 24 * 60 * 60 * 1000),
      ([''d'', ''dy'', ''dys'', ''day'', ''days''], 24 * 60 * 60 * 1000),
      ([''h'', ''hr'', ''hrs'', ''hour'', ''hours''], 60 * 60 * 1000),
      ([''m'', ''min'', ''mins'', ''minute'', ''minutes''], 60 * 1000),
      ([''s'', ''sec'', ''secs'', ''second'', ''seconds''], 1000)]"

definition relTokens :: "int dict" where
  "relTokens = concat (map (\<lambda>(names, v). map (\<lambda>n. (n, v)) names) alias_lu)"

definition rel_range :: "nat \<Rightarrow> string \<Rightarrow> term_range" where
  "rel_range n unit =
     \<lparr> tr_start = Undef, tr_end = Undef, tr_rel = (case map_of relTokens unit of Some v \<Rightarrow> Num (int n * v) | None \<Rightarrow> NaN), tr_now = Undef \<rparr>"

text \<open>A number of a fixed count of digits, after a separator.\<close>

definition digits_at :: "nat \<Rightarrow> string \<Rightarrow> (int \<times> string) option" where
  "digits_at n s =
     (if length (take n s) = n \<and> list_all is_digit (take n s) then Some (int (nat_of_digits (take n s)), List.drop n s) else None)"

definition sep_digits :: "char \<Rightarrow> string \<Rightarrow> int option \<times> string" where
  "sep_digits c s =
     (case s of x # r \<Rightarrow> (if x = c then (case digits_at 2 r of Some (v, r') \<Rightarrow> (Some v, r') | None \<Rightarrow> (None, s)) else (None, s))
      | [] \<Rightarrow> (None, s))"

text \<open>The year, month, day, hour, minute and second of a date, each there or not; a rest does not match.\<close>

definition date_fields :: "string \<Rightarrow> int option list res" where
  "date_fields s =
     (let (y, s1) = (case digits_at 4 s of Some (v, r) \<Rightarrow> (Some v, r) | None \<Rightarrow> (None, s));
          (m, s2) = (if y = None then (None, s1) else sep_digits (CHR ''-'') s1);
          (d, s3) = (if y = None then (None, s2) else sep_digits (CHR ''-'') s2);
          (h, s4) = (case digits_at 2 s3 of Some (v, r) \<Rightarrow> (Some v, r)
                     | None \<Rightarrow> (case digits_at 1 s3 of Some (v, r) \<Rightarrow> (Some v, r) | None \<Rightarrow> (None, s3)));
          (mi, s5) = (if h = None then (None, s4) else sep_digits (CHR '':'') s4);
          (sc, s6) = (if mi = None then (None, s5) else sep_digits (CHR '':'') s5)
      in if s6 = [] then Inr [y, m, d, h, mi, sc] else Inl TypeError)"

text \<open>The loop over the fields: from the first one given on, those not given are at their start.\<close>

fun fill_fields :: "nat \<Rightarrow> bool \<Rightarrow> nat \<Rightarrow> int option list \<Rightarrow> int list \<Rightarrow> nat \<times> int list" where
  "fill_fields i z p [] dn = (p, if z then dn[6 := 0] else dn)"
| "fill_fields i z p (f # fs) dn =
     (case f of
        Some v \<Rightarrow> fill_fields (Suc i) True i fs (dn[i := v])
      | None \<Rightarrow> fill_fields (Suc i) z p fs (if z then dn[i := (if i < 3 then 1 else 0)] else dn))"

definition date_range :: "int \<Rightarrow> string \<Rightarrow> term_range res" where
  "date_range now s =
     res_bind (date_fields s) (\<lambda>fs. case fill_fields 0 False 0 fs (makeArray now) of (p, dn) \<Rightarrow> Inr (makePrecRange dn p 0))"

definition is_lower :: "char \<Rightarrow> bool" where
  "is_lower c \<longleftrightarrow> 97 \<le> (of_char c :: nat) \<and> (of_char c :: nat) \<le> 122"

definition procTerm :: "int \<Rightarrow> string \<Rightarrow> term_range res" where
  "procTerm now t =
     (let s = to_lower (filter (\<lambda>c. \<not> is_space c) t); ds = takeWhile is_digit s; us = dropWhile is_digit s
      in if s \<noteq> [] \<and> list_all is_lower s then word_range now s
         else if s \<noteq> [] \<and> list_all (\<lambda>c. is_digit c \<or> c = CHR ''-'' \<or> c = CHR '':'') s then date_range now s
         else if ds \<noteq> [] \<and> us \<noteq> [] \<and> list_all is_lower us then Inr (rel_range (nat_of_digits ds) us)
         else Inl TypeError)"

text \<open>
  \<open>v.split(/\s*([^<>]*[^<>-])?\s*(->|<>|<)?\s*([^<>]+)?\s*/)\<close>: the groups of its first match that is
  not empty; the pattern matches the empty text at a \<open>></\<close> only.
\<close>

definition first_group :: "string \<Rightarrow> string" where
  "first_group s = rev (dropWhile (\<lambda>c. c = CHR ''-'') (rev (takeWhile (\<lambda>c. c \<notin> set ''<>'') s)))"

definition split_terms :: "string \<Rightarrow> string \<times> string \<times> string" where
  "split_terms v =
     (let s = dropWhile is_space (dropWhile (\<lambda>c. c = CHR ''>'') v);
          g1 = first_group s;
          r = dropWhile is_space (List.drop (length g1) s);
          g2 = (if starts_with ''->'' r then ''->'' else if starts_with ''<>'' r then ''<>'' else if starts_with ''<'' r then ''<'' else []);
          g3 = takeWhile (\<lambda>c. c \<notin> set ''<>'') (dropWhile is_space (List.drop (length g2) r))
      in (g1, g2, g3))"

definition defaultRange :: int where
  "defaultRange = 1000 * 60 * 60 * 24"

text \<open>\<open>+\<close> and \<open>-\<close> on numbers, \<open>undefined\<close> being no number.\<close>

definition num_op :: "(int \<Rightarrow> int \<Rightarrow> int) \<Rightarrow> jsval \<Rightarrow> jsval \<Rightarrow> jsval" where
  "num_op f a b = (case (a, b) of (Num x, Num y) \<Rightarrow> Num (f x y) | _ \<Rightarrow> NaN)"

definition opt_term :: "int \<Rightarrow> string \<Rightarrow> term_range option res" where
  "opt_term now t = (if t = [] then Inr None else res_bind (procTerm now t) (\<lambda>r. Inr (Some r)))"

text \<open>The range that the two terms and the operator give; reading a term that is not there throws.\<close>

definition combine :: "int \<Rightarrow> term_range option \<Rightarrow> string \<Rightarrow> term_range option \<Rightarrow> (jsval \<times> jsval) res" where
  "combine now term1 op term2 =
     (if op = ''<'' \<or> op = ''->''
      then (case (term1, term2) of
              (Some a, None) \<Rightarrow> Inr (tr_start a, Null)
            | (None, Some b) \<Rightarrow> Inr (Null, tr_end b)
            | (Some a, Some b) \<Rightarrow>
                if truthy (tr_rel b) then Inr (tr_start a, num_op (+) (tr_end a) (tr_rel b))
                else if truthy (tr_rel a) then Inr (num_op (-) (tr_start b) (tr_rel a), tr_end b)
                else Inr (tr_start a, tr_end b)
            | (None, None) \<Rightarrow> Inl TypeError)
      else if op = ''<>''
      then (case (term1, term2) of
              (None, Some b) \<Rightarrow> if tr_rel b = Undef then Inl (Thrown ''second term did not hav a range'') else Inl TypeError
            | (None, None) \<Rightarrow> Inl TypeError
            | (Some a, None) \<Rightarrow> Inr (num_op (-) (tr_start a) (Num defaultRange), num_op (+) (tr_end a) (Num defaultRange))
            | (Some a, Some b) \<Rightarrow>
                if tr_rel b = Undef then Inl (Thrown ''second term did not hav a range'')
                else Inr (num_op (-) (tr_start a) (tr_rel b), num_op (+) (tr_end a) (tr_rel b)))
      else (case term1 of
              None \<Rightarrow> Inl TypeError
            | Some a \<Rightarrow>
                if truthy (tr_rel a) then Inr (num_op (-) (Num now) (tr_rel a), num_op (+) (Num now) (tr_rel a))
                else if truthy (tr_now a) then Inr (num_op (-) (tr_now a) (Num defaultRange), num_op (+) (tr_now a) (Num defaultRange))
                else Inr (tr_start a, tr_end a)))"

definition drp_parse_raw :: "int \<Rightarrow> string \<Rightarrow> (jsval \<times> jsval) res" where
  "drp_parse_raw now v =
     (if v = [] then Inr (Null, Null)
      else case split_terms v of (t1, op, t2) \<Rightarrow>
        res_bind (opt_term now t1) (\<lambda>term1. res_bind (opt_term now t2) (\<lambda>term2. combine now term1 op term2)))"

text \<open>The end of a range is its last millisecond; whatever is thrown gives \<open>null\<close>.\<close>

definition drp_parse :: "int \<Rightarrow> string \<Rightarrow> (jsval \<times> jsval) option" where
  "drp_parse now v =
     (case drp_parse_raw now v of
        Inl _ \<Rightarrow> None
      | Inr (s, e) \<Rightarrow> Some (s, if truthy e then num_op (-) e (Num 1) else e))"

definition two_digits :: "int \<Rightarrow> string" where
  "two_digits n = (if n < 10 then ''0'' else []) @ show_int n"

definition drp_print :: "int \<Rightarrow> nat \<Rightarrow> string" where
  "drp_print t p = concat (map (\<lambda>i. [[], ''-'', ''-'', '' '', '':'', '':'', ''.''] ! i @ two_digits (makeArray t ! i)) [0..<Suc p])"

section \<open>The named periods\<close>

lemma year_up_ge: "y \<le> year_up day y"
  by (induction day y rule: year_up.induct) (subst year_up.simps, auto)

lemma year_of_ge: "0 \<le> day \<Longrightarrow> 1970 \<le> year_of day"
  using year_up_ge [of "1970 + day div 366" day] pos_imp_zdiv_nonneg_iff [of 366 day] by (simp add: year_of_def)

text \<open>The fields of a time from 1970 on: its year, month and day, and what they say of it.\<close>

lemma makeArray_fields:
  assumes "0 \<le> now"
  shows "\<exists>y m d h mi sc ms. makeArray now = [y, int m + 1, d, h, mi, sc, ms] \<and> 1970 \<le> y \<and> m < 12
    \<and> day_from_month y (int m) + d - 1 = now div 86400000
    \<and> day_from_month y (int m) \<le> now div 86400000 \<and> now div 86400000 < day_from_month y (int m + 1)
    \<and> day_from_year y \<le> now div 86400000 \<and> now div 86400000 < day_from_year (y + 1)"
proof -
  define day where "day = now div 86400000"
  define y where "y = year_of day"
  define doy where "doy = day - day_from_year y"
  define m where "m = month_of (leap y) doy"
  define r where "r = now mod 86400000"
  have day: "0 \<le> day" using assms by (simp add: day_def pos_imp_zdiv_nonneg_iff)
  have y: "1970 \<le> y" "day_from_year y \<le> day" "day < day_from_year (y + 1)"
    using year_of_ge [OF day] year_of_spec [of day] by (simp_all add: y_def)
  have doy: "0 \<le> doy" "doy < (if leap y then 366 else 365)"
    using y day_from_next_year [of y] by (auto simp: doy_def)
  note m = month_of_spec [OF doy, folded m_def]
  note dm = day_from_month_simps [OF m(1), of y]
  have bounds: "day_from_month y (int m) \<le> day" "day < day_from_month y (int m + 1)"
    using m(2,3) unfolding dm doy_def by linarith+
  have eq: "makeArray now = [y, int m + 1, doy - cum_days (leap y) ! m + 1, r div 3600000, r div 60000 mod 60, r div 1000 mod 60, r mod 1000]"
    unfolding makeArray_def Let_def day_def [symmetric] y_def [symmetric] doy_def [symmetric] m_def [symmetric] r_def [symmetric] ..
  have "day_from_month y (int m) + (doy - cum_days (leap y) ! m + 1) - 1 = day" unfolding dm doy_def by simp
  with eq y bounds m(1) show ?thesis unfolding day_def [symmetric] by blast
qed

lemma fromArray_simp: "1970 \<le> y \<Longrightarrow> fromArray [y, m, d, 0, 0, 0, 0] = (day_from_month y (m - 1) + d - 1) * 86400000"
  by (simp add: fromArray_def date_utc_def Let_def)

lemma upt_7: "[0..<7] = [0, 1, 2, 3, 4, 5, 6::nat]"
  by (simp add: upt_rec)

lemma precArray_simps:
  assumes "makeArray now = [y, m, d, h, mi, sc, ms]"
  shows "precArray now 0 k = [y + k, 1, 1, 0, 0, 0, 0]" "precArray now 1 k = [y, m + k, 1, 0, 0, 0, 0]"
    "precArray now 2 k = [y, m, d + k, 0, 0, 0, 0]"
  by (simp_all add: precArray_def assms upt_7 Let_def)

lemma period_parse:
  assumes "procTerm now w = Inr r" "split_terms w = (w, [], [])" "w \<noteq> []" "tr_start r = Num s" "tr_end r = Num e" "e \<noteq> 0"
    "tr_rel r = Undef" "tr_now r = Undef"
  shows "drp_parse now w = Some (Num s, Num (e - 1))"
  using assms by (simp add: drp_parse_def drp_parse_raw_def opt_term_def combine_def num_op_def)

lemma day_bounds: "0 \<le> now \<Longrightarrow> (now div 86400000) * 86400000 \<le> now \<and> now < (now div 86400000 + 1) * (86400000 :: int)"
  using div_mult_mod_eq [of now 86400000] pos_mod_bound [of 86400000 now] pos_mod_sign [of 86400000 now]
  unfolding distrib_right by linarith

definition this_periods :: "string list" where
  "this_periods = [''today'', ''thisweek'', ''thismonth'', ''thisyear'']"

lemma this_periods_split: "w \<in> set this_periods \<Longrightarrow> split_terms w = (w, [], []) \<and> w \<noteq> [] \<and> procTerm now w = word_range now w"
proof -
  have "list_all (\<lambda>w. split_terms w = (w, [], []) \<and> w \<noteq> [] \<and> to_lower (filter (\<lambda>c. \<not> is_space c) w) = w \<and> list_all is_lower w) this_periods"
    by code_simp
  then show "w \<in> set this_periods \<Longrightarrow> ?thesis" by (auto simp: list_all_iff procTerm_def Let_def)
qed

text \<open>The range of each period, as a count of days.\<close>

lemma this_period_range:
  assumes "0 \<le> now" "w \<in> set this_periods"
  shows "\<exists>a b. word_range now w = Inr \<lparr> tr_start = Num (a * 86400000), tr_end = Num (b * 86400000), tr_rel = Undef, tr_now = Undef \<rparr>
    \<and> a \<le> now div 86400000 \<and> now div 86400000 < b \<and> (w = ''today'' \<longrightarrow> b = a + 1) \<and> (w = ''thisweek'' \<longrightarrow> b = a + 7 \<and> (a + 4) mod 7 = 0)"
proof -
  let ?day = "now div 86400000"
  obtain y m d h mi sc ms where f: "makeArray now = [y, int m + 1, d, h, mi, sc, ms]" "True" "1970 \<le> y" "m < 12"
    "day_from_month y (int m) + d - 1 = ?day"
    "day_from_month y (int m) \<le> ?day" "?day < day_from_month y (int m + 1)"
    "day_from_year y \<le> ?day" "?day < day_from_year (y + 1)"
    using makeArray_fields [OF assms(1)] by blast
  note p = precArray_simps [OF f(1)]
  have dm: "day_from_month y (int m) = ?day - d + 1" using f(5) by simp
  have jan: "day_from_month z 0 = day_from_year z" for z by (simp add: day_from_month_def cum_days_def)
  have wd: "getUTCDay (?day * 86400000) = (?day + 4) mod 7" by (simp add: getUTCDay_def)
  consider "w = ''today''" | "w = ''thisweek''" | "w = ''thismonth''" | "w = ''thisyear''"
    using assms(2) by (auto simp: this_periods_def)
  then show ?thesis
  proof cases
    case 1
    have "word_range now w = Inr \<lparr> tr_start = Num (?day * 86400000), tr_end = Num ((?day + 1) * 86400000), tr_rel = Undef, tr_now = Undef \<rparr>"
      using f(3) by (simp add: 1 word_range_def dra_def makePrecRange_def p fromArray_simp dm Let_def)
    with 1 show ?thesis by (intro exI [of _ ?day] exI [of _ "?day + 1"]) simp
  next
    case 2
    let ?a = "?day - (?day + 4) mod 7"
    have "word_range now w = Inr \<lparr> tr_start = Num (?a * 86400000), tr_end = Num ((?a + 7) * 86400000), tr_rel = Undef, tr_now = Undef \<rparr>"
      using f(3) by (simp add: 2 word_range_def dra_def makePrecRange_def p fromArray_simp dm wd Let_def)
    moreover have "(?a + 4) mod 7 = 0" using mod_diff_left_eq [of "?day + 4" 7 "(?day + 4) mod 7"] by (simp add: algebra_simps)
    moreover have "0 \<le> (?day + 4) mod 7" "(?day + 4) mod 7 < 7" by simp_all
    ultimately show ?thesis using 2 by (intro exI [of _ ?a] exI [of _ "?a + 7"]) simp
  next
    case 3
    have "word_range now w = Inr \<lparr> tr_start = Num (day_from_month y (int m) * 86400000), tr_end = Num (day_from_month y (int m + 1) * 86400000), tr_rel = Undef, tr_now = Undef \<rparr>"
      using f(3) by (simp add: 3 word_range_def dra_def makePrecRange_def p [unfolded One_nat_def] fromArray_simp Let_def add.commute)
    with 3 f show ?thesis by (intro exI [of _ "day_from_month y (int m)"] exI [of _ "day_from_month y (int m + 1)"]) simp
  next
    case 4
    have "word_range now w = Inr \<lparr> tr_start = Num (day_from_year y * 86400000), tr_end = Num (day_from_year (y + 1) * 86400000), tr_rel = Undef, tr_now = Undef \<rparr>"
      using f(3) by (simp add: 4 word_range_def dra_def makePrecRange_def p fromArray_simp jan Let_def)
    with 4 f show ?thesis by (intro exI [of _ "day_from_year y"] exI [of _ "day_from_year (y + 1)"]) simp
  qed
qed



end
