(* ===== verification/Filters.thy ===== *)
theory Filters
  imports DateRange Results MetaData
begin

text \<open>
  Choosing what to search: \<^verbatim>\<open>ui/queryFilter/queryFilter.js\<close> (indices, types and filters of the
  browser), \<^verbatim>\<open>ui/filterBrowser/filterBrowser.js\<close> (the rows of a structured query) and
  \<^verbatim>\<open>ui/indexSelector/indexSelector.js\<close>.
\<close>

section \<open>Indices and types\<close>

text \<open>
  The elements for the indices and for the types with their class \<open>selected\<close>, the query they act on, and
  the requests that were sent. A click that another click causes is not a real user interaction.
\<close>

record chooser =
  ch_query :: query
  ch_indices :: "(string \<times> bool) list"
  ch_types :: "(string \<times> bool) list"
  ch_sent :: "(string \<times> search) list"

definition requestUpdate :: "bool \<Rightarrow> chooser \<Rightarrow> chooser" where
  "requestUpdate live c =
     (if live
      then let q = setPage 1 (ch_query c); (path, data, sn) = query_post q
           in c\<lparr> ch_query := q, ch_sent := ch_sent c @ [(path, data)] \<rparr>
      else c)"

definition toggle :: "string \<Rightarrow> (string \<times> bool) list \<Rightarrow> (string \<times> bool) list" where
  "toggle k xs = map (\<lambda>(n, b). if n = k then (n, \<not> b) else (n, b)) xs"

definition chosen :: "(string \<times> bool) list \<Rightarrow> string list" where
  "chosen xs = map fst (filter snd xs)"

fun click_all :: "(string \<Rightarrow> chooser \<Rightarrow> chooser res) \<Rightarrow> string list \<Rightarrow> chooser \<Rightarrow> chooser res" where
  "click_all f [] c = Inr c"
| "click_all f (x # xs) c = res_bind (f x c) (click_all f xs)"

text \<open>The handlers click on other elements, whose handlers run at once; the number bounds the nesting.\<close>

fun select_index :: "nat \<Rightarrow> meta \<Rightarrow> string \<Rightarrow> chooser \<Rightarrow> chooser res"
  and select_type :: "nat \<Rightarrow> meta \<Rightarrow> string \<Rightarrow> chooser \<Rightarrow> chooser res" where
  "select_index 0 m i c = Inl RangeError"
| "select_index (Suc n) m i c =
     (let ixs = toggle i (ch_indices c); on = contains (chosen ixs) i;
          c1 = c\<lparr> ch_indices := ixs, ch_query := setIndex i on (ch_query c) \<rparr>
      in if on
         then res_bind (getTypes (Some (indices (ch_query c1))) m) (\<lambda>tys.
                click_all (select_type n m) (filter (\<lambda>t. \<not> contains tys t) (chosen (ch_types c1))) c1)
         else Inr c1)"
| "select_type 0 m t c = Inl RangeError"
| "select_type (Suc n) m t c =
     (let tys = toggle t (ch_types c); on = contains (chosen tys) t;
          c1 = c\<lparr> ch_types := tys, ch_query := setType t on (ch_query c) \<rparr>
      in if on
         then (case type_indices m t of
                 None \<Rightarrow> Inl TypeError
               | Some ixs \<Rightarrow>
                   res_bind (click_all (select_index n m) (filter (\<lambda>i. \<not> contains ixs i) (chosen (ch_indices c1))) c1) (\<lambda>c2.
                     click_all (\<lambda>o' c'. case type_indices m o' of
                                  None \<Rightarrow> Inl TypeError
                                | Some ixs' \<Rightarrow> if intersection ixs' ixs = [] then select_type n m o' c' else Inr c')
                       (filter (\<lambda>o'. o' \<noteq> t) (chosen (ch_types c2))) c2))
         else Inr c1)"

definition selectIndex_handler :: "bool \<Rightarrow> meta \<Rightarrow> string \<Rightarrow> chooser \<Rightarrow> chooser res" where
  "selectIndex_handler live m i c = res_bind (select_index 2 m i c) (\<lambda>c'. Inr (requestUpdate live c'))"

definition selectType_handler :: "bool \<Rightarrow> meta \<Rightarrow> string \<Rightarrow> chooser \<Rightarrow> chooser res" where
  "selectType_handler live m t c = res_bind (select_type 2 m t c) (\<lambda>c'. Inr (requestUpdate live c'))"

text \<open>An alias selects its indices and no others; the first entry, \<open>None\<close>, stands for all indices.\<close>

definition selectAlias_handler :: "bool \<Rightarrow> meta \<Rightarrow> string option \<Rightarrow> chooser \<Rightarrow> chooser res" where
  "selectAlias_handler live m al c =
     (case (case al of None \<Rightarrow> Some [] | Some a \<Rightarrow> getIndices (Some a) m) of
        None \<Rightarrow> Inl TypeError
      | Some ixs \<Rightarrow>
          res_bind (click_all (\<lambda>i c'. if contains ixs i \<noteq> contains (chosen (ch_indices c')) i then select_index 2 m i c' else Inr c')
              (map fst (ch_indices c)) c) (\<lambda>c'. Inr (requestUpdate live c')))"

definition chooser_init :: "query \<Rightarrow> meta \<Rightarrow> chooser" where
  "chooser_init q m =
     \<lparr> ch_query = q, ch_indices = map (\<lambda>i. (i, False)) (sort (indicesList m)),
       ch_types = map (\<lambda>t. (t, False)) (sort (typesList m)), ch_sent = [] \<rparr>"

section \<open>No type is asked of an index that lacks it\<close>

definition linked :: "meta \<Rightarrow> string \<Rightarrow> string \<Rightarrow> bool" where
  "linked m i t \<longleftrightarrow> i \<in> set (listed (type_indices m t))"

text \<open>What \<open>refresh\<close> guarantees of its tables.\<close>

definition consistent :: "meta \<Rightarrow> bool" where
  "consistent m \<longleftrightarrow> (\<forall>i t. linked m i t \<longleftrightarrow> t \<in> set (listed (index_types m i)))"

definition base_inv :: "meta \<Rightarrow> chooser \<Rightarrow> bool" where
  "base_inv m c \<longleftrightarrow>
     distinct (map fst (ch_indices c)) \<and> distinct (map fst (ch_types c))
     \<and> set (map fst (ch_indices c)) = set (indicesList m) \<and> set (map fst (ch_types c)) = set (typesList m)
     \<and> distinct (indices (ch_query c)) \<and> distinct (types (ch_query c))
     \<and> set (indices (ch_query c)) = set (chosen (ch_indices c)) \<and> set (types (ch_query c)) = set (chosen (ch_types c))"

definition all_linked :: "meta \<Rightarrow> chooser \<Rightarrow> bool" where
  "all_linked m c \<longleftrightarrow> (\<forall>i \<in> set (chosen (ch_indices c)). \<forall>t \<in> set (chosen (ch_types c)). linked m i t)"

lemma fst_toggle [simp]: "map fst (toggle k xs) = map fst xs"
  by (auto simp: toggle_def)

lemma fst_set_toggle [simp]: "fst ` set (toggle k xs) = fst ` set xs"
  by (metis fst_toggle list.set_map)

lemma in_toggle: "(n, True) \<in> set (toggle k xs) \<longleftrightarrow> (if n = k then (k, False) \<in> set xs else (n, True) \<in> set xs)"
proof -
  let ?f = "\<lambda>(n, b). if n = k then (n, \<not> b) else (n, b)"
  have inv: "?f (?f p) = p" for p :: "string \<times> bool" by (cases p) simp
  have "x \<in> ?f ` S \<longleftrightarrow> ?f x \<in> S" for x S
  proof
    assume "x \<in> ?f ` S"
    then obtain y where "x = ?f y" "y \<in> S" by (rule imageE)
    then show "?f x \<in> S" using inv [of y] by simp
  next
    assume "?f x \<in> S"
    then have "?f (?f x) \<in> ?f ` S" by (rule imageI)
    then show "x \<in> ?f ` S" using inv [of x] by simp
  qed
  from this [of "(n, True)" "set xs"] show ?thesis by (auto simp: toggle_def)
qed

lemma set_chosen: "set (chosen xs) = {k. (k, True) \<in> set xs}"
  by (force simp: chosen_def)

lemma distinct_chosen: "distinct (map fst xs) \<Longrightarrow> distinct (chosen xs)"
  unfolding chosen_def by (induction xs) auto

lemma chosen_sub: "set (chosen xs) \<subseteq> fst ` set xs"
  by (force simp: set_chosen)

lemma chosen_toggle:
  assumes "distinct (map fst xs)" "k \<in> fst ` set xs"
  shows "set (chosen (toggle k xs)) = (if k \<in> set (chosen xs) then set (chosen xs) - {k} else insert k (set (chosen xs)))"
proof -
  have "\<not> ((k, True) \<in> set xs \<and> (k, False) \<in> set xs)"
    using assms(1) by (metis eq_key_imp_eq_value)
  moreover have "(k, True) \<in> set xs \<or> (k, False) \<in> set xs"
  proof -
    obtain b where "(k, b) \<in> set xs" using assms(2) by auto
    then show ?thesis by (cases b) auto
  qed
  ultimately show ?thesis unfolding set_chosen in_toggle by auto
qed

text \<open>Turning something off turns nothing else off or on.\<close>

definition off_index :: "string \<Rightarrow> chooser \<Rightarrow> chooser" where
  "off_index i c = c\<lparr> ch_indices := toggle i (ch_indices c), ch_query := setIndex i False (ch_query c) \<rparr>"

definition off_type :: "string \<Rightarrow> chooser \<Rightarrow> chooser" where
  "off_type t c = c\<lparr> ch_types := toggle t (ch_types c), ch_query := setType t False (ch_query c) \<rparr>"

lemma setIndex_simps [simp]:
  "indices (setIndex i b q) = (if b then (if i \<in> set (indices q) then indices q else indices q @ [i]) else remove1 i (indices q))"
  "types (setIndex i b q) = types q"
  "types (setType i b q) = (if b then (if i \<in> set (types q) then types q else types q @ [i]) else remove1 i (types q))"
  "indices (setType i b q) = indices q"
  by (simp_all add: setIndex_def setType_def log_def contains_def)

lemma off_index_inv:
  assumes "base_inv m c" "i \<in> set (chosen (ch_indices c))"
  shows "select_index (Suc n) m i c = Inr (off_index i c)" "base_inv m (off_index i c)"
    "set (chosen (ch_indices (off_index i c))) = set (chosen (ch_indices c)) - {i}" "ch_types (off_index i c) = ch_types c"
proof -
  have d: "distinct (map fst (ch_indices c))" "i \<in> fst ` set (ch_indices c)"
    using assms chosen_sub by (force simp: base_inv_def)+
  note ct = chosen_toggle [OF d]
  show "select_index (Suc n) m i c = Inr (off_index i c)"
    using ct assms(2) by (simp add: off_index_def contains_def Let_def)
  show s: "set (chosen (ch_indices (off_index i c))) = set (chosen (ch_indices c)) - {i}"
    using ct assms(2) by (simp add: off_index_def)
  show "ch_types (off_index i c) = ch_types c" by (simp add: off_index_def)
  show "base_inv m (off_index i c)"
    using assms ct by (auto simp: base_inv_def off_index_def)
qed

lemma off_type_inv:
  assumes "base_inv m c" "t \<in> set (chosen (ch_types c))"
  shows "select_type (Suc n) m t c = Inr (off_type t c)" "base_inv m (off_type t c)"
    "set (chosen (ch_types (off_type t c))) = set (chosen (ch_types c)) - {t}" "ch_indices (off_type t c) = ch_indices c"
proof -
  have d: "distinct (map fst (ch_types c))" "t \<in> fst ` set (ch_types c)"
    using assms chosen_sub by (force simp: base_inv_def)+
  note ct = chosen_toggle [OF d]
  show "select_type (Suc n) m t c = Inr (off_type t c)"
    using ct assms(2) by (simp add: off_type_def contains_def Let_def)
  show s: "set (chosen (ch_types (off_type t c))) = set (chosen (ch_types c)) - {t}"
    using ct assms(2) by (simp add: off_type_def)
  show "ch_indices (off_type t c) = ch_indices c" by (simp add: off_type_def)
  show "base_inv m (off_type t c)"
    using assms ct by (auto simp: base_inv_def off_type_def)
qed

text \<open>A run of clicks, each on something that is on, or nothing.\<close>

lemma click_types_off:
  assumes "base_inv m c" "distinct ts" "set ts \<subseteq> set (chosen (ch_types c))"
    "\<And>t c'. t \<in> set ts \<Longrightarrow> f t c' = (if Q t then select_type (Suc n) m t c' else Inr c')"
  shows "\<exists>c'. click_all f ts c = Inr c' \<and> base_inv m c' \<and> ch_indices c' = ch_indices c
    \<and> set (chosen (ch_types c')) = set (chosen (ch_types c)) - {t \<in> set ts. Q t}"
  using assms
proof (induction ts arbitrary: c)
  case (Cons t ts)
  show ?case
  proof (cases "Q t")
    case True
    note o = off_type_inv [OF Cons.prems(1), of t]
    have t: "t \<in> set (chosen (ch_types c))" using Cons.prems(3) by simp
    have "set ts \<subseteq> set (chosen (ch_types (off_type t c)))" using o(3) [OF t] Cons.prems(2,3) by auto
    from Cons.IH [OF o(2) [OF t] _ this] obtain c' where c': "click_all f ts (off_type t c) = Inr c'" "base_inv m c'"
      "ch_indices c' = ch_indices c" "set (chosen (ch_types c')) = set (chosen (ch_types c)) - {t} - {t \<in> set ts. Q t}"
      using Cons.prems o(3,4) [OF t] by auto
    have "f t c = Inr (off_type t c)" using Cons.prems(4) [of t c] o(1) [OF t, of n] True by simp
    with c' True show ?thesis by (intro exI [of _ c']) auto
  next
    case False
    with Cons.IH [of c] Cons.prems show ?thesis by auto
  qed
qed simp

lemma click_indices_off:
  assumes "base_inv m c" "distinct is" "set is \<subseteq> set (chosen (ch_indices c))"
  shows "\<exists>c'. click_all (select_index (Suc n) m) is c = Inr c' \<and> base_inv m c' \<and> ch_types c' = ch_types c
    \<and> set (chosen (ch_indices c')) = set (chosen (ch_indices c)) - set is"
  using assms
proof (induction "is" arbitrary: c)
  case (Cons i "is")
  note o = off_index_inv [OF Cons.prems(1), of i]
  have i: "i \<in> set (chosen (ch_indices c))" using Cons.prems(3) by simp
  have "set is \<subseteq> set (chosen (ch_indices (off_index i c)))" using o(3) [OF i] Cons.prems(2,3) by auto
  from Cons.IH [OF o(2) [OF i] _ this] Cons.prems(2) o(3,4) [OF i] o(1) [OF i, of n] show ?case
    by (auto simp del: select_index.simps)
qed simp

lemma getTypes_known:
  assumes "set ixs \<subseteq> set (indicesList m)"
  shows "\<exists>tys. getTypes (Some ixs) m = Inr tys \<and> set tys = {t \<in> set (typesList m). \<forall>i \<in> set ixs. t \<in> set (listed (index_types m i))}"
proof -
  have "list_all (\<lambda>i. index_types m i \<noteq> None) ixs"
    using assms by (auto simp: list_all_iff index_types_def indicesList_def keys_def map_of_eq_None_iff)
  from types_in_total [OF this] show ?thesis by (simp add: getTypes_def list_all_iff)
qed

lemma select_index_ok:
  assumes "base_inv m c" "all_linked m c" "consistent m" "i \<in> set (indicesList m)"
  shows "\<exists>c'. select_index (Suc (Suc n)) m i c = Inr c' \<and> base_inv m c' \<and> all_linked m c'
    \<and> set (chosen (ch_indices c')) = (if i \<in> set (chosen (ch_indices c)) then set (chosen (ch_indices c)) - {i} else insert i (set (chosen (ch_indices c))))"
proof (cases "i \<in> set (chosen (ch_indices c))")
  case True
  note o = off_index_inv [OF assms(1) True]
  have "all_linked m (off_index i c)" using assms(2) o(3,4) by (simp add: all_linked_def)
  with o(1) [of "Suc n"] o(2,3) True show ?thesis by (simp del: select_index.simps)
next
  case False
  let ?ixs = "toggle i (ch_indices c)"
  let ?c1 = "c\<lparr> ch_indices := ?ixs, ch_query := setIndex i True (ch_query c) \<rparr>"
  have d: "distinct (map fst (ch_indices c))" "i \<in> fst ` set (ch_indices c)"
    using assms(1,4) by (auto simp: base_inv_def)
  have ch: "set (chosen ?ixs) = insert i (set (chosen (ch_indices c)))" using chosen_toggle [OF d] False by simp
  have b1: "base_inv m ?c1" using assms(1) False ch by (auto simp: base_inv_def)
  have "set (indices (ch_query ?c1)) \<subseteq> set (indicesList m)"
    using b1 chosen_sub [of ?ixs] by (auto simp: base_inv_def)
  from getTypes_known [OF this] obtain tys where tys: "getTypes (Some (indices (ch_query ?c1))) m = Inr tys"
    "set tys = {t \<in> set (typesList m). \<forall>i \<in> set (indices (ch_query ?c1)). t \<in> set (listed (index_types m i))}" by blast
  let ?ts = "filter (\<lambda>t. \<not> contains tys t) (chosen (ch_types ?c1))"
  have "distinct ?ts" using b1 distinct_chosen by (simp add: base_inv_def)
  from click_types_off [OF b1 this, of "select_type (Suc n) m" "\<lambda>_. True" n] obtain c' where
    c': "click_all (select_type (Suc n) m) ?ts ?c1 = Inr c'" "base_inv m c'" "ch_indices c' = ?ixs"
      "set (chosen (ch_types c')) = set (chosen (ch_types c)) - set ?ts"
    by (auto simp del: select_type.simps)
  have "linked m j t" if "j \<in> set (chosen ?ixs)" "t \<in> set (chosen (ch_types c'))" for j t
  proof -
    have "t \<in> set tys" using that(2) c'(4) by (auto simp: contains_def)
    moreover have "j \<in> set (indices (ch_query ?c1))" using that(1) b1 by (simp add: base_inv_def)
    ultimately show ?thesis using assms(3) by (auto simp: tys(2) consistent_def)
  qed
  then have "all_linked m c'" by (simp add: all_linked_def c'(3))
  moreover have "select_index (Suc (Suc n)) m i c = Inr c'"
    using c'(1) tys(1) ch by (simp add: contains_def Let_def del: select_type.simps)
  ultimately show ?thesis using c' ch False by (simp del: select_index.simps)
qed

lemma select_type_ok:
  assumes "base_inv m c" "all_linked m c" "t \<in> set (typesList m)"
  shows "\<exists>c'. select_type (Suc (Suc n)) m t c = Inr c' \<and> base_inv m c' \<and> all_linked m c'"
proof (cases "t \<in> set (chosen (ch_types c))")
  case True
  note o = off_type_inv [OF assms(1) True]
  have "all_linked m (off_type t c)" using assms(2) o(3,4) by (simp add: all_linked_def)
  with o(1) [of "Suc n"] o(2) show ?thesis by (simp del: select_type.simps)
next
  case False
  let ?tys = "toggle t (ch_types c)"
  let ?c1 = "c\<lparr> ch_types := ?tys, ch_query := setType t True (ch_query c) \<rparr>"
  have d: "distinct (map fst (ch_types c))" "t \<in> fst ` set (ch_types c)"
    using assms(1,3) by (auto simp: base_inv_def)
  have ch: "set (chosen ?tys) = insert t (set (chosen (ch_types c)))" using chosen_toggle [OF d] False by simp
  have b1: "base_inv m ?c1" using assms(1) False ch by (auto simp: base_inv_def)
  have known: "\<exists>l. type_indices m o' = Some l" if "o' \<in> set (typesList m)" for o'
    using that by (auto simp: type_indices_def typesList_def keys_def map_of_eq_None_iff dest: weak_map_of_SomeI)
  then obtain ixs where ixs: "type_indices m t = Some ixs" using assms(3) by blast
  let ?is = "filter (\<lambda>i. \<not> contains ixs i) (chosen (ch_indices ?c1))"
  have "distinct ?is" using b1 distinct_chosen by (simp add: base_inv_def)
  from click_indices_off [OF b1 this, of n] obtain c2 where
    c2: "click_all (select_index (Suc n) m) ?is ?c1 = Inr c2" "base_inv m c2" "ch_types c2 = ?tys"
      "set (chosen (ch_indices c2)) = set (chosen (ch_indices c)) - set ?is"
    by (auto simp del: select_index.simps)
  let ?ts = "filter (\<lambda>o'. o' \<noteq> t) (chosen (ch_types c2))"
  let ?f = "\<lambda>o' c'. case type_indices m o' of None \<Rightarrow> Inl TypeError
      | Some ixs' \<Rightarrow> if intersection ixs' ixs = [] then select_type (Suc n) m o' c' else Inr c'"
  let ?Q = "\<lambda>o'. intersection (listed (type_indices m o')) ixs = []"
  have dt: "distinct ?ts" using c2(2) distinct_chosen by (simp add: base_inv_def)
  have f: "?f o' c' = (if ?Q o' then select_type (Suc n) m o' c' else Inr c')" if "o' \<in> set ?ts" for o' c'
  proof -
    have "o' \<in> set (typesList m)" using that c2(2) chosen_sub [of "ch_types c2"] by (auto simp: base_inv_def)
    with known [of o'] show ?thesis by (auto simp: listed_def simp del: select_type.simps)
  qed
  from click_types_off [OF c2(2) dt _ f] obtain c' where
    c': "click_all ?f ?ts c2 = Inr c'" "base_inv m c'" "ch_indices c' = ch_indices c2"
      "set (chosen (ch_types c')) \<subseteq> set (chosen (ch_types c2))"
    by (auto simp del: select_type.simps)
  have "linked m j o'" if "j \<in> set (chosen (ch_indices c'))" "o' \<in> set (chosen (ch_types c'))" for j o'
  proof (cases "o' = t")
    case True
    then show ?thesis using that(1) c'(3) c2(4) by (auto simp: contains_def linked_def listed_def ixs)
  next
    case False
    then show ?thesis using that c'(3,4) c2(3,4) ch assms(2) by (auto simp: all_linked_def)
  qed
  then have "all_linked m c'" by (simp add: all_linked_def)
  moreover have "select_type (Suc (Suc n)) m t c = Inr c'"
    using c2(1) c'(1) ch ixs by (simp add: contains_def Let_def del: select_index.simps)
  ultimately show ?thesis using c'(2) by blast
qed

lemma selectAlias_ok:
  assumes "base_inv m c" "all_linked m c" "consistent m" "\<forall>a. al = Some a \<longrightarrow> a \<noteq> [] \<and> has_key (aliases m) a"
  shows "\<exists>c'. selectAlias_handler live m al c = Inr c' \<and> base_inv m c' \<and> all_linked m c'"
proof -
  have "\<exists>ixs. (case al of None \<Rightarrow> Some [] | Some a \<Rightarrow> getIndices (Some a) m) = Some ixs"
    using assms(4) by (cases al) (auto simp: getIndices_def has_key_iff)
  then obtain ixs where ixs: "(case al of None \<Rightarrow> Some [] | Some a \<Rightarrow> getIndices (Some a) m) = Some ixs" by blast
  let ?f = "\<lambda>i c'. if contains ixs i \<noteq> contains (chosen (ch_indices c')) i then select_index 2 m i c' else Inr c'"
  have run: "base_inv m c \<Longrightarrow> all_linked m c \<Longrightarrow> set is \<subseteq> set (indicesList m) \<Longrightarrow>
      \<exists>c'. click_all ?f is c = Inr c' \<and> base_inv m c' \<and> all_linked m c'" for "is" c
  proof (induction "is" arbitrary: c)
    case (Cons i "is")
    have "\<exists>c1. ?f i c = Inr c1 \<and> base_inv m c1 \<and> all_linked m c1"
    proof (cases "contains ixs i \<noteq> contains (chosen (ch_indices c)) i")
      case True
      obtain c1 where "select_index 2 m i c = Inr c1" "base_inv m c1" "all_linked m c1"
        using select_index_ok [OF Cons.prems(1,2) assms(3), of i 0] Cons.prems(3)
        by (auto simp: numeral_2_eq_2 simp del: select_index.simps)
      with True show ?thesis by (simp del: select_index.simps)
    next
      case False
      with Cons.prems show ?thesis by (simp del: select_index.simps)
    qed
    then obtain c1 where c1: "?f i c = Inr c1" "base_inv m c1" "all_linked m c1" by blast
    from Cons.IH [OF c1(2,3)] Cons.prems(3) c1(1) show ?case by (auto simp del: select_index.simps)
  qed simp
  have "set (map fst (ch_indices c)) \<subseteq> set (indicesList m)" using assms(1) by (simp add: base_inv_def)
  from run [OF assms(1,2) this] obtain c' where c': "click_all ?f (map fst (ch_indices c)) c = Inr c'" "base_inv m c'" "all_linked m c'"
    by blast
  then have "selectAlias_handler live m al c = Inr (requestUpdate live c')"
    unfolding selectAlias_handler_def ixs by simp
  moreover have "base_inv m (requestUpdate live c')" "all_linked m (requestUpdate live c')"
    using c'(2,3) by (auto simp: base_inv_def all_linked_def requestUpdate_def query_post_def setPage_def Let_def)
  ultimately show ?thesis by blast
qed

lemma requestUpdate_inv [simp]:
  "base_inv m (requestUpdate live c) = base_inv m c" "all_linked m (requestUpdate live c) = all_linked m c"
  by (auto simp: base_inv_def all_linked_def requestUpdate_def query_post_def setPage_def Let_def)

text \<open>What the user does: clicks on an index or a type of the metadata, or chooses an alias of it.\<close>

inductive chooser_step :: "meta \<Rightarrow> chooser \<Rightarrow> chooser \<Rightarrow> bool" for m :: meta where
  Index: "i \<in> set (indicesList m) \<Longrightarrow> selectIndex_handler True m i c = Inr c' \<Longrightarrow> chooser_step m c c'"
| Type: "t \<in> set (typesList m) \<Longrightarrow> selectType_handler True m t c = Inr c' \<Longrightarrow> chooser_step m c c'"
| All: "selectAlias_handler True m None c = Inr c' \<Longrightarrow> chooser_step m c c'"
| Alias: "a \<noteq> [] \<Longrightarrow> has_key (aliases m) a \<Longrightarrow> selectAlias_handler True m (Some a) c = Inr c' \<Longrightarrow> chooser_step m c c'"

inductive chooser_reach :: "meta \<Rightarrow> chooser \<Rightarrow> bool" for m :: meta where
  Start: "indices q = [] \<Longrightarrow> types q = [] \<Longrightarrow> chooser_reach m (chooser_init q m)"
| Step: "chooser_reach m c \<Longrightarrow> chooser_step m c c' \<Longrightarrow> chooser_reach m c'"

text \<open>The tables of the metadata have each name once.\<close>

definition wf_tables :: "meta \<Rightarrow> bool" where
  "wf_tables m \<longleftrightarrow> wf_dict (m_types m) \<and> wf_dict (m_indices m)"

lemma wf_tables_simps [simp]:
  "wf_tables s \<Longrightarrow> wf_tables (listen i ty ix s)" "wf_tables s \<Longrightarrow> wf_tables (touch_index ix f s)"
  "wf_tables s \<Longrightarrow> wf_tables (open_type ix ty s)"
  by (auto simp: wf_tables_def listen_def touch_index_def open_type_def Let_def split: option.split)

lemma procPath_wf: "procPath n ty ix ps path s = Inr s' \<Longrightarrow> wf_tables s \<Longrightarrow> wf_tables s'"
proof (induction n ty ix ps path s arbitrary: s' rule: procPath.induct)
  case (3 n ty ix k m rest path s)
  then obtain i s1 where c: "createField n (Raw m) ix ty (path @ [k]) s = Inr (i, s1)"
    "procPath n ty ix rest path (listen i ty ix s1) = Inr s'" by auto
  have "wf_tables s1" using createField_keeps(1) [OF c(1)] 3(3) by (simp add: wf_tables_def)
  with 3(1) [OF c(2)] show ?case by simp
qed auto

lemma add_types_wf: "add_types n ix es s = Inr s' \<Longrightarrow> wf_tables s \<Longrightarrow> wf_tables s'"
proof (induction es arbitrary: s)
  case (Cons e es)
  then obtain s1 where s1: "add_type n ix e s = Inr s1" "add_types n ix es s1 = Inr s'" by auto
  have "wf_tables s1" using s1(1) Cons.prems(2) procPath_wf
    by (fastforce simp: add_type_def split: prod.splits option.splits)
  with Cons.IH s1(2) show ?case by blast
qed simp

lemma refresh_wf: "refresh n st = Inr m \<Longrightarrow> wf_tables m"
proof -
  have run: "add_indices n st s = Inr s' \<Longrightarrow> wf_tables s \<Longrightarrow> wf_tables s'" for s s'
  proof (induction st arbitrary: s)
    case (Cons e st)
    then obtain s1 where s1: "add_index n e s = Inr s1" "add_indices n st s1 = Inr s'" by auto
    have "wf_tables s1" using s1(1) Cons.prems(2) add_types_wf
      by (fastforce simp: add_index_def wf_tables_def split: prod.splits)
    with Cons.IH s1(2) show ?case by blast
  qed simp
  show "refresh n st = Inr m \<Longrightarrow> wf_tables m"
    unfolding refresh_def by (erule run) (simp add: wf_tables_def)
qed

lemma linked_refresh:
  assumes "refresh n st = Inr m" "wf_state st"
  shows "linked m i t \<longleftrightarrow> (case map_of st i of None \<Rightarrow> False | Some si \<Rightarrow> has_key (si_mappings si) t)"
proof -
  have d: "distinct (keys st)" using assms(2) by (simp add: wf_state_def)
  have "linked m i t \<longleftrightarrow> (\<exists>si. (i, si) \<in> set st \<and> has_key (si_mappings si) t)"
    by (force simp: linked_def refresh_tables [OF assms] having_type_def)
  also have "\<dots> \<longleftrightarrow> (\<exists>si. map_of st i = Some si \<and> has_key (si_mappings si) t)"
    using d by (auto simp: keys_def)
  finally show ?thesis by (auto split: option.split)
qed

lemma consistent_refresh: "refresh n st = Inr m \<Longrightarrow> wf_state st \<Longrightarrow> consistent m"
  by (auto simp: consistent_def linked_refresh refresh_tables(2) types_of_def listed_def has_key_keys split: option.split)

lemma reach_inv:
  assumes "wf_tables m" "consistent m"
  shows "chooser_reach m c \<Longrightarrow> base_inv m c \<and> all_linked m c"
proof (induction rule: chooser_reach.induct)
  case (Start q)
  have "chosen (map (\<lambda>i. (i, False)) xs) = []" for xs by (simp add: chosen_def filter_map o_def)
  then show ?case using assms(1) Start
    by (simp add: base_inv_def all_linked_def chooser_init_def o_def wf_tables_def wf_dict_def indicesList_def typesList_def)
next
  case (Step c c')
  then have inv: "base_inv m c" "all_linked m c" by simp_all
  from Step(2) show ?case
  proof (cases rule: chooser_step.cases)
    case (Index i)
    with select_index_ok [OF inv assms(2) Index(1), of 0] show ?thesis
      by (auto simp: selectIndex_handler_def numeral_2_eq_2 simp del: select_index.simps)
  next
    case (Type t)
    with select_type_ok [OF inv Type(1), of 0] show ?thesis
      by (auto simp: selectType_handler_def numeral_2_eq_2 simp del: select_type.simps)
  next
    case All
    with selectAlias_ok [OF inv assms(2), of None True] show ?thesis by auto
  next
    case (Alias a)
    with selectAlias_ok [OF inv assms(2), of "Some a" True] show ?thesis by auto
  qed
qed



section \<open>The filters on fields\<close>

text \<open>An input for a text remembers the clauses it made; a term that is empty makes none and leaves an empty text.\<close>

fun remove_clauses :: "string list \<Rightarrow> query \<Rightarrow> query res" where
  "remove_clauses [] q = Inr q"
| "remove_clauses (u # us) q = (if u = [] then remove_clauses us q else res_bind (removeClause u q) (remove_clauses us))"

text \<open>\<open>val.split(/\s+/)\<close>: a text that starts or ends with space has an empty term there.\<close>

fun split_space :: "bool \<Rightarrow> string \<Rightarrow> string list" where
  "split_space sp [] = [[]]"
| "split_space sp (c # cs) =
     (if is_space c then (if sp then split_space True cs else [] # split_space True cs)
      else (case split_space False cs of [] \<Rightarrow> [[c]] | w # ws \<Rightarrow> (c # w) # ws))"

text \<open>A field of a multi field: parts of the name that repeat the one before are dropped.\<close>

fun name_loop :: "nat \<Rightarrow> string list \<Rightarrow> string \<Rightarrow> string" where
  "name_loop 0 parts nm = nm"
| "name_loop (Suc p) parts nm =
     name_loop p parts (if parts ! Suc p \<noteq> parts ! p then parts ! p @ ''.'' @ nm else nm)"

definition query_name :: "string \<Rightarrow> string" where
  "query_name fieldname =
     (let parts = split_on (CHR ''.'') fieldname; p = length parts - 1 in name_loop p parts (parts ! p))"

text \<open>A star goes where the caret is, when the input has it and nothing is selected.\<close>

definition caret_star :: "nat option \<Rightarrow> string \<Rightarrow> string" where
  "caret_star caret v =
     (case caret of Some n \<Rightarrow> if n \<le> length v then take n v @ ''*'' @ List.drop n v else v | None \<Rightarrow> v)"

fun add_terms :: "string \<Rightarrow> string list \<Rightarrow> query \<Rightarrow> (string list \<times> query) res" where
  "add_terms nm [] q = Inr ([], q)"
| "add_terms nm (w # ws) q =
     (if w = [] then res_bind (add_terms nm ws q) (\<lambda>(us, q'). Inr ([] # us, q'))
      else res_bind (addClause (Str w) (Some nm) (Some ''wildcard'') (Some ''must'') q) (\<lambda>(u, q1).
           res_bind (add_terms nm ws q1) (\<lambda>(us, q'). Inr (u # us, q'))))"

definition textFilterChange_handler :: "string \<Rightarrow> nat option \<Rightarrow> string \<Rightarrow> string list \<Rightarrow> query \<Rightarrow> (string list \<times> query) res" where
  "textFilterChange_handler fieldname caret v uqids q =
     res_bind (remove_clauses uqids q) (\<lambda>q1.
       if v = [] then Inr (uqids, q1)
       else add_terms (query_name fieldname) (split_space False (caret_star caret v)) q1)"

text \<open>The inputs for a range keep the range and the clause they made last.\<close>

record range_input =
  ri_uqid :: "string option"
  ri_last :: "(jsval \<times> jsval) option"

text \<open>\<open>===\<close> on the ends of ranges.\<close>

definition strict_eq :: "jsval \<Rightarrow> jsval \<Rightarrow> bool" where
  "strict_eq a b \<longleftrightarrow> a = b \<and> a \<noteq> NaN"

definition same_range :: "(jsval \<times> jsval) option \<Rightarrow> jsval \<times> jsval \<Rightarrow> bool" where
  "same_range l r = (case l of None \<Rightarrow> False | Some (s, e) \<Rightarrow> strict_eq s (fst r) \<and> strict_eq e (snd r))"

definition remove_uqid :: "string option \<Rightarrow> query \<Rightarrow> query res" where
  "remove_uqid u q = (case u of Some x \<Rightarrow> if x = [] then Inr q else removeClause x q | None \<Rightarrow> Inr q)"

definition date_value :: "jsval \<times> jsval \<Rightarrow> jsval" where
  "date_value r = Obj ((if truthy (fst r) then [(''gte'', fst r)] else []) @ (if truthy (snd r) then [(''lte'', snd r)] else []))"

definition dateFilterChange_handler :: "int \<Rightarrow> string \<Rightarrow> string \<Rightarrow> range_input \<Rightarrow> query \<Rightarrow> (range_input \<times> query) res" where
  "dateFilterChange_handler now fieldname v inp q =
     (case drp_parse now v of
        None \<Rightarrow> Inr (inp, q)
      | Some r \<Rightarrow>
          if same_range (ri_last inp) r then Inr (inp, q)
          else res_bind (remove_uqid (ri_uqid inp) q) (\<lambda>q1.
            if js_and (fst r) (snd r) = Null then Inr (\<lparr> ri_uqid = None, ri_last = Some r \<rparr>, q1)
            else res_bind (addClause (date_value r) (Some fieldname) (Some ''range'') (Some ''must'') q1) (\<lambda>(u, q2).
              Inr (\<lparr> ri_uqid = Some u, ri_last = Some r \<rparr>, q2))))"

text \<open>\<open>val.split(/->|<>|</)\<close>.\<close>

function split_ops :: "string \<Rightarrow> string list" where
  "split_ops [] = [[]]"
| "split_ops (c # cs) =
     (if starts_with ''->'' (c # cs) \<or> starts_with ''<>'' (c # cs) then [] # split_ops (List.drop 1 cs)
      else if c = CHR ''<'' then [] # split_ops cs
      else (case split_ops cs of [] \<Rightarrow> [[c]] | w # ws \<Rightarrow> (c # w) # ws))"
  by pat_completeness auto
termination by (relation "measure length") auto

definition op_at :: "string list \<Rightarrow> nat \<Rightarrow> jsval" where
  "op_at ws i = (if i < length ws then parseInt (trim (ws ! i)) else Undef)"

definition numeric_range :: "string \<Rightarrow> jsval \<times> jsval" where
  "numeric_range v =
     (let ws = split_ops v; a = op_at ws 0; b = op_at ws 1
      in if str_contains v ''<>'' then (num_op (-) a b, num_op (+) a b)
         else if str_contains v ''->'' \<or> str_contains v ''<'' then (a, b)
         else (a, a))"

definition numericFilterChange_handler :: "string \<Rightarrow> string \<Rightarrow> range_input \<Rightarrow> query \<Rightarrow> (range_input \<times> query) res" where
  "numericFilterChange_handler fieldname v inp q =
     (let r = numeric_range v
      in if same_range (ri_last inp) r then Inr (inp, q)
         else res_bind (remove_uqid (ri_uqid inp) q) (\<lambda>q1.
           res_bind (addClause (Obj [(''gte'', fst r), (''lte'', snd r)]) (Some fieldname) (Some ''range'') (Some ''must'') q1) (\<lambda>(u, q2).
             Inr (\<lparr> ri_uqid = Some u, ri_last = Some r \<rparr>, q2))))"

definition booleanFilterChange_handler :: "string \<Rightarrow> string \<Rightarrow> string option \<Rightarrow> query \<Rightarrow> (string option \<times> query) res" where
  "booleanFilterChange_handler fieldname v uqid q =
     res_bind (remove_uqid uqid q) (\<lambda>q1.
       if v = ''true'' \<or> v = ''false''
       then res_bind (addClause (Str v) (Some fieldname) (Some ''term'') (Some ''must'') q1) (\<lambda>(u, q2). Inr (Some u, q2))
       else Inr (uqid, q1))"

text \<open>The names of a multi field are those without repetition.\<close>

lemma remdups_adj_double: "remdups_adj (xs @ a # a # ys) = remdups_adj (xs @ a # ys)"
  by (induction xs rule: remdups_adj.induct) simp_all

lemma name_loop_eq:
  "p < length parts \<Longrightarrow> ws \<noteq> [] \<Longrightarrow> hd ws = parts ! p \<Longrightarrow> remdups_adj ws = ws \<Longrightarrow>
   name_loop p parts (join ''.'' ws) = join ''.'' (remdups_adj (take p parts @ ws))"
proof (induction p arbitrary: ws)
  case (Suc p)
  obtain v rest where ws: "ws = v # rest" using Suc.prems(2) by (cases ws) auto
  have tk: "take (Suc p) parts = take p parts @ [parts ! p]" using Suc.prems(1) by (simp add: take_Suc_conv_app_nth)
  show ?case
  proof (cases "parts ! Suc p = parts ! p")
    case True
    with Suc.IH [of ws] Suc.prems show ?thesis by (simp add: ws tk remdups_adj_double)
  next
    case False
    then have "remdups_adj (parts ! p # ws) = parts ! p # ws" using Suc.prems(3,4) by (simp add: ws)
    with Suc.IH [of "parts ! p # ws"] Suc.prems(1) False show ?thesis by (simp add: ws tk)
  qed
qed simp

lemma query_name_eq: "query_name f = join ''.'' (remdups_adj (split_on (CHR ''.'') f))"
proof -
  let ?ps = "split_on (CHR ''.'') f"
  have n: "length ?ps - 1 < length ?ps" using split_on_nonempty [of "CHR ''.''" f] by (cases ?ps) auto
  then have "take (length ?ps - 1) ?ps @ [?ps ! (length ?ps - 1)] = ?ps"
    by (metis Suc_pred' length_greater_0_conv take_Suc_conv_app_nth take_all order_refl gr_implies_not0 list.size(3))
  with name_loop_eq [OF n, of "[?ps ! (length ?ps - 1)]"] show ?thesis by (simp add: query_name_def Let_def)
qed

text \<open>A date filter that has no clause yet adds one for a range with both ends, and none for a range that is open
  at an end, although the range has a start or an end to filter by.\<close>

theorem date_filter_clause:
  assumes "drp_parse now v = Some (s, e)" "s = Null \<or> truthy s" "e = Null \<or> truthy e"
  shows "dateFilterChange_handler now f v \<lparr> ri_uqid = None, ri_last = None \<rparr> q =
    (if s = Null \<or> e = Null then Inr (\<lparr> ri_uqid = None, ri_last = Some (s, e) \<rparr>, q)
     else res_bind (addClause (Obj [(''gte'', s), (''lte'', e)]) (Some f) (Some ''range'') (Some ''must'') q)
       (\<lambda>(u, q'). Inr (\<lparr> ri_uqid = Some u, ri_last = Some (s, e) \<rparr>, q')))"
  using assms by (auto simp: dateFilterChange_handler_def same_range_def remove_uqid_def js_and_def date_value_def)

theorem date_filter_clause_witness:
  "drp_parse 0 ''2011-03 ->'' = Some (Num 1298937600000, Null)
   \<and> dateFilterChange_handler 0 ''post_date'' ''2011-03 ->'' \<lparr> ri_uqid = None, ri_last = None \<rparr> (empty_query 50) =
       Inr (\<lparr> ri_uqid = None, ri_last = Some (Num 1298937600000, Null) \<rparr>, empty_query 50)"
proof -
  have p: "drp_parse 0 ''2011-03 ->'' = Some (Num 1298937600000, Null)" by code_simp
  from date_filter_clause [OF p, of "''post_date''" "empty_query 50"] p show ?thesis by simp
qed

section \<open>The templates of the query filter\<close>

definition helpTypeMap :: "string dict" where
  "helpTypeMap = [(''date'', ''QueryFilter.DateRangeHelp'')]"

definition aliasSelector_template :: "i18n \<Rightarrow> meta \<Rightarrow> jsval" where
  "aliasSelector_template tr m =
     tag_obj ''DIV'' [(''cls'', Str ''uiQueryFilter-section uiQueryFilter-aliases''), (''children'', Arr [
       tag_obj ''SELECT'' [(''onChange'', Fn ''_selectAlias_handler''),
         (''children'', Arr (map (\<lambda>n. option_template (Str n)) (tr ''QueryFilter.AllIndices'' [] # sort (keys (aliases m)))))]])]"

definition booble :: "string \<Rightarrow> string \<Rightarrow> jsval" where
  "booble kind n = tag_obj ''DIV'' [(''cls'', Str (''uiQueryFilter-booble uiQueryFilter-'' @ kind)), (''text'', Str n)]"

definition indexSelector_template :: "i18n \<Rightarrow> meta \<Rightarrow> jsval" where
  "indexSelector_template tr m =
     tag_obj ''DIV'' [(''cls'', Str ''uiQueryFilter-section uiQueryFilter-indices''), (''children'', Arr [
       tag_obj ''HEADER'' [(''text'', Str (tr ''QueryFilter-Header-Indices'' []))],
       tag_obj ''DIV'' [(''onClick'', Fn ''_selectIndex_handler''), (''children'', Arr (map (booble ''index'') (sort (indicesList m))))]])]"

definition typesSelector_template :: "i18n \<Rightarrow> meta \<Rightarrow> jsval" where
  "typesSelector_template tr m =
     tag_obj ''DIV'' [(''cls'', Str ''uiQueryFilter-section uiQueryFilter-types''), (''children'', Arr [
       tag_obj ''HEADER'' [(''text'', Str (tr ''QueryFilter-Header-Types'' []))],
       tag_obj ''DIV'' [(''onClick'', Fn ''_selectType_handler''), (''children'', Arr (map (booble ''type'') (sort (typesList m))))]])]"

text \<open>The fields with a core type, each with a section; its help is that of its type.\<close>

definition filter_fields :: "meta \<Rightarrow> (string \<times> string option) list" where
  "filter_fields m =
     map (\<lambda>n. (n, case map_of (all_fields m) n of
         Some i \<Rightarrow> (case f_type (heap m ! i) of Some ty \<Rightarrow> map_of helpTypeMap ty | None \<Rightarrow> None) | None \<Rightarrow> None))
       (filter (\<lambda>n. case map_of (all_fields m) n of Some i \<Rightarrow> core_type (heap m ! i) \<noteq> None | None \<Rightarrow> False) (sort (fieldsList m)))"

definition filters_template :: "i18n \<Rightarrow> (string \<Rightarrow> nat) \<Rightarrow> meta \<Rightarrow> jsval" where
  "filters_template tr ids m =
     tag_obj ''DIV'' [(''cls'', Str ''uiQueryFilter-section uiQueryFilter-filters''), (''children'', Arr [
       tag_obj ''HEADER'' [(''text'', Str (tr ''QueryFilter-Header-Fields'' []))],
       tag_obj ''DIV'' [(''children'', Arr (map (\<lambda>(n, help). Widget (ids n)) (filter_fields m)))]])]"

definition queryFilter_template :: "i18n \<Rightarrow> (string \<Rightarrow> nat) \<Rightarrow> jsval \<Rightarrow> meta \<Rightarrow> jsval" where
  "queryFilter_template tr ids wid m =
     tag_obj ''DIV'' [(''id'', wid), (''cls'', Str ''uiQueryFilter''), (''children'', Arr [
       aliasSelector_template tr m, indexSelector_template tr m, typesSelector_template tr m, filters_template tr ids m])]"

definition textFilter_template :: "jsval \<Rightarrow> jsval" where
  "textFilter_template spec = tag_obj ''INPUT'' [(''data'', Obj [(''spec'', spec)]), (''onKeyup'', Fn ''_textFilterChange_handler'')]"

definition dateFilter_template :: "i18n \<Rightarrow> jsval \<Rightarrow> jsval" where
  "dateFilter_template tr spec =
     tag_obj ''DIV'' [(''children'', Arr [
       tag_obj ''INPUT'' [(''data'', Obj [(''spec'', spec)]), (''onKeyup'', Fn ''_dateFilterChange_handler'')],
       tag_obj ''PRE'' [(''cls'', Str ''uiQueryFilter-rangeHintFrom''), (''text'', Str (tr ''QueryFilter.DateRangeHint.from'' [[]]))],
       tag_obj ''PRE'' [(''cls'', Str ''uiQueryFilter-rangeHintTo''), (''text'', Str (tr ''QueryFilter.DateRangeHint.to'' [[]]))]])]"

definition numericFilter_template :: "jsval \<Rightarrow> jsval" where
  "numericFilter_template spec = tag_obj ''INPUT'' [(''data'', Obj [(''spec'', spec)]), (''onKeyup'', Fn ''_numericFilterChange_handler'')]"

definition booleanFilter_template :: "i18n \<Rightarrow> jsval \<Rightarrow> jsval" where
  "booleanFilter_template tr spec =
     tag_obj ''SELECT'' [(''data'', Obj [(''spec'', spec)]), (''onChange'', Fn ''_booleanFilterChange_handler''),
       (''children'', Arr (map (\<lambda>v. tag_obj ''OPTION'' [(''value'', Str v), (''text'', Str v)])
         [tr ''QueryFilter.AnyValue'' [], ''true'', ''false'']))]"

text \<open>What opening the section of a field shows the first time; a field of another type shows nothing.\<close>

definition openFilter :: "i18n \<Rightarrow> nat \<Rightarrow> jsval \<Rightarrow> jsval \<Rightarrow> string option \<Rightarrow> jsval list" where
  "openFilter tr histogram multi spec core =
     (case core of
        None \<Rightarrow> []
      | Some c \<Rightarrow>
          if c = ''string'' then [textFilter_template spec]
          else if c = ''date'' then [dateFilter_template tr spec, Widget histogram]
          else if c = ''number'' then [numericFilter_template spec]
          else if c = ''boolean'' then [booleanFilter_template tr spec]
          else if c = ''multi_field'' then [multi]
          else [])"

section \<open>The filter browser\<close>

text \<open>A mapping: with properties, with the fields of a multi field, or with neither.\<close>

datatype spec = Spec (sp_type: "string option") (sp_properties: "(string \<times> spec) list option") (sp_subfields: "(string \<times> string option) list option")

record filter_spec =
  fl_path :: "string list"
  fl_type :: "string option"

fun scan_properties :: "string list \<Rightarrow> spec \<Rightarrow> filter_spec list" where
  "scan_properties path (Spec ty (Some ps) fs) = concat (map (\<lambda>(k, sp). scan_properties (path @ [k]) sp) ps)"
| "scan_properties path (Spec ty None (Some fs)) =
     map (\<lambda>(k, t). \<lparr> fl_path = (if last path \<noteq> k then path @ [k] else path), fl_type = t \<rparr>) fs"
| "scan_properties path (Spec ty None None) = [\<lparr> fl_path = path, fl_type = ty \<rparr>]"

definition createFilters :: "(string \<times> spec) list option \<Rightarrow> filter_spec list" where
  "createFilters mappings =
     (let found = (case mappings of None \<Rightarrow> [] | Some ms \<Rightarrow> concat (map (\<lambda>(type, sp). scan_properties [type] sp) ms))
      in [\<lparr> fl_path = [''match_all''], fl_type = Some ''match_all'' \<rparr>, \<lparr> fl_path = [''_all''], fl_type = Some ''_all'' \<rparr>]
         @ sort_key (\<lambda>f. join ''.'' (fl_path f)) found)"

text \<open>The operators that a type of field offers.\<close>

definition filter_ops :: "string option \<Rightarrow> string list" where
  "filter_ops ty =
     (case ty of
        None \<Rightarrow> []
      | Some t \<Rightarrow>
          if t = ''match_all'' then []
          else if t = ''_all'' then [''query_string'']
          else if t \<in> {''string'', ''text'', ''keyword''}
            then [''term'', ''wildcard'', ''prefix'', ''fuzzy'', ''range'', ''query_string'', ''text'', ''missing'']
          else if t \<in> {''long'', ''integer'', ''float'', ''byte'', ''short'', ''double''}
            then [''term'', ''range'', ''fuzzy'', ''query_string'', ''missing'']
          else if t = ''date'' then [''term'', ''range'', ''fuzzy'', ''query_string'', ''missing'']
          else if t = ''geo_point'' then [''missing'']
          else if t = ''ip'' then [''term'', ''range'', ''fuzzy'', ''query_string'', ''missing'']
          else if t = ''boolean'' then [''term'']
          else [])"

text \<open>A row: its choices, and its texts, of which the operator decides which are there.\<close>

record filter_row =
  fr_bool :: string
  fr_field :: string
  fr_op :: "string option"
  fr_qual :: string
  fr_lowop :: string
  fr_lowqual :: string
  fr_highop :: string
  fr_highqual :: string
  fr_fuzzyop :: string
  fr_fuzzyqual :: string

definition new_row :: filter_row where
  "new_row = \<lparr> fr_bool = ''must'', fr_field = ''match_all'', fr_op = None, fr_qual = [], fr_lowop = ''gt'', fr_lowqual = [],
     fr_highop = ''lt'', fr_highqual = [], fr_fuzzyop = ''max_expansions'', fr_fuzzyqual = [] \<rparr>"

definition changeQueryOp :: "string option \<Rightarrow> filter_row \<Rightarrow> filter_row" where
  "changeQueryOp op r =
     r\<lparr> fr_op := op, fr_qual := [], fr_lowop := ''gt'', fr_lowqual := [], fr_highop := ''lt'', fr_highqual := [],
        fr_fuzzyop := ''max_expansions'', fr_fuzzyqual := [] \<rparr>"

definition changeQueryField :: "filter_spec \<Rightarrow> filter_row \<Rightarrow> filter_row" where
  "changeQueryField f r =
     (let ops = filter_ops (fl_type f)
      in changeQueryOp (case ops of [] \<Rightarrow> None | op # _ \<Rightarrow> Some op) (r\<lparr> fr_field := join ''.'' (fl_path f) \<rparr>))"

definition addFilterRow :: "filter_row list \<Rightarrow> filter_row list" where
  "addFilterRow rows = rows @ [new_row]"

definition removeFilterRow :: "nat \<Rightarrow> filter_row list \<Rightarrow> filter_row list" where
  "removeFilterRow i rows = (let rest = splice1 i rows in if rest = [] then addFilterRow rest else rest)"

text \<open>The input is there for five operators only; without it its value is \<open>undefined\<close>.\<close>

definition has_qual :: "string option \<Rightarrow> bool" where
  "has_qual op \<longleftrightarrow> (case op of None \<Rightarrow> False | Some p \<Rightarrow> p \<in> {''term'', ''wildcard'', ''prefix'', ''query_string'', ''text''})"

definition row_value :: "filter_row \<Rightarrow> jsval" where
  "row_value r =
     (if fr_field r = ''match_all'' then Obj []
      else if fr_op r = Some ''range'' then
        Obj ((if fr_lowqual r \<noteq> [] then [(fr_lowop r, Str (fr_lowqual r))] else []) @
             (if fr_highqual r \<noteq> [] then [(fr_highop r, Str (fr_highqual r))] else []))
      else if fr_op r = Some ''fuzzy'' then
        Obj ((if fr_qual r \<noteq> [] then [(''value'', Str (fr_qual r))] else []) @
             (if fr_fuzzyqual r \<noteq> [] then [(fr_fuzzyop r, Str (fr_fuzzyqual r))] else []))
      else if has_qual (fr_op r) then Str (fr_qual r)
      else Undef)"

definition row_op :: "filter_row \<Rightarrow> string option" where
  "row_op r = (if fr_field r = ''match_all'' then Some ''match_all'' else fr_op r)"

definition add_row :: "filter_row \<Rightarrow> builder \<Rightarrow> builder res" where
  "add_row r s = res_bind (bq_addClause (row_value r) (Some (fr_field r)) (row_op r) (Some (fr_bool r)) s) (\<lambda>(u, s'). Inr s')"

fun add_rows :: "filter_row list \<Rightarrow> builder \<Rightarrow> builder res" where
  "add_rows [] s = Inr s"
| "add_rows (r # rs) s = res_bind (add_row r s) (add_rows rs)"

definition search_handler :: "string \<Rightarrow> filter_row list \<Rightarrow> builder res" where
  "search_handler outputSize rows = res_bind (bq_init 50) (\<lambda>s. add_rows rows (bq_setSize outputSize s))"

section \<open>The search of the filter browser\<close>

definition clause_body :: "filter_row \<Rightarrow> jsval" where
  "clause_body r =
     (let op = dflt (row_op r) ''match_all''; field = after_dot (dflt (Some (fr_field r)) ''_all'')
      in if op = ''match_all'' then Obj [(op, Obj [])]
         else if op = ''query_string'' then Obj [(op, Obj [(''default_field'', Str field), (''query'', row_value r)])]
         else if op = ''missing'' then Obj [(''exists'', Obj [(''field'', Str field)])]
         else Obj [(op, Obj [(field, row_value r)])])"

text \<open>Where a row goes: a missing field is always asked for by negation.\<close>

definition row_slot :: "filter_row \<Rightarrow> string" where
  "row_slot r = (if row_op r = Some ''missing'' then ''must_not'' else fr_bool r)"

definition in_slot :: "string \<Rightarrow> filter_row list \<Rightarrow> jsval list" where
  "in_slot b rows = map clause_body (filter (\<lambda>r. row_slot r = b) rows)"

definition valid_row :: "filter_row \<Rightarrow> bool" where
  "valid_row r \<longleftrightarrow> fr_bool r \<in> {''must'', ''must_not'', ''should''}"

text \<open>The default clause is the first of \<open>should\<close> as long as there is no other clause under must or should.\<close>

definition search_inv :: "clause \<Rightarrow> filter_row list \<Rightarrow> builder \<Rightarrow> bool" where
  "search_inv c0 rows s \<longleftrightarrow>
     (\<exists>m v f o' rest. m < refuid s \<and> defaultClause s = Some (q_id m)
        \<and> map_of (refmap s) (q_id m) = Some (Clause_ref c0 v f o' ''should'') \<and> cid c0 < next_cid s
        \<and> should (search s) = (if must (search s) = [] \<and> rest = [] then [c0] else []) @ rest
        \<and> cid c0 \<notin> cid ` set rest \<and> map body rest = in_slot ''should'' rows
        \<and> map body (must (search s)) = in_slot ''must'' rows \<and> map body (must_not (search s)) = in_slot ''must_not'' rows)"

lemma bq_setClause_row:
  "bq_setClause (row_value r) (dflt (Some (fr_field r)) ''_all'') (dflt (row_op r) ''match_all'') b s =
   push_clause (if row_op r = Some ''missing'' then ''must_not'' else b) (clause_body r) s"
  by (auto simp: bq_setClause_def clause_body_def Let_def dflt_def split: option.split)

lemma in_slot_snoc: "in_slot b (rows @ [r]) = in_slot b rows @ (if row_slot r = b then [clause_body r] else [])"
  by (simp add: in_slot_def)

lemma find_index_cid: "k \<notin> cid ` set l \<Longrightarrow> find_index (\<lambda>c'. cid c' = k) l = None"
  by (auto simp: find_index_None)

lemma add_row_inv:
  assumes inv: "search_inv c0 rows s" and r: "valid_row r"
  shows "\<exists>s'. add_row r s = Inr s' \<and> search_inv c0 (rows @ [r]) s' \<and> page_size (search s') = page_size (search s)"
proof -
  obtain m v f o' rest where s: "m < refuid s" "defaultClause s = Some (q_id m)"
    "map_of (refmap s) (q_id m) = Some (Clause_ref c0 v f o' ''should'')" "cid c0 < next_cid s"
    "should (search s) = (if must (search s) = [] \<and> rest = [] then [c0] else []) @ rest"
    "cid c0 \<notin> cid ` set rest" "map body rest = in_slot ''should'' rows"
    "map body (must (search s)) = in_slot ''must'' rows" "map body (must_not (search s)) = in_slot ''must_not'' rows"
    using inv unfolding search_inv_def by blast
  have b: "dflt (Some (fr_bool r)) ''should'' = fr_bool r" using r by (auto simp: valid_row_def dflt_def)
  have slot: "(if row_op r = Some ''missing'' then ''must_not'' else fr_bool r) = row_slot r" by (simp add: row_slot_def)
  let ?c = "\<lparr> cid = next_cid s, body = clause_body r \<rparr>"
  consider "row_slot r = ''must''" | "row_slot r = ''must_not''" | "row_slot r = ''should''"
    using r by (cases "row_op r = Some ''missing''") (auto simp: row_slot_def valid_row_def)
  then show ?thesis
  proof cases
    case 1
    then show ?thesis using s
      by (auto simp: add_row_def bq_addClause_def b bq_setClause_row slot push_clause_def get_bool_def set_bool_def
          new_ref_def positive_count_def bq_removeClause_def Let_def log_def search_inv_def in_slot_snoc find_index_cid)
  next
    case 2
    then show ?thesis using s
      by (auto simp: add_row_def bq_addClause_def b bq_setClause_row slot push_clause_def get_bool_def set_bool_def
          new_ref_def positive_count_def bq_removeClause_def Let_def log_def search_inv_def in_slot_snoc find_index_cid)
  next
    case 3
    then show ?thesis using s
      by (auto simp: add_row_def bq_addClause_def b bq_setClause_row slot push_clause_def get_bool_def set_bool_def
          new_ref_def positive_count_def bq_removeClause_def Let_def log_def search_inv_def in_slot_snoc find_index_cid)
        (rule exI [of _ "should (search s) @ [?c]"], force)
  qed
qed

lemma add_rows_inv:
  "search_inv c0 done s \<Longrightarrow> list_all valid_row rows \<Longrightarrow>
   \<exists>s'. add_rows rows s = Inr s' \<and> search_inv c0 (done @ rows) s' \<and> page_size (search s') = page_size (search s)"
proof (induction rows arbitrary: "done" s)
  case (Cons r rows)
  obtain s1 where s1: "add_row r s = Inr s1" "search_inv c0 (done @ [r]) s1" "page_size (search s1) = page_size (search s)"
    using add_row_inv [OF Cons.prems(1), of r] Cons.prems(2) by auto
  from Cons.IH [OF s1(2)] Cons.prems(2) s1(1,3) show ?case by auto
qed simp

lemma search_start:
  "\<exists>s c0. bq_init 50 = Inr s \<and> search_inv c0 [] (bq_setSize sz s) \<and> body c0 = Obj [(''match_all'', Obj [])]"
  by (auto simp: bq_init_def bq_addClause_def bq_setClause_def push_clause_def dflt_def empty_builder_def empty_search_def
      get_bool_def set_bool_def new_ref_def log_def positive_count_def Let_def bq_setSize_def search_inv_def in_slot_def
      intro!: exI [of _ 0])

text \<open>C6: The search that the filter browser sends has one clause for each row, in the order of the rows, under must,
  must_not or should as the row says, a missing field always under must_not; and it matches all documents only when no
  row asks for anything under must or should.\<close>

theorem search_of_rows:
  assumes "list_all valid_row rows"
  shows "\<exists>s. search_handler sz rows = Inr s \<and> page_size (search s) = parseInt sz
    \<and> bodies (search s) = (in_slot ''must'' rows, in_slot ''must_not'' rows,
        (if in_slot ''must'' rows = [] \<and> in_slot ''should'' rows = [] then [Obj [(''match_all'', Obj [])]] else []) @ in_slot ''should'' rows)"
proof -
  obtain s c0 where s: "bq_init 50 = Inr s" "search_inv c0 [] (bq_setSize sz s)" "body c0 = Obj [(''match_all'', Obj [])]"
    using search_start [of sz] by blast
  obtain s' where s': "add_rows rows (bq_setSize sz s) = Inr s'" "search_inv c0 rows s'"
    "page_size (search s') = page_size (search (bq_setSize sz s))"
    using add_rows_inv [OF s(2) assms] by auto
  obtain rest where r: "should (search s') = (if must (search s') = [] \<and> rest = [] then [c0] else []) @ rest"
    "map body rest = in_slot ''should'' rows" "map body (must (search s')) = in_slot ''must'' rows"
    "map body (must_not (search s')) = in_slot ''must_not'' rows"
    using s'(2) unfolding search_inv_def by blast
  have "must (search s') = [] \<longleftrightarrow> in_slot ''must'' rows = []" "rest = [] \<longleftrightarrow> in_slot ''should'' rows = []"
    using r(2,3) by (metis map_is_Nil_conv)+
  then have "bodies (search s') = (in_slot ''must'' rows, in_slot ''must_not'' rows,
      (if in_slot ''must'' rows = [] \<and> in_slot ''should'' rows = [] then [Obj [(''match_all'', Obj [])]] else []) @ in_slot ''should'' rows)"
    using r s(3) by (simp add: bodies_def)
  moreover have "search_handler sz rows = Inr s'" using s(1) s'(1) by (simp add: search_handler_def)
  moreover have "page_size (search s') = parseInt sz" using s'(3) by (simp add: bq_setSize_def)
  ultimately show ?thesis by blast
qed

definition sample_rows :: "filter_row list" where
  "sample_rows =
     [new_row\<lparr> fr_bool := ''must_not'', fr_field := ''tweet.user'', fr_op := Some ''term'', fr_qual := ''kimchy'' \<rparr>,
      new_row\<lparr> fr_field := ''tweet.date'', fr_op := Some ''range'', fr_lowop := ''gte'', fr_lowqual := ''2011'' \<rparr>]"

theorem search_of_rows_witness:
  "\<exists>s. search_handler ''10'' sample_rows = Inr s
    \<and> bodies (search s) = ([Obj [(''range'', Obj [(''date'', Obj [(''gte'', Str ''2011'')])])]], [Obj [(''term'', Obj [(''user'', Str ''kimchy'')])]], [])"
proof -
  have "list_all valid_row sample_rows" by code_simp
  moreover have "in_slot ''must'' sample_rows = [Obj [(''range'', Obj [(''date'', Obj [(''gte'', Str ''2011'')])])]]"
    "in_slot ''must_not'' sample_rows = [Obj [(''term'', Obj [(''user'', Str ''kimchy'')])]]" "in_slot ''should'' sample_rows = []"
    by code_simp+
  ultimately show ?thesis using search_of_rows [of sample_rows "''10''"] by auto
qed

section \<open>The templates of the filter browser\<close>

definition select_of :: "string \<Rightarrow> string list \<Rightarrow> jsval" where
  "select_of c opts = tag_obj ''SELECT'' [(''cls'', Str c), (''children'', Arr (map (\<lambda>x. option_template (Str x)) opts))]"

definition range_template :: jsval where
  "range_template =
     tag_obj ''SPAN'' [(''cls'', Str ''range''), (''children'', Arr [
       select_of ''lowop'' [''gt'', ''gte''],
       tag_obj ''INPUT'' [(''type'', Str ''text''), (''cls'', Str ''lowqual'')],
       select_of ''highop'' [''lt'', ''lte''],
       tag_obj ''INPUT'' [(''type'', Str ''text''), (''cls'', Str ''highqual'')]])]"

definition fuzzy_template :: jsval where
  "fuzzy_template =
     tag_obj ''SPAN'' [(''cls'', Str ''fuzzy''), (''children'', Arr [
       tag_obj ''INPUT'' [(''cls'', Str ''qual''), (''type'', Str ''text'')],
       select_of ''fuzzyop'' [''max_expansions'', ''min_similarity''],
       tag_obj ''INPUT'' [(''cls'', Str ''fuzzyqual''), (''type'', Str ''text'')]])]"

text \<open>What follows the choice of an operator.\<close>

definition op_inputs :: "string option \<Rightarrow> jsval list" where
  "op_inputs op =
     (if has_qual op then [tag_obj ''INPUT'' [(''cls'', Str ''qual''), (''type'', Str ''text'')]]
      else if op = Some ''range'' then [range_template]
      else if op = Some ''fuzzy'' then [fuzzy_template]
      else [])"

definition filter_template :: "filter_spec list \<Rightarrow> jsval" where
  "filter_template fs =
     tag_obj ''DIV'' [(''cls'', Str ''uiFilterBrowser-row''), (''children'', Arr [
       select_of ''bool'' [''must'', ''must_not'', ''should''],
       tag_obj ''SELECT'' [(''cls'', Str ''field''), (''onchange'', Fn ''_changeQueryField_handler''),
         (''children'', Arr (map (\<lambda>f. let p = join ''.'' (fl_path f) in
            tag_obj ''OPTION'' [(''value'', Str p), (''text'', Str p)]) fs))],
       tag_obj ''BUTTON'' [(''type'', Str ''button''), (''text'', Str ''+''), (''onclick'', Fn ''_addFilterRow_handler'')],
       tag_obj ''BUTTON'' [(''type'', Str ''button''), (''text'', Str ''-''), (''onclick'', Fn ''_removeFilterRow_handler'')]])]"

text \<open>\<open>complex\<close> is \<open>i18n.complex\<close>: the parts of a message around an element.\<close>

definition filterBrowser_template :: "i18n \<Rightarrow> (string \<Rightarrow> jsval \<Rightarrow> jsval list) \<Rightarrow> jsval" where
  "filterBrowser_template tr complex =
     tag_obj ''DIV'' [(''children'', Arr [
       tag_obj ''DIV'' [(''cls'', Str ''uiFilterBrowser-filters'')],
       tag_obj ''BUTTON'' [(''type'', Str ''button''), (''text'', Str (tr ''General.Search'' [])), (''onclick'', Fn ''_search_handler'')],
       tag_obj ''LABEL'' [(''children'', Arr (complex ''FilterBrowser.OutputType''
         (tag_obj ''SELECT'' [(''cls'', Str ''uiFilterBrowser-outputFormat''), (''children'', Arr (map (\<lambda>(k, v).
            tag_obj ''OPTION'' [(''text'', Str (tr k [])), (''value'', Str v)])
            [(''Output.Table'', ''table''), (''Output.JSON'', ''json''), (''Output.CSV'', ''csv'')]))])))],
       tag_obj ''LABEL'' [(''children'', Arr (complex ''FilterBrowser.OutputSize''
         (select_of ''uiFilterBrowser-outputSize'' [''10'', ''50'', ''250'', ''1000'', ''5000'', ''25000''])))],
       tag_obj ''LABEL'' [(''children'', Arr [
         tag_obj ''INPUT'' [(''type'', Str ''checkbox''), (''cls'', Str ''uiFilterBrowser-showSrc'')], Str (tr ''Output.ShowSource'' [])])]])]"

text \<open>The index selector: the options in the order of the names, and the index that the select then has.\<close>

definition selector_option :: "i18n \<Rightarrow> string \<times> jsval \<Rightarrow> jsval" where
  "selector_option tr e =
     tag_obj ''OPTION'' [(''value'', Str (fst e)), (''text'', Str (tr ''IndexSelector.NameWithDocs'' [fst e, to_string (snd e)]))]"

text \<open>\<open>docs\<close> gives the document count of each index of the answer.\<close>

definition selector_update :: "i18n \<Rightarrow> jsval dict \<Rightarrow> jsval \<times> jsval" where
  "selector_update tr docs =
     (let names = sort (keys docs)
      in (tag_obj ''SELECT'' [(''children'', Arr (map (\<lambda>n. selector_option tr (n, dget docs n)) names)), (''onChange'', Fn ''_indexChanged_handler'')],
          case names of [] \<Rightarrow> Null | n # _ \<Rightarrow> Str n))"

definition indexSelector_main :: "(string \<Rightarrow> jsval \<Rightarrow> jsval list) \<Rightarrow> jsval" where
  "indexSelector_main complex =
     tag_obj ''DIV'' [(''cls'', Str ''uiIndexSelector''), (''children'', Arr (complex ''IndexSelector.SearchIndexForDocs''
       (tag_obj ''SPAN'' [(''cls'', Str ''uiIndexSelector-select'')])))]"

end
