(* ===== verification/Request.thy ===== *)
theory Request
  imports NodesView
begin

text \<open>
  Sending any request, \<^verbatim>\<open>ui/anyRequest/anyRequest.js\<close>: the form and its history, the
  check of the JSON text, and what is done with an answer. \<open>JSON.parse\<close> (with the message of what it
  throws), the transformer that the user writes, and the table of results are arguments.
\<close>

section \<open>The form and its history\<close>

record history_item =
  hi_path :: string
  hi_type :: string
  hi_query :: string
  hi_transform :: string

datatype answer_view = Graph jsval | Table_of jsval | Json_of jsval

record request_page =
  rp_base :: string
  rp_form :: history_item
  rp_pretty :: bool
  rp_asGraph :: bool
  rp_asTable :: bool
  rp_asJson :: bool
  rp_cron :: int
  rp_history :: "history_item list"
  rp_timer :: bool
  rp_prev :: "jsval option"
  rp_err :: string
  rp_out :: "answer_view list"
  rp_sent :: "ajax list"
  rp_prefs :: "jsval dict"

text \<open>\<open>JSON.stringify(j, null, "  ")\<close>.\<close>

definition spaces :: "nat \<Rightarrow> string" where
  "spaces n = replicate (2 * n) (CHR '' '')"

definition newline :: string where
  "newline = [CHR 0x0A]"

function indented :: "nat \<Rightarrow> jsval \<Rightarrow> string"
  and indented_members :: "nat \<Rightarrow> obj \<Rightarrow> string list" where
  "indented n v =
     (case v of
        Arr vs \<Rightarrow> if vs = [] then ''[]''
          else ''['' @ newline @ join ('','' @ newline) (map (\<lambda>w. spaces (Suc n) @ indented (Suc n) w) vs) @ newline @ spaces n @ '']''
      | Obj fs \<Rightarrow> if fs = [] then ''{}''
          else ''{'' @ newline @ join ('','' @ newline) (indented_members (Suc n) fs) @ newline @ spaces n @ ''}''
      | _ \<Rightarrow> compact_text v)"
| "indented_members n [] = []"
| "indented_members n ((k, v) # fs) = (spaces n @ json_quote k @ '': '' @ indented n v) # indented_members n fs"
  by pat_completeness auto
termination
  by (relation "measures [\<lambda>x. case x of Inl (_, v) \<Rightarrow> size v | Inr (_, fs) \<Rightarrow> size_list (size_prod (\<lambda>_. 0) size) fs,
                          \<lambda>x. case x of Inl _ \<Rightarrow> 0 | Inr _ \<Rightarrow> 1]")
    (auto simp: less_Suc_eq_le size_list_estimation')

type_synonym json_parser = "string \<Rightarrow> string + jsval"

text \<open>An empty body becomes an empty object; a body that does not parse stops the request with a message.\<close>

definition validateJson_handler :: "json_parser \<Rightarrow> request_page \<Rightarrow> bool \<times> request_page" where
  "validateJson_handler parse p =
     (let text = trim (hi_query (rp_form p));
          p1 = (if text = [] then p\<lparr> rp_form := (rp_form p)\<lparr> hi_query := ''{}'' \<rparr> \<rparr> else p);
          text1 = (if text = [] then ''{}'' else text)
      in case parse text1 of
           Inl msg \<Rightarrow> (False, p1\<lparr> rp_err := msg \<rparr>)
         | Inr j \<Rightarrow>
             let p2 = p1\<lparr> rp_err := [] \<rparr>
             in (True, if rp_pretty p then p2\<lparr> rp_form := (rp_form p2)\<lparr> hi_query := indented 0 (json_value j) \<rparr> \<rparr> else p2))"

definition setHistoryItem :: "history_item \<Rightarrow> request_page \<Rightarrow> request_page" where
  "setHistoryItem item p = p\<lparr> rp_form := item \<rparr>"

text \<open>The loop that takes an equal item out, going on at the next position: the one after it is passed over.\<close>

fun splice_equal :: "history_item \<Rightarrow> history_item list \<Rightarrow> history_item list" where
  "splice_equal x [] = []"
| "splice_equal x [h] = (if h = x then [] else [h])"
| "splice_equal x (h # h' # hs) = (if h = x then h' # splice_equal x hs else h # splice_equal x (h' # hs))"

text \<open>\<open>this.history.slice(250)\<close> returns a part of the history and changes nothing.\<close>

definition remember :: "history_item \<Rightarrow> history_item list \<Rightarrow> history_item list" where
  "remember x h = (let h1 = splice_equal x h @ [x]; unused = List.drop 250 h1 in h1)"

definition item_json :: "history_item \<Rightarrow> jsval" where
  "item_json x = Obj [(''path'', Str (hi_path x)), (''type'', Str (hi_type x)), (''query'', Str (hi_query x)), (''transform'', Str (hi_transform x))]"

definition ends_with_slash :: "string \<Rightarrow> bool" where
  "ends_with_slash s \<longleftrightarrow> s \<noteq> [] \<and> last s = CHR ''/''"

text \<open>\<open>user\<close>: the button was pressed; otherwise the timer asks again, which leaves the history alone.\<close>

definition request_handler :: "json_parser \<Rightarrow> bool \<Rightarrow> bool \<Rightarrow> request_page \<Rightarrow> request_page res" where
  "request_handler parse room user p0 =
     (case validateJson_handler parse p0 of
        (False, p) \<Rightarrow> Inr p
      | (True, p) \<Rightarrow>
          (case parse (hi_query (rp_form p)) of
             Inl msg \<Rightarrow> Inl (Thrown msg)
           | Inr v \<Rightarrow>
               let item = (rp_form p)\<lparr> hi_query := stringify v \<rparr>;
                   base = (if user \<and> \<not> ends_with_slash (rp_base p) then rp_base p @ ''/'' else rp_base p);
                   p1 = (if user
                         then let h = remember item (rp_history p)
                              in p\<lparr> rp_timer := False, rp_prev := None, rp_base := base, rp_out := [], rp_history := h,
                                    rp_prefs := prefs_set room ''anyRequest-history'' (Arr (map item_json h)) (rp_prefs p) \<rparr>
                         else p)
               in Inr (p1\<lparr> rp_sent := rp_sent p1 @ [\<lparr> rq_type = hi_type item, rq_url = base @ hi_path item,
                     rq_data = (if hi_type item = ''GET'' then None else Some (hi_query item)) \<rparr>] \<rparr>)))"

text \<open>A transformer that throws stops here: no output, no repetition.\<close>

definition responseWriter_handler :: "(string \<Rightarrow> jsval \<Rightarrow> jsval option \<Rightarrow> string + jsval) \<Rightarrow> (jsval \<Rightarrow> string option) \<Rightarrow> jsval \<Rightarrow> request_page \<Rightarrow> request_page" where
  "responseWriter_handler transform table_error d p0 =
     (let p = p0\<lparr> rp_out := [] \<rparr>
      in case transform (hi_transform (rp_form p)) d (rp_prev p) of
           Inl msg \<Rightarrow> p\<lparr> rp_err := msg \<rparr>
         | Inr v \<Rightarrow>
             let p1 = (if rp_asGraph p then p\<lparr> rp_out := rp_out p @ [Graph v] \<rparr> else p);
                 p2 = (if rp_asTable p1
                       then (let q = p1\<lparr> rp_out := rp_out p1 @ [Table_of v] \<rparr>
                             in case table_error v of None \<Rightarrow> q | Some msg \<Rightarrow> q\<lparr> rp_err := ''Results Table Failed: '' @ msg \<rparr>)
                       else p1);
                 p3 = (if rp_asJson p2 then p2\<lparr> rp_out := rp_out p2 @ [Json_of v] \<rparr> else p2)
             in p3\<lparr> rp_timer := (if rp_cron p3 > 0 then True else rp_timer p3), rp_prev := Some v \<rparr>)"

definition responseError_handler :: "json_parser \<Rightarrow> (string \<Rightarrow> jsval \<Rightarrow> jsval option \<Rightarrow> string + jsval) \<Rightarrow> (jsval \<Rightarrow> string option) \<Rightarrow> string \<Rightarrow> request_page \<Rightarrow> request_page" where
  "responseError_handler parse transform table_error responseText p =
     (case parse responseText of
        Inl _ \<Rightarrow> p
      | Inr v \<Rightarrow> if truthy v then responseWriter_handler transform table_error v p else p)"

text \<open>A new page starts from the last item of the history that is kept, or from one match-all request.\<close>

definition default_item :: history_item where
  "default_item = \<lparr> hi_path = ''_search'', hi_type = ''POST'',
     hi_query = stringify (Obj [(''query'', Obj [(''match_all'', Obj [])])]), hi_transform = ''  return root;'' \<rparr>"

definition item_of_json :: "jsval \<Rightarrow> history_item" where
  "item_of_json v =
     (case v of
        Obj fs \<Rightarrow> \<lparr> hi_path = to_string (dget fs ''path''), hi_type = to_string (dget fs ''type''),
                    hi_query = to_string (dget fs ''query''), hi_transform = to_string (dget fs ''transform'') \<rparr>
      | _ \<Rightarrow> \<lparr> hi_path = [], hi_type = [], hi_query = [], hi_transform = [] \<rparr>)"

definition kept_history :: "jsval dict \<Rightarrow> history_item list" where
  "kept_history prefs =
     (case prefs_get ''anyRequest-history'' prefs of Arr items \<Rightarrow> map item_of_json items | _ \<Rightarrow> [default_item])"

definition request_init :: "string \<Rightarrow> jsval dict \<Rightarrow> request_page res" where
  "request_init base prefs =
     (let h = kept_history prefs
      in if h = [] then Inl TypeError
         else Inr (setHistoryItem (last h)
           \<lparr> rp_base = base, rp_form = default_item\<lparr> hi_type := ''GET'' \<rparr>, rp_pretty = False, rp_asGraph = False, rp_asTable = False,
             rp_asJson = True, rp_cron = 0, rp_history = h, rp_timer = False, rp_prev = None, rp_err = [], rp_out = [],
             rp_sent = [], rp_prefs = prefs \<rparr>))"

text \<open>A click in the history: the item of the nearest entry of the list, if the click hit one.\<close>

definition historyClick_handler :: "history_item option \<Rightarrow> request_page \<Rightarrow> request_page res" where
  "historyClick_handler item p = (case item of None \<Rightarrow> Inl TypeError | Some x \<Rightarrow> Inr (setHistoryItem x p))"

section \<open>What the history keeps\<close>

lemma splice_equal_distinct: "distinct h \<Longrightarrow> splice_equal x h = filter (\<lambda>y. y \<noteq> x) h"
proof (induction x h rule: splice_equal.induct)
  case (3 x h h' hs)
  show ?case
  proof (cases "h = x")
    case True
    with 3(3) have "x \<notin> set hs" "h' \<noteq> x" by auto
    moreover have "splice_equal x hs = filter (\<lambda>y. y \<noteq> x) hs" using 3(1) [OF True] 3(3) by simp
    ultimately show ?thesis using True by simp
  next
    case False
    then show ?thesis using 3(2) [OF False] 3(3) by simp
  qed
qed auto

lemma length_filter_other: "distinct h \<Longrightarrow> x \<in> set h \<Longrightarrow> Suc (length (filter (\<lambda>y. y \<noteq> x) h)) = length h"
proof (induction h)
  case (Cons y h)
  then show ?case by (cases "y = x") (auto intro!: arg_cong [where f = length] filter_True)
qed simp

lemma json_value_item [simp]: "json_value (item_json x) = item_json x"
  by (simp add: item_json_def)

lemma item_json_defined [simp]: "item_json x \<noteq> Undef"
  by (simp add: item_json_def)

lemma item_of_item_json [simp]: "item_of_json (item_json x) = x"
  by (simp add: item_of_json_def item_json_def)

lemma kept_history_set: "kept_history (prefs_set True ''anyRequest-history'' (Arr (map item_json l)) st) = l"
  by (simp add: kept_history_def prefs_get_def prefs_set_def setItem_def getItem_def o_def)

text \<open>C10: When a request is sent by the user, an equal one is taken out of a history without repetitions, the new one
  comes last, and the others keep their order; a new page finds the same history in the storage and starts from this
  request. The history is never shortened: one more than 250 entries is kept like any other.\<close>

theorem request_remembered:
  assumes "request_handler parse True True p = Inr p'" "fst (validateJson_handler parse p)" "distinct (rp_history p)"
  shows "distinct (rp_history p') \<and> kept_history (rp_prefs p') = rp_history p'
    \<and> (\<exists>item. rp_history p' = filter (\<lambda>y. y \<noteq> item) (rp_history p) @ [item]
    \<and> hi_path item = hi_path (rp_form p) \<and> hi_type item = hi_type (rp_form p) \<and> hi_transform item = hi_transform (rp_form p)
    \<and> map_option rp_form (case request_init (rp_base p') (rp_prefs p') of Inr q \<Rightarrow> Some q | Inl _ \<Rightarrow> None) = Some item
    \<and> length (rp_history p') = length (rp_history p) + (if item \<in> set (rp_history p) then 0 else 1))"
proof -
  obtain q where q: "validateJson_handler parse p = (True, q)" using assms(2) by (cases "validateJson_handler parse p") auto
  then have form: "rp_history q = rp_history p" "hi_path (rp_form q) = hi_path (rp_form p)" "hi_type (rp_form q) = hi_type (rp_form p)"
    "hi_transform (rp_form q) = hi_transform (rp_form p)"
    by (auto simp: validateJson_handler_def Let_def split: sum.splits if_splits)
  obtain v where v: "parse (hi_query (rp_form q)) = Inr v"
    using assms(1) q by (auto simp: request_handler_def Let_def split: sum.splits)
  let ?item = "(rp_form q)\<lparr> hi_query := stringify v \<rparr>"
  let ?h = "filter (\<lambda>y. y \<noteq> ?item) (rp_history p) @ [?item]"
  have h: "remember ?item (rp_history q) = ?h"
    using assms(3) by (simp add: remember_def Let_def form(1) splice_equal_distinct)
  have p': "rp_history p' = ?h" "rp_prefs p' = prefs_set True ''anyRequest-history'' (Arr (map item_json ?h)) (rp_prefs q)"
    using assms(1) by (auto simp: request_handler_def q v Let_def h)
  have kept: "kept_history (rp_prefs p') = ?h"
    unfolding p'(2) by (rule kept_history_set)
  have "map_option rp_form (case request_init (rp_base p') (rp_prefs p') of Inr q \<Rightarrow> Some q | Inl _ \<Rightarrow> None) = Some ?item"
    unfolding request_init_def kept by (simp add: setHistoryItem_def Let_def)
  moreover have "length ?h = length (rp_history p) + (if ?item \<in> set (rp_history p) then 0 else 1)"
  proof (cases "?item \<in> set (rp_history p)")
    case True
    with length_filter_other [OF assms(3) True] show ?thesis by simp
  next
    case False
    then have "filter (\<lambda>y. y \<noteq> ?item) (rp_history p) = rp_history p" by (auto simp: filter_id_conv)
    with False show ?thesis by simp
  qed
  moreover have "distinct ?h" using assms(3) by simp
  ultimately show ?thesis using form kept unfolding p'(1) by (intro conjI exI [of _ ?item]) simp_all
qed

definition parse_sample :: json_parser where
  "parse_sample s = (if s = ''{}'' then Inr (Obj []) else Inl ''Unexpected token'')"

definition page_sample :: "history_item list \<Rightarrow> request_page" where
  "page_sample h =
     \<lparr> rp_base = ''http://localhost:9200'', rp_form = \<lparr> hi_path = ''_stats'', hi_type = ''GET'', hi_query = [], hi_transform = [] \<rparr>,
       rp_pretty = False, rp_asGraph = False, rp_asTable = False, rp_asJson = True, rp_cron = 0, rp_history = h,
       rp_timer = False, rp_prev = None, rp_err = [], rp_out = [], rp_sent = [], rp_prefs = [] \<rparr>"

theorem request_remembered_witness:
  "\<exists>p. request_handler parse_sample True True (page_sample [default_item]) = Inr p
    \<and> rp_history p = [default_item, \<lparr> hi_path = ''_stats'', hi_type = ''GET'', hi_query = ''{}'', hi_transform = [] \<rparr>]
    \<and> map rq_url (rp_sent p) = [''http://localhost:9200/_stats''] \<and> distinct (rp_history p)"
proof -
  have run: "case request_handler parse_sample True True (page_sample [default_item]) of Inl _ \<Rightarrow> False
    | Inr p \<Rightarrow> rp_history p = [default_item, \<lparr> hi_path = ''_stats'', hi_type = ''GET'', hi_query = ''{}'', hi_transform = [] \<rparr>]
        \<and> map rq_url (rp_sent p) = [''http://localhost:9200/_stats'']" by code_simp
  then obtain p where p: "request_handler parse_sample True True (page_sample [default_item]) = Inr p"
    "rp_history p = [default_item, \<lparr> hi_path = ''_stats'', hi_type = ''GET'', hi_query = ''{}'', hi_transform = [] \<rparr>]"
    "map rq_url (rp_sent p) = [''http://localhost:9200/_stats'']" by (auto split: sum.splits)
  have valid: "fst (validateJson_handler parse_sample (page_sample [default_item]))" by code_simp
  have dist: "distinct (rp_history (page_sample [default_item]))" by (simp add: page_sample_def)
  have "distinct (rp_history p)"
    using request_remembered [OF p(1) valid dist] by (rule conjunct1)
  with p show ?thesis by (intro exI [of _ p] conjI)
qed

section \<open>The templates\<close>

definition historyItem_template :: "history_item \<Rightarrow> jsval" where
  "historyItem_template x =
     el ''LI'' [(''cls'', Str ''booble''), (''data'', Obj [(''item'', item_json x)]), (''children'', Arr [
       el ''SPAN'' [(''text'', Str (hi_path x))], Str '' '', el ''EM'' [(''text'', Str (hi_query x))], Str '' '',
       el ''SPAN'' [(''text'', Str (hi_transform x))]])]"

lemma historyItem_text:
  "texts (create_nodes (historyItem_template x)) = hi_path x @ '' '' @ hi_query x @ '' '' @ hi_transform x"
  by (simp add: historyItem_template_def el_def item_json_def dget_def)

definition cron_options :: "(int \<times> string) list" where
  "cron_options =
     [(0, ''do not repeat''), (1000, ''second''), (1000 * 2, ''2 seconds''), (1000 * 5, ''5 seconds''), (1000 * 20, ''20 seconds''),
      (1000 * 60, ''minute''), (1000 * 60 * 10, ''10 minutes''), (1000 * 60 * 60, ''hour'')]"

definition cron_template :: jsval where
  "cron_template =
     el ''SELECT'' [(''name'', Str ''cron''), (''children'', Arr (map (\<lambda>(v, t).
       el ''OPTION'' [(''value'', Num v), (''text'', Str t)]) cron_options))]"

definition check_label :: "i18n \<Rightarrow> string \<Rightarrow> bool \<Rightarrow> string \<Rightarrow> jsval" where
  "check_label tr nm checked key =
     el ''LABEL'' [(''children'', Arr [
       el ''INPUT'' ([(''type'', Str ''checkbox'')] @ (if checked then [(''checked'', Bool True)] else []) @ [(''name'', Str nm)]),
       Str (tr key [])])]"

text \<open>The bodies of the five sections, which are sidebar sections of their own.\<close>

definition request_sections :: "i18n \<Rightarrow> string \<Rightarrow> history_item \<Rightarrow> history_item list \<Rightarrow> (string \<times> jsval) list" where
  "request_sections tr base x h =
     [(''AnyRequest.History'',
        el ''UL'' [(''onclick'', Fn ''_historyClick_handler''), (''cls'', Str ''uiAnyRequest-history''), (''children'', Arr (map historyItem_template h))]),
      (''AnyRequest.Query'',
        el ''DIV'' [(''children'', Arr [
          el ''INPUT'' [(''type'', Str ''text''), (''name'', Str ''base_uri''), (''value'', Str base)], el ''BR'' [],
          el ''INPUT'' [(''type'', Str ''text''), (''name'', Str ''path''), (''value'', Str (hi_path x))],
          el ''SELECT'' [(''name'', Str ''method''), (''children'', Arr (map (\<lambda>m. option_template (Str m)) [''POST'', ''GET'', ''PUT'', ''HEAD'', ''DELETE'']))],
          el ''TEXTAREA'' [(''name'', Str ''body''), (''rows'', Num 20), (''text'', Str (hi_query x))],
          el ''BUTTON'' [(''css'', Obj [(''cssFloat'', Str ''right'')]), (''type'', Str ''button''),
            (''children'', Arr [el ''B'' [(''text'', Str (tr ''AnyRequest.Request'' []))]]), (''onclick'', Fn ''_request_handler'')],
          el ''BUTTON'' [(''type'', Str ''button''), (''text'', Str (tr ''AnyRequest.ValidateJSON'' [])), (''onclick'', Fn ''_validateJson_handler'')],
          check_label tr ''pretty'' False ''AnyRequest.Pretty'',
          el ''DIV'' [(''cls'', Str ''uiAnyRequest-jsonErr'')]])]),
      (''AnyRequest.Transformer'',
        el ''DIV'' [(''children'', Arr [
          el ''CODE'' [(''text'', Str ''function(root, prev) {'')], el ''BR'' [],
          el ''TEXTAREA'' [(''name'', Str ''transform''), (''rows'', Num 5), (''text'', Str (hi_transform x))], el ''BR'' [],
          el ''CODE'' [(''text'', Str ''}'')]])]),
      (''AnyRequest.RepeatRequest'',
        el ''DIV'' [(''children'', Arr [Str (tr ''AnyRequest.RepeatRequestSelect'' []), Str '' '', cron_template])]),
      (''AnyRequest.DisplayOptions'',
        el ''DIV'' [(''children'', Arr [
          check_label tr ''asJson'' True ''AnyRequest.AsJson'', el ''BR'' [],
          check_label tr ''asGraph'' False ''AnyRequest.AsGraph'', el ''BR'' [],
          check_label tr ''asTable'' False ''AnyRequest.AsTable''])])]"

definition request_template :: "nat list \<Rightarrow> jsval" where
  "request_template sections =
     el ''DIV'' [(''cls'', Str ''anyRequest''), (''children'', Arr [
       el ''DIV'' [(''cls'', Str ''uiAnyRequest-request''), (''children'', Arr (map Widget sections))],
       el ''DIV'' [(''cls'', Str ''uiAnyRequest-out'')]])]"

end
