(* ===== verification/Shell.thy ===== *)
theory Shell
  imports Services Filters Request Panels Widgets
begin

text \<open>
  The application around the components: \<^verbatim>\<open>app.js\<close> with its pages and tabs,
  \<^verbatim>\<open>ui/header/header.js\<close>, \<^verbatim>\<open>ui/clusterConnect/clusterConnect.js\<close>, and the two pages that join a
  query to its results, \<^verbatim>\<open>ui/browser/browser.js\<close> and \<^verbatim>\<open>ui/structuredQuery/structuredQuery.js\<close>.
\<close>

section \<open>The address of the cluster\<close>

definition default_uri :: string where "default_uri = ''http://localhost:9200''"

text \<open>The address of the configuration, else the one that is kept, else the default, and a slash at its end.\<close>

definition app_base_uri :: "string option \<Rightarrow> jsval dict \<Rightarrow> string res" where
  "app_base_uri config prefs =
     (case js_or (js_or (case config of Some s \<Rightarrow> Str s | None \<Rightarrow> Null) (prefs_get ''app-base_uri'' prefs)) (Str default_uri) of
        Str s \<Rightarrow> Inr (if last s \<noteq> CHR ''/'' then s @ ''/'' else s)
      | _ \<Rightarrow> Inl TypeError)"

text \<open>\<open>window.btoa\<close>, three bytes at a time.\<close>

definition base64_char :: "nat \<Rightarrow> char" where
  "base64_char n =
     (if n < 26 then char_of (65 + n) else if n < 52 then char_of (97 + (n - 26)) else if n < 62 then char_of (48 + (n - 52))
      else if n = 62 then CHR ''+'' else CHR ''/'')"

fun btoa :: "string \<Rightarrow> string" where
  "btoa [] = []"
| "btoa [a] = (let x = of_char a in [base64_char (x div 4), base64_char (x mod 4 * 16), CHR ''='', CHR ''=''])"
| "btoa [a, b] =
     (let x = of_char a; y = of_char b
      in [base64_char (x div 4), base64_char (x mod 4 * 16 + y div 16), base64_char (y mod 16 * 4), CHR ''=''])"
| "btoa (a # b # c # s) =
     (let x = of_char a; y = of_char b; z = of_char c
      in [base64_char (x div 4), base64_char (x mod 4 * 16 + y div 16), base64_char (y mod 16 * 4 + z div 64), base64_char (z mod 64)]
         @ btoa s)"

lemma btoa_sample: "btoa ''elastic:x'' = ''ZWxhc3RpYzp4''" by code_simp

text \<open>The header that every request gets when a user is configured.\<close>

definition auth_header :: "(string \<times> string) option \<Rightarrow> (string \<times> string) list" where
  "auth_header auth =
     (case auth of
        Some (user, password) \<Rightarrow> if user = [] then [] else [(''Authorization'', ''Basic '' @ btoa (user @ '':'' @ password))]
      | None \<Rightarrow> [])"

section \<open>Pages and tabs\<close>

text \<open>
  The pages of the document in order, with what they are and whether they are shown; the instances under their
  references; the tabs that were added, each with the reference and the page its handlers hold; and the reference of
  the tab that is marked active. The five tabs of the menu have the references with the number 0.
\<close>

record page_obj =
  pg_type :: string
  pg_shown :: bool

record shell =
  instances :: "nat dict"
  sh_pages :: "nat \<Rightarrow> page_obj"
  sh_body :: "nat list"
  sh_next :: nat
  sh_tabs :: "(string \<times> nat) list"
  sh_active :: "string option"

definition page_ref :: "string \<Rightarrow> nat \<Rightarrow> string" where
  "page_ref type i = type @ show_nat i"

definition createPage :: "string \<Rightarrow> nat \<Rightarrow> shell \<Rightarrow> nat \<times> shell" where
  "createPage type i s =
     (let p = sh_next s
      in (p, s\<lparr> instances := dput (page_ref type i) p (instances s), sh_pages := (sh_pages s)(p := \<lparr> pg_type = type, pg_shown = True \<rparr>),
                sh_body := sh_body s @ [p], sh_next := Suc p \<rparr>))"

definition set_shown :: "string \<Rightarrow> string \<times> nat \<Rightarrow> (nat \<Rightarrow> page_obj) \<Rightarrow> nat \<Rightarrow> page_obj" where
  "set_shown ref e f = f(snd e := (f (snd e))\<lparr> pg_shown := (if fst e = ref then page_show else page_hide) (pg_shown (f (snd e))) \<rparr>)"

text \<open>\<open>attached\<close>: the tab that was clicked is in the document; only then are its siblings unmarked.\<close>

definition show_page :: "string \<Rightarrow> bool \<Rightarrow> shell \<Rightarrow> shell" where
  "show_page ref attached s =
     s\<lparr> sh_active := (if attached then Some ref else sh_active s), sh_pages := fold (set_shown ref) (instances s) (sh_pages s) \<rparr>"

text \<open>The loop of \<open>showNew\<close>, which has no bound of its own: \<open>None\<close> is a search that never ends.\<close>

partial_function (option) search_ref :: "string \<Rightarrow> nat dict \<Rightarrow> nat \<Rightarrow> nat option" where
  "search_ref type inst type_index =
     (if has_key inst (page_ref type (Suc type_index)) then search_ref type inst (Suc type_index) else Some (Suc type_index))"

definition showNew :: "string \<Rightarrow> shell \<Rightarrow> shell option" where
  "showNew type s =
     Option.bind (search_ref type (instances s) 0) (\<lambda>i.
       let ref = page_ref type i; (p, s1) = createPage type i s
       in Some (show_page ref True (s1\<lparr> sh_tabs := sh_tabs s1 @ [(ref, p)] \<rparr>)))"

text \<open>\<open>fresh\<close>: the click hit the \<open>[+]\<close> of the tab.\<close>

definition navigateTo :: "string \<Rightarrow> bool \<Rightarrow> shell \<Rightarrow> shell option" where
  "navigateTo type fresh s =
     (if fresh then showNew type s
      else let ref = page_ref type 0;
               s1 = (if has_key (instances s) ref then s else snd (createPage type 0 s))
           in Some (show_page ref True s1))"

text \<open>A click on a tab that was added.\<close>

definition tab_click :: "string \<Rightarrow> shell \<Rightarrow> shell" where
  "tab_click ref s = show_page ref True s"

text \<open>
  A click on its \<open>[-]\<close>: the tab and the page go, and the instance. The click then goes on to the tab, whose own
  handler is still there, although the tab is no longer in the document.
\<close>

definition close_click :: "string \<times> nat \<Rightarrow> shell \<Rightarrow> shell" where
  "close_click t s =
     show_page (fst t) False
       (s\<lparr> sh_tabs := filter (\<lambda>u. u \<noteq> t) (sh_tabs s), sh_active := (if sh_active s = Some (fst t) then None else sh_active s),
          sh_body := filter (\<lambda>p. p \<noteq> snd t) (sh_body s), instances := ddel (fst t) (instances s) \<rparr>)"

definition page_types :: "string list" where
  "page_types = [''ClusterOverview'', ''IndexOverview'', ''Browser'', ''StructuredQuery'', ''AnyRequest'']"

text \<open>The openers of the five tabs of the menu.\<close>

definition open_handler :: "nat \<Rightarrow> bool \<Rightarrow> shell \<Rightarrow> shell option" where
  "open_handler i fresh s = navigateTo (page_types ! i) fresh s"

definition empty_shell :: shell where
  "empty_shell = \<lparr> instances = [], sh_pages = (\<lambda>_. \<lparr> pg_type = [], pg_shown = False \<rparr>), sh_body = [], sh_next = 0,
     sh_tabs = [], sh_active = None \<rparr>"

text \<open>The start clicks the first tab.\<close>

definition app_init :: "shell option" where
  "app_init = open_handler 0 False empty_shell"

text \<open>The dashboard \<open>cluster\<close> also sets the refresh button of the overview.\<close>

definition app_dashboard :: "string \<Rightarrow> refresh_button \<Rightarrow> refresh_button" where
  "app_dashboard dashboard b = (if dashboard = ''cluster'' then rb_set 5000 b else b)"

inductive shell_step :: "shell \<Rightarrow> shell \<Rightarrow> bool" where
  Open: "i < length page_types \<Longrightarrow> fresh \<longrightarrow> i \<in> {3, 4} \<Longrightarrow> open_handler i fresh s = Some s' \<Longrightarrow> shell_step s s'"
| Tab: "t \<in> set (sh_tabs s) \<Longrightarrow> shell_step s (tab_click (fst t) s)"
| Close: "t \<in> set (sh_tabs s) \<Longrightarrow> shell_step s (close_click t s)"

inductive shell_reach :: "shell \<Rightarrow> bool" where
  Start: "app_init = Some s \<Longrightarrow> shell_reach s"
| Step: "shell_reach s \<Longrightarrow> shell_step s s' \<Longrightarrow> shell_reach s'"

section \<open>The search for a new reference\<close>

lemma page_ref_inject [simp]: "page_ref type i = page_ref type j \<longleftrightarrow> i = j"
  by (simp add: page_ref_def)

lemma search_ref_least:
  assumes "\<not> has_key inst (page_ref type (Suc m))" "\<forall>j. i \<le> j \<and> j < m \<longrightarrow> has_key inst (page_ref type (Suc j))" "i \<le> m"
  shows "search_ref type inst i = Some (Suc m)"
  using assms(2,3)
proof (induction "m - i" arbitrary: i)
  case 0
  then have "i = m" by simp
  with assms(1) show ?case by (simp add: search_ref.simps)
next
  case (Suc d)
  then have "i < m" by simp
  with Suc.prems have "has_key inst (page_ref type (Suc i))" by blast
  moreover have "search_ref type inst (Suc i) = Some (Suc m)"
    using Suc.hyps(2) Suc.prems \<open>i < m\<close> by (intro Suc.hyps(1)) auto
  ultimately show ?case by (simp add: search_ref.simps [of type inst i])
qed

text \<open>Among one more numbers than there are instances, one is free.\<close>

lemma free_number: "\<exists>j \<le> length inst. \<not> has_key inst (page_ref type (Suc j))"
proof (rule ccontr)
  assume "\<not> ?thesis"
  then have "(\<lambda>j. page_ref type (Suc j)) ` {..length inst} \<subseteq> set (map fst inst)"
    by (auto simp: has_key_def)
  then have "card ((\<lambda>j. page_ref type (Suc j)) ` {..length inst}) \<le> card (set (map fst inst))"
    by (rule card_mono [rotated]) simp
  moreover have "card ((\<lambda>j. page_ref type (Suc j)) ` {..length inst}) = Suc (length inst)"
    by (subst card_image) (auto simp: inj_on_def)
  ultimately show False using card_length [of "map fst inst"] by simp
qed

lemma search_ref_Some:
  "\<exists>i. search_ref type inst 0 = Some i \<and> 0 < i \<and> i \<le> Suc (length inst) \<and> \<not> has_key inst (page_ref type i)
     \<and> (\<forall>j. 0 < j \<and> j < i \<longrightarrow> has_key inst (page_ref type j))"
proof -
  obtain j where j: "j \<le> length inst" "\<not> has_key inst (page_ref type (Suc j))" using free_number by blast
  define m where "m = (LEAST j. \<not> has_key inst (page_ref type (Suc j)))"
  have m: "\<not> has_key inst (page_ref type (Suc m))" unfolding m_def using j(2) by (rule LeastI)
  have least: "has_key inst (page_ref type (Suc k))" if "k < m" for k
    using not_less_Least [of k "\<lambda>j. \<not> has_key inst (page_ref type (Suc j))"] that by (auto simp: m_def)
  have "m \<le> j" unfolding m_def using j(2) by (rule Least_le)
  moreover have "search_ref type inst 0 = Some (Suc m)"
    using m least by (intro search_ref_least) auto
  moreover have "has_key inst (page_ref type k)" if "0 < k" "k < Suc m" for k
    using that least [of "k - 1"] by (cases k) auto
  ultimately show ?thesis using m j(1) by (intro exI [of _ "Suc m"]) auto
qed

text \<open>C14: The search for a new tab ends, after at most one round more than there are pages: it opens the first number
  of its type that no page has, and makes its tab the active one. So the click always returns.\<close>

theorem showNew_terminates:
  "\<exists>i s'. showNew type s = Some s' \<and> 0 < i \<and> i \<le> Suc (length (instances s))
     \<and> \<not> has_key (instances s) (page_ref type i) \<and> has_key (instances s') (page_ref type i)
     \<and> sh_active s' = Some (page_ref type i) \<and> list_all (\<lambda>j. has_key (instances s) (page_ref type j)) [1..<i]"
proof -
  obtain i where i: "search_ref type (instances s) 0 = Some i" "0 < i" "i \<le> Suc (length (instances s))"
    "\<not> has_key (instances s) (page_ref type i)" "\<forall>j. 0 < j \<and> j < i \<longrightarrow> has_key (instances s) (page_ref type j)"
    using search_ref_Some by blast
  then show ?thesis
    by (intro exI [of _ i]) (auto simp: showNew_def createPage_def show_page_def Let_def list_all_iff)
qed

section \<open>What is shown\<close>

lemma set_shown_other: "p \<notin> snd ` set d \<Longrightarrow> fold (set_shown ref) d f p = f p"
  by (induction d arbitrary: f) (auto simp: set_shown_def)

lemma set_shown_at:
  "inj_on snd (set d) \<Longrightarrow> (k, p) \<in> set d \<Longrightarrow> pg_shown (fold (set_shown ref) d f p) \<longleftrightarrow> k = ref"
proof (induction d rule: rev_induct)
  case (snoc e d)
  show ?case
  proof (cases "snd e = p")
    case True
    with snoc.prems have "e = (k, p)" by (auto simp: inj_on_def)
    then show ?thesis by (simp add: set_shown_def page_show_def page_hide_def)
  next
    case False
    with snoc.prems have "(k, p) \<in> set d" "inj_on snd (set d)" by (auto simp: inj_on_def)
    with False snoc.IH show ?thesis by (auto simp: set_shown_def)
  qed
qed simp

definition shell_inv :: "shell \<Rightarrow> bool" where
  "shell_inv s \<longleftrightarrow>
     inj_on fst (set (instances s)) \<and> inj_on snd (set (instances s)) \<and> distinct (sh_body s)
     \<and> set (sh_body s) = snd ` set (instances s) \<and> (\<forall>p \<in> set (sh_body s). p < sh_next s)
     \<and> distinct (sh_tabs s) \<and> set (sh_tabs s) \<subseteq> set (instances s)
     \<and> (\<forall>e \<in> set (instances s). pg_shown (sh_pages s (snd e)) \<longrightarrow> sh_active s = Some (fst e))
     \<and> (\<forall>r. sh_active s = Some r \<longrightarrow> r \<in> fst ` set (instances s))"

text \<open>The part of the invariant that does not speak of what is shown.\<close>

definition shell_base :: "shell \<Rightarrow> bool" where
  "shell_base s \<longleftrightarrow>
     inj_on fst (set (instances s)) \<and> inj_on snd (set (instances s)) \<and> distinct (sh_body s)
     \<and> set (sh_body s) = snd ` set (instances s) \<and> (\<forall>p \<in> set (sh_body s). p < sh_next s)
     \<and> distinct (sh_tabs s) \<and> set (sh_tabs s) \<subseteq> set (instances s)"

lemma shell_inv_base: "shell_inv s \<Longrightarrow> shell_base s"
  by (simp add: shell_inv_def shell_base_def)

lemma show_page_shown:
  assumes "shell_base s" "(k, p) \<in> set (instances s)"
  shows "pg_shown (sh_pages (show_page ref a s) p) \<longleftrightarrow> k = ref"
  using assms set_shown_at [of "instances s" k p ref "sh_pages s"] by (simp add: show_page_def shell_base_def)

lemma show_page_inv:
  assumes "shell_base s" "ref \<in> fst ` set (instances s)"
  shows "shell_inv (show_page ref True s)"
proof -
  have "\<forall>e \<in> set (instances s). pg_shown (sh_pages (show_page ref True s) (snd e)) \<longrightarrow> Some ref = Some (fst e)"
    using show_page_shown [OF assms(1)] by fastforce
  with assms show ?thesis unfolding shell_inv_def shell_base_def by (auto simp: show_page_def)
qed

lemma set_dput_new: "\<not> has_key d k \<Longrightarrow> set (dput k v d) = insert (k, v) (set d)"
  by (simp add: dput_def set_ins_index)

lemma createPage_base:
  assumes "shell_base s" "\<not> has_key (instances s) (page_ref type i)"
  shows "shell_base (snd (createPage type i s))"
proof -
  have nk: "page_ref type i \<notin> fst ` set (instances s)" using assms(2) by (simp add: has_key_def)
  have np: "sh_next s \<notin> snd ` set (instances s)" using assms(1) by (auto simp: shell_base_def)
  show ?thesis
    using assms(1) nk np unfolding shell_base_def createPage_def
    by (auto simp: set_dput_new [OF assms(2)] Let_def less_Suc_eq)
qed

lemma new_tab_base:
  assumes "shell_base s" "e \<in> set (instances s)" "e \<notin> set (sh_tabs s)"
  shows "shell_base (s\<lparr> sh_tabs := sh_tabs s @ [e] \<rparr>)"
  using assms by (simp add: shell_base_def)

lemma showNew_inv:
  assumes "shell_base s" "showNew type s = Some s'"
  shows "shell_inv s'"
proof -
  from assms(2) obtain i where i: "search_ref type (instances s) 0 = Some i" "\<not> has_key (instances s) (page_ref type i)"
    using search_ref_Some by blast
  then have fresh: "\<not> has_key (instances s) (page_ref type i)" by simp
  let ?s1 = "snd (createPage type i s)"
  let ?e = "(page_ref type i, sh_next s)"
  have base: "shell_base ?s1" by (rule createPage_base [OF assms(1) fresh])
  have e: "?e \<in> set (instances ?s1)" by (simp add: createPage_def Let_def set_dput_new [OF fresh])
  have "?e \<notin> set (sh_tabs s)" using assms(1) fresh by (force simp: shell_base_def has_key_def)
  then have "?e \<notin> set (sh_tabs ?s1)" by (simp add: createPage_def Let_def)
  from new_tab_base [OF base e this] e
  have "shell_inv (show_page (fst ?e) True (?s1\<lparr> sh_tabs := sh_tabs ?s1 @ [?e] \<rparr>))"
    by (intro show_page_inv) force+
  with assms(2) i show ?thesis by (simp add: showNew_def createPage_def Let_def)
qed

lemma navigateTo_inv:
  assumes "shell_base s" "navigateTo type fresh s = Some s'"
  shows "shell_inv s'"
proof (cases fresh)
  case True
  with assms show ?thesis by (auto simp: navigateTo_def intro: showNew_inv)
next
  case False
  let ?s1 = "if has_key (instances s) (page_ref type 0) then s else snd (createPage type 0 s)"
  have "shell_base ?s1" using assms(1) createPage_base by simp
  moreover have "page_ref type 0 \<in> fst ` set (instances ?s1)"
    by (auto simp: has_key_def createPage_def Let_def set_dput_new)
  ultimately have "shell_inv (show_page (page_ref type 0) True ?s1)" by (rule show_page_inv)
  with assms(2) False show ?thesis by (simp add: navigateTo_def Let_def split: if_splits)
qed

lemma set_ddel: "set (ddel k d) = {e \<in> set d. fst e \<noteq> k}"
  by (auto simp: ddel_def)

text \<open>The state in which the click on \<open>[-]\<close> reaches the tab.\<close>

definition closed_tab :: "string \<times> nat \<Rightarrow> shell \<Rightarrow> shell" where
  "closed_tab t s =
     s\<lparr> sh_tabs := filter (\<lambda>u. u \<noteq> t) (sh_tabs s), sh_active := (if sh_active s = Some (fst t) then None else sh_active s),
        sh_body := filter (\<lambda>p. p \<noteq> snd t) (sh_body s), instances := ddel (fst t) (instances s) \<rparr>"

lemma close_click_eq: "close_click t s = show_page (fst t) False (closed_tab t s)"
  by (simp add: close_click_def closed_tab_def)

lemma other_than:
  assumes "inj_on fst D" "inj_on snd D" "t \<in> D" "e \<in> D"
  shows "fst e = fst t \<longleftrightarrow> e = t" "snd e = snd t \<longleftrightarrow> e = t"
  using assms by (auto dest: inj_onD)

lemma closed_instances:
  assumes "shell_base s" "t \<in> set (instances s)"
  shows "set (instances (closed_tab t s)) = set (instances s) - {t}"
  using assms other_than(1) [of "set (instances s)" t] by (auto simp: closed_tab_def set_ddel shell_base_def)

lemma closed_tab_base:
  assumes "shell_base s" "t \<in> set (instances s)"
  shows "shell_base (closed_tab t s)"
proof -
  have "inj_on fst (set (instances s) - {t})" "inj_on snd (set (instances s) - {t})"
    using assms(1) by (auto simp: shell_base_def intro: inj_on_subset)
  moreover have "set (sh_body (closed_tab t s)) = snd ` (set (instances s) - {t})"
    using assms other_than(2) [of "set (instances s)" t] by (auto simp: closed_tab_def shell_base_def)
  moreover have "distinct (sh_body (closed_tab t s))" "\<forall>p \<in> set (sh_body (closed_tab t s)). p < sh_next (closed_tab t s)"
    "distinct (sh_tabs (closed_tab t s))" "set (sh_tabs (closed_tab t s)) \<subseteq> set (instances s) - {t}"
    using assms(1) by (auto simp: closed_tab_def shell_base_def)
  ultimately show ?thesis unfolding shell_base_def closed_instances [OF assms] by simp
qed

lemma close_click_hides:
  assumes "shell_base s" "t \<in> set (instances s)" "e \<in> set (instances (close_click t s))"
  shows "\<not> pg_shown (sh_pages (close_click t s) (snd e))"
proof -
  from assms(3) have e: "(fst e, snd e) \<in> set (instances (closed_tab t s))"
    by (simp add: close_click_eq show_page_def)
  then have "fst e \<noteq> fst t" by (auto simp: closed_tab_def set_ddel)
  with show_page_shown [OF closed_tab_base [OF assms(1,2)] e] show ?thesis by (simp add: close_click_eq)
qed

lemma close_click_inv:
  assumes "shell_inv s" "t \<in> set (instances s)"
  shows "shell_inv (close_click t s)"
proof -
  have base: "shell_base s" using assms(1) by (rule shell_inv_base)
  have "shell_base (close_click t s)"
    using closed_tab_base [OF base assms(2)] by (simp add: close_click_eq show_page_def shell_base_def)
  moreover have "\<forall>e \<in> set (instances (close_click t s)). \<not> pg_shown (sh_pages (close_click t s) (snd e))"
    using close_click_hides [OF base assms(2)] by blast
  moreover have "r \<in> fst ` set (instances (close_click t s))" if "sh_active (close_click t s) = Some r" for r
  proof -
    from that have "sh_active s = Some r" "r \<noteq> fst t" by (auto simp: close_click_eq show_page_def closed_tab_def split: if_splits)
    then obtain p where "(r, p) \<in> set (instances s)" using assms(1) by (auto simp: shell_inv_def)
    with \<open>r \<noteq> fst t\<close> have "(r, p) \<in> set (instances (close_click t s))"
      by (simp add: close_click_eq show_page_def closed_tab_def set_ddel)
    then show ?thesis by force
  qed
  ultimately show ?thesis unfolding shell_inv_def shell_base_def by blast
qed

lemma empty_shell_base: "shell_base empty_shell"
  by (simp add: shell_base_def empty_shell_def)

lemma shell_reach_inv: "shell_reach s \<Longrightarrow> shell_inv s"
proof (induction rule: shell_reach.induct)
  case (Start s)
  then show ?case unfolding app_init_def open_handler_def by (rule navigateTo_inv [OF empty_shell_base])
next
  case (Step s s')
  have base: "shell_base s" using Step.IH by (rule shell_inv_base)
  from Step.hyps(2) show ?case
  proof (cases rule: shell_step.cases)
    case (Open i fresh)
    then show ?thesis unfolding open_handler_def by (intro navigateTo_inv [OF base])
  next
    case (Tab t)
    then have "fst t \<in> fst ` set (instances s)" using base by (auto simp: shell_base_def)
    with Tab show ?thesis by (simp add: tab_click_def show_page_inv [OF base])
  next
    case (Close t)
    then have "t \<in> set (instances s)" using base by (auto simp: shell_base_def)
    with Close show ?thesis by (simp add: close_click_inv [OF Step.IH])
  qed
qed


text \<open>Four clicks: the start, the \<open>[+]\<close> of the structured query twice, and the browser.\<close>

definition tour :: "shell option" where
  "tour = Option.bind app_init (\<lambda>s. Option.bind (open_handler 3 True s) (\<lambda>s. Option.bind (open_handler 3 True s) (open_handler 2 False)))"

lemma reach_open:
  "shell_reach s \<Longrightarrow> i < 5 \<Longrightarrow> fresh \<longrightarrow> i \<in> {3, 4} \<Longrightarrow> open_handler i fresh s = Some s' \<Longrightarrow> shell_reach s'"
  by (rule Step, assumption, rule Open) (simp_all add: page_types_def)

lemma tour_reached:
  assumes "tour = Some s"
  shows "shell_reach s"
proof -
  from assms obtain a b c where run: "app_init = Some a" "open_handler 3 True a = Some b" "open_handler 3 True b = Some c"
    "open_handler 2 False c = Some s"
    unfolding tour_def bind_eq_Some_conv by blast
  have "shell_reach a" using run(1) by (rule Start)
  then have "shell_reach b" by (rule reach_open [where i = 3 and fresh = True]) (simp_all add: run)
  then have "shell_reach c" by (rule reach_open [where i = 3 and fresh = True]) (simp_all add: run)
  then show ?thesis by (rule reach_open [where i = 2 and fresh = False]) (simp_all add: run)
qed

declare search_ref.simps [code]

lemma tour_run:
  "\<exists>s. tour = Some s \<and> sh_tabs s = [(''StructuredQuery1'', 1), (''StructuredQuery2'', 2)] \<and> sh_active s = Some ''Browser0''
     \<and> sh_body s = [0, 1, 2, 3] \<and> map (\<lambda>p. pg_shown (sh_pages s p)) [0..<4] = [False, False, False, True]"
proof -
  have run: "case tour of None \<Rightarrow> False | Some s \<Rightarrow>
     sh_tabs s = [(''StructuredQuery1'', 1), (''StructuredQuery2'', 2)] \<and> sh_active s = Some ''Browser0''
     \<and> sh_body s = [0, 1, 2, 3] \<and> map (\<lambda>p. pg_shown (sh_pages s p)) [0..<4] = [False, False, False, True]"
    by code_simp
  then obtain s where s: "tour = Some s" by (cases tour) simp_all
  show ?thesis by (rule exI [of _ s], rule conjI [OF s run [unfolded s option.case]])
qed


text \<open>Closing a tab hides every page that is left, also when another tab is the active one: that one stays marked, and
  nothing is shown until a tab is clicked.\<close>

theorem close_hides_all:
  assumes "shell_reach s" "t \<in> set (sh_tabs s)"
  shows "list_all (\<lambda>p. \<not> pg_shown (sh_pages (close_click t s) p)) (sh_body (close_click t s))
    \<and> set (sh_body (close_click t s)) = set (sh_body s) - {snd t}
    \<and> sh_active (close_click t s) = (if sh_active s = Some (fst t) then None else sh_active s)"
proof -
  have inv: "shell_inv s" by (rule shell_reach_inv [OF assms(1)])
  then have base: "shell_base s" by (rule shell_inv_base)
  have t: "t \<in> set (instances s)" using base assms(2) by (auto simp: shell_base_def)
  have "set (sh_body (close_click t s)) = snd ` set (instances (close_click t s))"
    using close_click_inv [OF inv t] by (simp add: shell_inv_def)
  with close_click_hides [OF base t]
  have "list_all (\<lambda>p. \<not> pg_shown (sh_pages (close_click t s) p)) (sh_body (close_click t s))"
    by (auto simp: list_all_iff)
  moreover have "set (sh_body (close_click t s)) = set (sh_body s) - {snd t}"
    by (simp add: close_click_def show_page_def set_diff_eq)
  moreover have "sh_active (close_click t s) = (if sh_active s = Some (fst t) then None else sh_active s)"
    by (simp add: close_click_def show_page_def)
  ultimately show ?thesis by (intro conjI)
qed

theorem close_hides_all_witness:
  "\<exists>s. tour = Some s \<and> pg_shown (sh_pages s 3) \<and> sh_active (close_click (''StructuredQuery1'', 1) s) = Some ''Browser0''
     \<and> list_all (\<lambda>p. \<not> pg_shown (sh_pages (close_click (''StructuredQuery1'', 1) s) p)) (sh_body (close_click (''StructuredQuery1'', 1) s))"
proof -
  obtain s where s: "tour = Some s" "sh_tabs s = [(''StructuredQuery1'', 1), (''StructuredQuery2'', 2)]" "sh_active s = Some ''Browser0''"
    "map (\<lambda>p. pg_shown (sh_pages s p)) [0..<4] = [False, False, False, True]" using tour_run by (elim exE conjE) (rule that; assumption)
  have reach: "shell_reach s" using s(1) by (rule tour_reached)
  have tab: "(''StructuredQuery1'', 1) \<in> set (sh_tabs s)" using s(2) by simp
  have "pg_shown (sh_pages s 3)" using s(4) by (simp add: upt_conv_Cons eval_nat_numeral)
  moreover have "sh_active (close_click (''StructuredQuery1'', 1) s) = Some ''Browser0''"
    using s(3) by (simp add: close_click_def show_page_def)
  ultimately show ?thesis using s(1) close_hides_all [OF reach tab, THEN conjunct1] by (intro exI [of _ s] conjI)
qed

section \<open>Connecting to a cluster\<close>

text \<open>The answer of the root of the cluster: its address is kept, and its version set if it has one.\<close>

definition node_handler :: "bool \<Rightarrow> jsval \<Rightarrow> cluster \<Rightarrow> jsval dict \<Rightarrow> cluster res \<times> jsval dict" where
  "node_handler room d c prefs =
     (if \<not> truthy d then (Inr c, prefs)
      else (case js_property (js_property d ''version'') ''number'' of
              Str v \<Rightarrow> if v = [] then Inr c else setVersion v c
            | v \<Rightarrow> if truthy v then Inl TypeError else Inr c,
            prefs_set room ''app-base_uri'' (Str (base_uri c)) prefs))"

text \<open>The button makes a new application with the address of the input; so does the return key.\<close>

definition reconnect_handler :: "string \<Rightarrow> jsval dict \<Rightarrow> cluster res" where
  "reconnect_handler uri prefs = res_bind (app_base_uri (Some uri) prefs) (\<lambda>u. Inr (cluster_init u))"

definition uri_keyup :: "int \<Rightarrow> string \<Rightarrow> jsval dict \<Rightarrow> cluster res option" where
  "uri_keyup which uri prefs = (if which = 13 then Some (reconnect_handler uri prefs) else None)"

definition connect_template :: "i18n \<Rightarrow> string option \<Rightarrow> cluster \<Rightarrow> jsval" where
  "connect_template tr config_id c =
     el ''SPAN'' [(''cls'', Str ''uiClusterConnect''), (''children'', Arr [
       el ''INPUT'' [(''type'', Str ''text''), (''cls'', Str ''uiClusterConnect-uri''), (''onkeyup'', Fn ''keyup''),
         (''id'', widget_id config_id (Some ''baseUri'')), (''value'', Str (base_uri c))],
       el ''BUTTON'' [(''type'', Str ''button''), (''text'', Str (tr ''Header.Connect'' [])), (''onclick'', Fn ''_reconnect_handler'')]])]"

lemma app_base_uri_slash: "app_base_uri config prefs = Inr u \<Longrightarrow> u \<noteq> [] \<and> last u = CHR ''/''"
  by (auto simp: app_base_uri_def js_or_def default_uri_def split: jsval.splits if_splits option.splits)

lemma app_base_uri_stable: "u \<noteq> [] \<Longrightarrow> last u = CHR ''/'' \<Longrightarrow> app_base_uri (Some u) prefs = Inr u"
  by (simp add: app_base_uri_def js_or_def)

text \<open>C35: Every request goes to an address that ends in a slash; the address of a cluster that answered is the one the next
  start without a configured address takes, and connecting to it by hand again changes nothing.\<close>

theorem reconnects:
  assumes "app_base_uri config prefs = Inr u" "truthy d" "node_handler True d (cluster_init u) prefs = (r, prefs')"
  shows "ends_with_slash u \<and> app_base_uri None prefs' = Inr u \<and> reconnect_handler u prefs' = Inr (cluster_init u)
    \<and> rq_url (cluster_get (cluster_init u) path) = u @ path"
proof -
  have u: "u \<noteq> []" "last u = CHR ''/''" using app_base_uri_slash [OF assms(1)] by blast+
  have "prefs' = prefs_set True ''app-base_uri'' (Str u) prefs"
    using assms(2,3) by (simp add: node_handler_def cluster_init_def)
  then have "prefs_get ''app-base_uri'' prefs' = Str u" by (simp add: prefs_get_def prefs_set_def setItem_def getItem_def)
  with u have "app_base_uri None prefs' = Inr u" by (simp add: app_base_uri_def js_or_def)
  with u show ?thesis
    by (simp add: ends_with_slash_def reconnect_handler_def app_base_uri_stable cluster_get_def cluster_request_def cluster_init_def)
qed

theorem reconnects_witness:
  "app_base_uri None (snd (node_handler True (Obj [(''name'', Str ''n1'')]) (cluster_init ''http://es:9200/'') [])) = Inr ''http://es:9200/''"
proof -
  have "app_base_uri (Some ''http://es:9200'') [] = Inr ''http://es:9200/''" by code_simp
  then show ?thesis
    by (rule reconnects [OF _ _ prod.collapse [symmetric], THEN conjunct2, THEN conjunct1]) simp
qed

section \<open>The header\<close>

text \<open>The items of the info menu: the key of the text and the path that is asked for.\<close>

definition quicks :: "(string \<times> string) list" where
  "quicks =
     [(''Nav.Info'', []), (''Nav.Status'', ''_stats''), (''Nav.NodeStats'', ''_nodes/stats''), (''Nav.ClusterNodes'', ''_nodes''),
      (''Nav.Plugins'', ''_nodes/plugins''), (''Nav.ClusterState'', ''_cluster/state''), (''Nav.ClusterHealth'', ''_cluster/health''),
      (''Nav.Templates'', ''_template'')]"

definition quick_items :: "i18n \<Rightarrow> menu_item list" where
  "quick_items tr = map (\<lambda>(k, path). \<lparr> mi_text = tr k [], mi_disabled = False, mi_selected = False, mi_onclick = path \<rparr>) quicks"

definition quick_click :: "cluster \<Rightarrow> nat \<Rightarrow> ajax" where
  "quick_click c i = cluster_get c (snd (quicks ! i))"

definition json_panel :: panel where
  "json_panel = \<lparr> p_modal = False, p_autoRemove = True, p_menu = False, p_z = 0, p_left = None, p_removed = False \<rparr>"

text \<open>The answer to an item: its earlier panel is removed unless it is gone already, the new one \<open>p\<close> opens at once.\<close>

definition quick_answer :: "string \<Rightarrow> nat \<Rightarrow> int \<Rightarrow> (string \<Rightarrow> nat option) \<times> panels \<Rightarrow> (string \<Rightarrow> nat option) \<times> panels" where
  "quick_answer path p position qs =
     (case qs of (quickPanels, s) \<Rightarrow>
        let s1 = (case quickPanels path of Some old \<Rightarrow> if p_removed (pan s old) then s else remove_panel old s | None \<Rightarrow> s)
        in (quickPanels(path := Some p), open_panel p position (upd_panel p (\<lambda>_. json_panel) s1)))"

lemma stack_remove_panel: "distinct (stack s) \<Longrightarrow> p \<notin> set (stack (remove_panel p s))"
proof (induction "length (stack s)" arbitrary: s rule: less_induct)
  case less
  show ?case
  proof (cases "find_index (\<lambda>q. q = p) (stack s)")
    case None
    then have "close_panel p s = s" by (simp add: close_panel.simps [of p s])
    moreover have "p \<notin> set (stack s)" using None by (auto simp: find_index_None)
    ultimately show ?thesis by (simp add: remove_panel.simps [of p s] widget_remove_def unbind_keyup_def p_fire_def upd_panel_def)
  next
    case (Some i)
    let ?s1 = "p_fire (Closed p) (setModal (upd_panel p (\<lambda>x. x\<lparr> p_left := Some (-2999) \<rparr>) (s\<lparr> stack := splice1 i (stack s) \<rparr>)))"
    have st: "stack ?s1 = remove1 p (stack s)" using Some by (simp add: p_fire_def upd_panel_def splice1_find_index_Some)
    have "p \<in> set (stack s)" using find_index_Some [OF Some] by auto
    then have "length (stack ?s1) < length (stack s)" unfolding st by (metis One_nat_def diff_less length_pos_if_in_set length_remove1 zero_less_one)
    moreover have "distinct (stack ?s1)" using less.prems by (simp only: st distinct_remove1)
    ultimately have "p \<notin> set (stack (remove_panel p ?s1))" by (rule less.hyps)
    moreover have "p \<notin> set (stack ?s1)" unfolding st using less.prems by (simp add: set_remove1_eq)
    ultimately have "p \<notin> set (stack (close_panel p s))" using Some by (simp add: close_panel.simps [of p s] Let_def)
    then show ?thesis by (simp add: remove_panel.simps [of p s] widget_remove_def unbind_keyup_def p_fire_def upd_panel_def)
  qed
qed

record header =
  hd_name :: string
  hd_status :: string
  hd_colour :: string

text \<open>\<open>text\<close> and \<open>css\<close> of jQuery leave the element alone when they are given nothing to set.\<close>

definition jq_set :: "jsval \<Rightarrow> string \<Rightarrow> string" where
  "jq_set v old = (case v of Undef \<Rightarrow> old | Null \<Rightarrow> old | Arr _ \<Rightarrow> old | Obj _ \<Rightarrow> old | _ \<Rightarrow> to_string v)"

definition header_init :: "i18n \<Rightarrow> header" where
  "header_init tr = \<lparr> hd_name = [], hd_status = tr ''Header.ClusterNotConnected'' [], hd_colour = ''grey'' \<rparr>"

definition header_data :: "i18n \<Rightarrow> cluster_view \<Rightarrow> header \<Rightarrow> jserr option \<times> header" where
  "header_data tr v h =
     (let shards = js_property (v_status v) ''_shards'';
          colour = js_property (v_health v) ''status'';
          h1 = h\<lparr> hd_name := jq_set (js_property (v_state v) ''cluster_name'') (hd_name h) \<rparr>
      in if shards = Undef \<or> shards = Null then (Some TypeError, h1)
         else (None, h1\<lparr> hd_status := tr ''Header.ClusterHealth''
                 [to_string colour, to_string (js_property shards ''successful''), to_string (js_property shards ''total'')],
                hd_colour := jq_set colour (hd_colour h1) \<rparr>))"

definition uiHeader_template :: "i18n \<Rightarrow> nat \<Rightarrow> nat \<Rightarrow> jsval" where
  "uiHeader_template tr clusterConnect quickMenu =
     el ''DIV'' [(''cls'', Str ''uiHeader''), (''children'', Arr [
       Widget clusterConnect,
       el ''SPAN'' [(''cls'', Str ''uiHeader-name'')],
       el ''SPAN'' [(''cls'', Str ''uiHeader-status'')],
       el ''H1'' [(''text'', Str (tr ''General.Elasticsearch'' []))],
       el ''SPAN'' [(''cls'', Str ''pull-right''), (''children'', Arr [Widget quickMenu])]])]"

section \<open>The templates of the application\<close>

definition app_body_template :: "string option \<Rightarrow> jsval" where
  "app_body_template config_id = el ''DIV'' [(''id'', widget_id config_id (Some ''body'')), (''cls'', Str ''uiApp-body'')]"

text \<open>A tab of the menu; the last two have a \<open>[+]\<close>.\<close>

definition menu_tab :: "i18n \<Rightarrow> bool \<Rightarrow> string \<times> string \<Rightarrow> jsval" where
  "menu_tab tr more_tabs e =
     el ''DIV'' ([(''cls'', Str ''uiApp-headerMenuItem pull-left''), (''text'', Str (tr (fst e) [])), (''onclick'', Fn (snd e))]
       @ (if more_tabs then [(''children'', Arr [el ''A'' [(''cls'', Str ''uiApp-headerNewMenuItem ''), (''text'', Str '' [+]'')]])] else []))"

definition app_main_template :: "i18n \<Rightarrow> string option \<Rightarrow> nat \<Rightarrow> nat \<Rightarrow> jsval" where
  "app_main_template tr config_id header content =
     el ''DIV'' [(''cls'', Str ''uiApp''), (''children'', Arr [
       el ''DIV'' [(''id'', widget_id config_id (Some ''header'')), (''cls'', Str ''uiApp-header''), (''children'', Arr [
         Widget header,
         el ''DIV'' [(''cls'', Str ''uiApp-headerMenu''), (''children'', Arr [
           menu_tab tr False (''Nav.Overview'', ''_openClusterOverview_handler''),
           menu_tab tr False (''Nav.Indices'', ''_openIndexOverview_handler''),
           menu_tab tr False (''Nav.Browser'', ''_openBrowser_handler''),
           menu_tab tr True (''Nav.StructuredQuery'', ''_openStructuredQuery_handler''),
           menu_tab tr True (''Nav.AnyRequest'', ''_openAnyRequest_handler'')])]])],
       Widget content])]"

definition new_tab_template :: "i18n \<Rightarrow> string \<Rightarrow> nat \<Rightarrow> jsval" where
  "new_tab_template tr type i =
     el ''DIV'' [(''cls'', Str ''uiApp-headerMenuItem pull-left''), (''text'', Str (tr (''Nav.'' @ type) [] @ '' '' @ show_nat i)),
       (''onclick'', Fn ''show''), (''children'', Arr [el ''A'' [(''text'', Str '' [-]''), (''onclick'', Fn ''close'')]])]"

section \<open>The browser\<close>

text \<open>A click on a column: sort by it, back to the first page, and ask again.\<close>

definition changeSort_handler :: "string \<times> string \<Rightarrow> query \<Rightarrow> query \<times> (string \<times> search \<times> snapshot)" where
  "changeSort_handler ev q =
     (let q1 = setSort (fst ev) (snd ev = ''desc'') q; q2 = setPage 1 q1 in (q2, query_post q2))"

text \<open>The refresh button and the end of the start ask for the results.\<close>

definition updateResults :: "query \<Rightarrow> string \<times> search \<times> snapshot" where
  "updateResults q = query_post q"

text \<open>The start, once the metadata can be had: the query, its filter and the first search.\<close>

definition browser_init :: "(meta \<times> src_index dict) res \<Rightarrow> (query \<times> chooser \<times> (string \<times> search \<times> snapshot)) res" where
  "browser_init factory =
     res_bind (query_init 50) (\<lambda>q. res_bind factory (\<lambda>(metadata, _). Inr (q, chooser_init q metadata, updateResults q)))"

definition browser_template :: "i18n \<Rightarrow> nat \<Rightarrow> jsval" where
  "browser_template tr refreshButton =
     el ''DIV'' [(''cls'', Str ''uiBrowser''), (''children'', Arr [
       toolbar_template (Str (tr ''Browser.Title'' [])) [] [Widget refreshButton],
       el ''DIV'' [(''cls'', Str ''uiBrowser-filter'')],
       el ''DIV'' [(''cls'', Str ''uiBrowser-table'')]])]"

text \<open>What a click on the header cell of a column of the shown results does.\<close>

definition header_clicked :: "i18n \<Rightarrow> (string \<Rightarrow> string option) \<Rightarrow> response \<Rightarrow> string \<Rightarrow> query \<Rightarrow> query \<times> (string \<times> search \<times> snapshot)" where
  "header_clicked tr names res column q =
     changeSort_handler (headerClick_event (ds_sort (query_source tr names (search q) res)) column) q"

text \<open>C20: A click on a column header posts a search that starts at the first hit and is sorted by that column first; its
  results show the column in the other direction than before, descending at the first click, so that a second click turns
  the order round.\<close>

theorem header_click_turns:
  "fst (snd (snd (header_clicked tr names res column q))) = search (fst (header_clicked tr names res column q))
   \<and> page_from (search (fst (header_clicked tr names res column q))) = 0
   \<and> ds_sort (query_source tr names (search (fst (header_clicked tr names res column q))) res') =
       Some (column, if sort_dir (ds_sort (query_source tr names (search q) res)) column = ''desc'' then ''asc'' else ''desc'')
   \<and> sort_dir (ds_sort (query_source tr names
         (search (fst (header_clicked tr names res' column (fst (header_clicked tr names res column q))))) res')) column =
       (if sort_dir (ds_sort (query_source tr names (search q) res)) column = ''desc'' then ''desc'' else ''asc'')"
proof -
  have src: "ds_sort (query_source tr names s r) = Some (case sort_list s of [] \<Rightarrow> (''_score'', ''asc'') | s # _ \<Rightarrow> s)" for s r
    by (simp add: query_source_def split: prod.split)
  have sorts: "sort_list (search (fst (header_clicked tr names r column q))) =
      (column, if sort_dir (ds_sort (query_source tr names (search q) r)) column = ''desc'' then ''asc'' else ''desc'')
        # drop_older column 1 (sort_list (search q))" for r q
    by (simp add: header_clicked_def changeSort_handler_def headerClick_event_def setSort_def setPage_def Let_def)
  have "fst (snd (snd (header_clicked tr names res column q))) = search (fst (header_clicked tr names res column q))"
    "page_from (search (fst (header_clicked tr names res column q))) = 0"
    by (simp_all add: header_clicked_def changeSort_handler_def setPage_def query_post_def Let_def)
  moreover have "ds_sort (query_source tr names (search (fst (header_clicked tr names res column q))) res') =
       Some (column, if sort_dir (ds_sort (query_source tr names (search q) res)) column = ''desc'' then ''asc'' else ''desc'')"
    unfolding src [of "search (fst (header_clicked tr names res column q))"] sorts by simp
  moreover from this have "sort_dir (ds_sort (query_source tr names
         (search (fst (header_clicked tr names res' column (fst (header_clicked tr names res column q))))) res')) column =
       (if sort_dir (ds_sort (query_source tr names (search q) res)) column = ''desc'' then ''desc'' else ''asc'')"
    unfolding src [of "search (fst (header_clicked tr names res' column (fst (header_clicked tr names res column q))))"]
      sorts [of res' "fst (header_clicked tr names res column q)"] by (simp add: sort_dir_def)
  ultimately show ?thesis by (intro conjI)
qed

section \<open>The structured query\<close>

datatype sq_view = Sq_empty | Sq_text string | Sq_json jsval | Sq_csv string | Sq_table data_source

text \<open>One page: its filter browser, its results, and the source of the last search with the raw text under it.\<close>

record sq_page =
  sq_index :: "string option"
  sq_out :: sq_view
  sq_src :: "jsval option"
  sq_src_shown :: bool
  sq_raw :: "string option"

definition sq_init :: sq_page where
  "sq_init = \<lparr> sq_index = None, sq_out = Sq_empty, sq_src = None, sq_src_shown = False, sq_raw = None \<rparr>"

definition indexChanged_handler :: "string \<Rightarrow> sq_page \<Rightarrow> sq_page" where
  "indexChanged_handler index s = s\<lparr> sq_index := Some index \<rparr>"

definition startingSearch :: "i18n \<Rightarrow> sq_page \<Rightarrow> sq_page" where
  "startingSearch tr s = s\<lparr> sq_out := Sq_text (tr ''General.Searching'' []), sq_src_shown := False \<rparr>"

definition jsonResults_handler :: "jsval \<Rightarrow> sq_page \<Rightarrow> sq_page" where
  "jsonResults_handler results s = s\<lparr> sq_out := Sq_json results \<rparr>"

definition csvResults_handler :: "jsval list \<Rightarrow> sq_page \<Rightarrow> sq_page" where
  "csvResults_handler hits s = s\<lparr> sq_out := Sq_csv (csv_text hits) \<rparr>"

text \<open>The table gets a data source of its own, on a query that was never changed.\<close>

definition tableResults_handler :: "i18n \<Rightarrow> (string \<Rightarrow> string option) \<Rightarrow> response \<Rightarrow> sq_page \<Rightarrow> sq_page res" where
  "tableResults_handler tr names res s =
     res_bind (query_init 50) (\<lambda>q. Inr (s\<lparr> sq_out := Sq_table (query_source tr names (search q) res) \<rparr>))"

text \<open>\<open>res\<close> is what the data source reads of the response \<open>results\<close>.\<close>

definition results_handler :: "i18n \<Rightarrow> (string \<Rightarrow> string option) \<Rightarrow> string \<Rightarrow> jsval \<Rightarrow> response \<Rightarrow> sq_page \<Rightarrow> sq_page res" where
  "results_handler tr names type results res s =
     (if type = ''json'' then Inr (jsonResults_handler results s)
      else if type = ''table'' then tableResults_handler tr names res s
      else if type = ''csv'' then Inr (csvResults_handler (r_hits res) s)
      else Inl TypeError)"

definition searchSource_handler :: "jsval \<Rightarrow> sq_page \<Rightarrow> sq_page" where
  "searchSource_handler src s = s\<lparr> sq_src := Some src, sq_src_shown := True, sq_raw := None \<rparr>"

text \<open>
  The button is looked up by its \<open>id\<close> in the whole document, and the text as well: all pages are given, in the
  order of the document. The first button gets the text, once.
\<close>

fun raw_to_first :: "sq_page list \<Rightarrow> sq_page list" where
  "raw_to_first [] = []"
| "raw_to_first (s # ss) = (case sq_src s of Some src \<Rightarrow> s\<lparr> sq_raw := Some (stringify src) \<rparr> # ss | None \<Rightarrow> s # raw_to_first ss)"

definition showRawJSON :: "sq_page list \<Rightarrow> sq_page list" where
  "showRawJSON pages = (if list_ex (\<lambda>s. sq_raw s \<noteq> None) pages then pages else raw_to_first pages)"

definition structuredQuery_template :: "nat \<Rightarrow> jsval" where
  "structuredQuery_template selector =
     el ''DIV'' [(''cls'', Str ''uiStructuredQuery''), (''children'', Arr [
       Widget selector,
       el ''DIV'' [(''cls'', Str ''uiStructuredQuery-body'')],
       el ''DIV'' [(''cls'', Str ''uiStructuredQuery-src''), (''css'', Obj [(''display'', Str ''none'')])],
       el ''DIV'' [(''cls'', Str ''uiStructuredQuery-out'')]])]"

text \<open>The raw text is that of the page in front, and no second page gets one while the first has it.\<close>

lemma raw_json_once:
  "list_ex (\<lambda>s. sq_raw s \<noteq> None) (showRawJSON pages) \<Longrightarrow> showRawJSON (showRawJSON pages) = showRawJSON pages"
  by (simp add: showRawJSON_def)

lemma raw_json_first:
  assumes "sq_src a = Some x" "sq_raw a = None" "sq_raw b = None"
  shows "showRawJSON [a, b] = [a\<lparr> sq_raw := Some (stringify x) \<rparr>, b]"
  using assms by (simp add: showRawJSON_def)

end
