(* ===== verification/Clusterer.thy ===== *)
theory Clusterer
  imports Complex_Main Prelude "HOL-Library.Multiset"
begin

text \<open>
  The clustering of markers on the map of the houses, \<^verbatim>\<open>soufang/.../js/baidu-map/MarkerClusterer.js\<close>.
  The map itself (its view, projection, distances and rectangles) is a parameter, a record of functions that changes when
  the user moves or zooms; coordinates are rational numbers. Markers, icons and labels are numbers; the overlays are those
  that lie on the map, each once, as the map allows. What is left of a step that throws is not modelled.
\<close>

section \<open>The map\<close>

type_synonym point = "rat \<times> rat"

text \<open>The south-western and the north-eastern corner; a point is its longitude and latitude, a pixel its column and row.\<close>

record bounds =
  sw_pt :: point
  ne_pt :: point

record bmap =
  mp_view :: bounds
  mp_zoom :: int
  to_pixel :: "point \<Rightarrow> point"
  to_point :: "point \<Rightarrow> point"
  map_distance :: "point \<Rightarrow> point \<Rightarrow> rat"
  contains_point :: "bounds \<Rightarrow> point \<Rightarrow> bool"
  extend_to :: "bounds \<Rightarrow> point \<Rightarrow> bounds"

definition getRange :: "rat \<Rightarrow> rat \<Rightarrow> rat \<Rightarrow> rat" where
  "getRange i mix mx = (let i1 = (if mix \<noteq> 0 then max i mix else i) in if mx \<noteq> 0 then min i1 mx else i1)"

definition cutBoundsInRange :: "bounds \<Rightarrow> bounds" where
  "cutBoundsInRange b =
     \<lparr> sw_pt = (getRange (fst (sw_pt b)) (-180) 180, getRange (snd (sw_pt b)) (-74) 74),
       ne_pt = (getRange (fst (ne_pt b)) (-180) 180, getRange (snd (ne_pt b)) (-74) 74) \<rparr>"

definition getExtendedBounds :: "bmap \<Rightarrow> bounds \<Rightarrow> rat \<Rightarrow> bounds" where
  "getExtendedBounds mp b gridSize =
     (let cut = cutBoundsInRange b;
          pixelNE = to_pixel mp (ne_pt cut);
          pixelSW = to_pixel mp (sw_pt cut);
          pixelNE' = (fst pixelNE + gridSize, snd pixelNE - gridSize);
          pixelSW' = (fst pixelSW - gridSize, snd pixelSW + gridSize)
      in \<lparr> sw_pt = to_point mp pixelSW', ne_pt = to_point mp pixelNE' \<rparr>)"

section \<open>The state\<close>

datatype map_overlay = On_marker nat | On_icon nat | On_label nat

record cluster_rec =
  cl_center :: "point option"
  cl_markers :: "nat list"
  cl_grid :: "bounds option"
  cl_isReal :: bool
  cl_labels :: "nat list"
  cl_icon :: nat
  cl_value :: nat
  cl_position :: "point option"
  cl_clicks :: "point list"
  cl_hidden :: bool
  cl_min :: nat
  cl_avg :: bool
  cl_styles :: "string list"

record clusterer =
  mc_markers :: "nat list"
  mc_clusters :: "cluster_rec list"
  mc_gridSize :: rat
  mc_maxZoom :: int
  mc_min :: nat
  mc_avg :: bool
  mc_styles :: "string list"
  mc_in :: "nat \<Rightarrow> bool"
  mc_overlays :: "map_overlay list"
  mc_next :: nat

definition add_overlay :: "map_overlay \<Rightarrow> clusterer \<Rightarrow> clusterer" where
  "add_overlay v s = s\<lparr> mc_overlays := (if v \<in> set (mc_overlays s) then mc_overlays s else mc_overlays s @ [v]) \<rparr>"

definition remove_overlay :: "map_overlay \<Rightarrow> clusterer \<Rightarrow> clusterer" where
  "remove_overlay v s = s\<lparr> mc_overlays := filter (\<lambda>x. x \<noteq> v) (mc_overlays s) \<rparr>"

section \<open>A cluster\<close>

definition new_cluster :: "clusterer \<Rightarrow> cluster_rec \<times> clusterer" where
  "new_cluster s =
     (\<lparr> cl_center = None, cl_markers = [], cl_grid = None, cl_isReal = False, cl_labels = [], cl_icon = mc_next s, cl_value = 0,
        cl_position = None, cl_clicks = [], cl_hidden = False, cl_min = mc_min s, cl_avg = mc_avg s, cl_styles = mc_styles s \<rparr>,
      s\<lparr> mc_next := Suc (mc_next s) \<rparr>)"

definition updateGridBounds :: "bmap \<Rightarrow> rat \<Rightarrow> cluster_rec \<Rightarrow> cluster_rec" where
  "updateGridBounds mp gridSize c =
     (case cl_center c of
        None \<Rightarrow> c
      | Some ce \<Rightarrow> c\<lparr> cl_grid := Some (getExtendedBounds mp \<lparr> sw_pt = ce, ne_pt = ce \<rparr> gridSize) \<rparr>)"

text \<open>A label takes its colour from the first style, and there may be none.\<close>

definition addLabel :: "cluster_rec \<times> clusterer \<Rightarrow> (cluster_rec \<times> clusterer) res" where
  "addLabel cs =
     (case cs of (c, s) \<Rightarrow>
        if cl_styles c = [] then Inl TypeError
        else Inr (c\<lparr> cl_labels := cl_labels c @ [mc_next s] \<rparr>, add_overlay (On_label (mc_next s)) (s\<lparr> mc_next := Suc (mc_next s) \<rparr>)))"

fun addLabels :: "nat list \<Rightarrow> cluster_rec \<times> clusterer \<Rightarrow> (cluster_rec \<times> clusterer) res" where
  "addLabels [] cs = Inr cs"
| "addLabels (m # ms) cs = res_bind (addLabel cs) (addLabels ms)"

text \<open>A click handler that shows the centre of this moment is added each time.\<close>

definition updateClusterMarker :: "bmap \<Rightarrow> cluster_rec \<times> clusterer \<Rightarrow> (cluster_rec \<times> clusterer) res" where
  "updateClusterMarker mp cs =
     (case cs of (c, s) \<Rightarrow>
        if mp_zoom mp > mc_maxZoom s then addLabels (cl_markers c) (c, remove_overlay (On_icon (cl_icon c)) s)
        else if length (cl_markers c) < cl_min c then Inr (c\<lparr> cl_hidden := True \<rparr>, s)
        else Inr (c\<lparr> cl_position := cl_center c, cl_value := length (cl_markers c),
                     cl_clicks := cl_clicks c @ (case cl_center c of Some ce \<Rightarrow> [ce] | None \<Rightarrow> []) \<rparr>, s))"

definition move_center :: "bmap \<Rightarrow> rat \<Rightarrow> point \<Rightarrow> cluster_rec \<Rightarrow> cluster_rec" where
  "move_center mp gridSize p c =
     (case cl_center c of
        None \<Rightarrow> updateGridBounds mp gridSize (c\<lparr> cl_center := Some p \<rparr>)
      | Some (lng, lat) \<Rightarrow>
          if cl_avg c
          then let l = of_nat (length (cl_markers c) + 1);
                   lat' = (lat * (l - 1) + snd p) / l;
                   lng' = (lng * (l - 1) + fst p) / l
               in updateGridBounds mp gridSize (c\<lparr> cl_center := Some (lng', lat') \<rparr>)
          else c)"

definition cluster_addMarker :: "bmap \<Rightarrow> (nat \<Rightarrow> point) \<Rightarrow> nat \<Rightarrow> cluster_rec \<times> clusterer \<Rightarrow> (bool \<times> cluster_rec \<times> clusterer) res" where
  "cluster_addMarker mp pos m cs =
     (case cs of (c, s) \<Rightarrow>
        if m \<in> set (cl_markers c) then Inr (False, c, s)
        else let c1 = move_center mp (mc_gridSize s) (pos m) c;
                 s1 = s\<lparr> mc_in := (mc_in s)(m := True) \<rparr>;
                 c2 = c1\<lparr> cl_markers := cl_markers c1 @ [m] \<rparr>;
                 len = length (cl_markers c2)
             in if len < cl_min c2 then Inr (True, c2, add_overlay (On_marker m) s1)
                else let s2 = (if len = cl_min c2 then fold (\<lambda>k. remove_overlay (On_marker k)) (cl_markers c2) s1 else s1)
                     in map_sum id (\<lambda>r. (True, r))
                          (updateClusterMarker mp (c2\<lparr> cl_isReal := True \<rparr>, add_overlay (On_icon (cl_icon c2)) s2)))"

definition cluster_remove :: "cluster_rec \<Rightarrow> clusterer \<Rightarrow> clusterer" where
  "cluster_remove c s = remove_overlay (On_icon (cl_icon c)) (fold (\<lambda>l. remove_overlay (On_label l)) (cl_labels c) s)"

definition cluster_getBounds :: "bmap \<Rightarrow> (nat \<Rightarrow> point) \<Rightarrow> cluster_rec \<Rightarrow> bounds option" where
  "cluster_getBounds mp pos c =
     map_option (\<lambda>ce. fold (\<lambda>m b. extend_to mp b (pos m)) (cl_markers c) \<lparr> sw_pt = ce, ne_pt = ce \<rparr>) (cl_center c)"

text \<open>A click on the icon: every handler in turn zooms in to 14 at least and moves to its centre.\<close>

definition icon_click :: "cluster_rec \<Rightarrow> int \<times> point \<Rightarrow> int \<times> point" where
  "icon_click c = fold (\<lambda>ce (zoom, center). (if zoom > 14 then zoom else 14, ce)) (cl_clicks c)"

section \<open>The clusterer\<close>

text \<open>The first of the nearest centres, if it is nearer than 4000 km.\<close>

fun nearest_from :: "bmap \<Rightarrow> point \<Rightarrow> nat \<Rightarrow> rat \<Rightarrow> nat option \<Rightarrow> point option list \<Rightarrow> nat option" where
  "nearest_from mp p i distance best [] = best"
| "nearest_from mp p i distance best (None # cs) = nearest_from mp p (Suc i) distance best cs"
| "nearest_from mp p i distance best (Some ce # cs) =
     (let d = map_distance mp ce p
      in if d < distance then nearest_from mp p (Suc i) d (Some i) cs else nearest_from mp p (Suc i) distance best cs)"

definition nearest :: "bmap \<Rightarrow> point \<Rightarrow> point option list \<Rightarrow> nat option" where
  "nearest mp p cs = nearest_from mp p 0 4000000 None cs"

definition in_grid :: "bmap \<Rightarrow> (nat \<Rightarrow> point) \<Rightarrow> nat \<Rightarrow> cluster_rec \<Rightarrow> bool res" where
  "in_grid mp pos m c = (case cl_grid c of None \<Rightarrow> Inl TypeError | Some g \<Rightarrow> Inr (contains_point mp g (pos m)))"

definition own_cluster :: "bmap \<Rightarrow> (nat \<Rightarrow> point) \<Rightarrow> nat \<Rightarrow> clusterer \<Rightarrow> clusterer res" where
  "own_cluster mp pos m s =
     res_bind (cluster_addMarker mp pos m (new_cluster s)) (\<lambda>(_, c, s1). Inr (s1\<lparr> mc_clusters := mc_clusters s1 @ [c] \<rparr>))"

definition addToClosestCluster :: "bmap \<Rightarrow> (nat \<Rightarrow> point) \<Rightarrow> nat \<Rightarrow> clusterer \<Rightarrow> clusterer res" where
  "addToClosestCluster mp pos m s =
     (case nearest mp (pos m) (map cl_center (mc_clusters s)) of
        None \<Rightarrow> own_cluster mp pos m s
      | Some i \<Rightarrow>
          res_bind (in_grid mp pos m (mc_clusters s ! i)) (\<lambda>near.
            if near
            then res_bind (cluster_addMarker mp pos m (mc_clusters s ! i, s)) (\<lambda>(_, c, s1). Inr (s1\<lparr> mc_clusters := (mc_clusters s1)[i := c] \<rparr>))
            else own_cluster mp pos m s))"

text \<open>The view is read once, before the loop.\<close>

fun create_loop :: "bmap \<Rightarrow> (nat \<Rightarrow> point) \<Rightarrow> bounds \<Rightarrow> nat list \<Rightarrow> clusterer \<Rightarrow> clusterer res" where
  "create_loop mp pos ext [] s = Inr s"
| "create_loop mp pos ext (m # ms) s =
     (if \<not> mc_in s m \<and> contains_point mp ext (pos m)
      then res_bind (addToClosestCluster mp pos m s) (create_loop mp pos ext ms)
      else create_loop mp pos ext ms s)"

definition extended_view :: "bmap \<Rightarrow> rat \<Rightarrow> bounds" where
  "extended_view mp gridSize = getExtendedBounds mp (mp_view mp) gridSize"

definition createClusters :: "bmap \<Rightarrow> (nat \<Rightarrow> point) \<Rightarrow> clusterer \<Rightarrow> clusterer res" where
  "createClusters mp pos s = create_loop mp pos (extended_view mp (mc_gridSize s)) (mc_markers s) s"

text \<open>\<open>marker.isInCluster = false\<close>.\<close>

definition unflag :: "nat \<Rightarrow> clusterer \<Rightarrow> clusterer" where
  "unflag m s = s\<lparr> mc_in := (mc_in s)(m := False) \<rparr>"

definition pushMarkerTo :: "nat \<Rightarrow> clusterer \<Rightarrow> clusterer" where
  "pushMarkerTo m s =
     (if m \<in> set (mc_markers s) then s else (unflag m s)\<lparr> mc_markers := mc_markers s @ [m] \<rparr>)"

definition addMarkers :: "bmap \<Rightarrow> (nat \<Rightarrow> point) \<Rightarrow> nat list \<Rightarrow> clusterer \<Rightarrow> clusterer res" where
  "addMarkers mp pos ms s = createClusters mp pos (fold pushMarkerTo ms s)"

definition addMarker :: "bmap \<Rightarrow> (nat \<Rightarrow> point) \<Rightarrow> nat \<Rightarrow> clusterer \<Rightarrow> clusterer res" where
  "addMarker mp pos m s = createClusters mp pos (pushMarkerTo m s)"

definition removeMarkersFromCluster :: "clusterer \<Rightarrow> clusterer" where
  "removeMarkersFromCluster s = fold unflag (mc_markers s) s"

definition clearLastClusters :: "clusterer \<Rightarrow> clusterer" where
  "clearLastClusters s = removeMarkersFromCluster ((fold cluster_remove (mc_clusters s) s)\<lparr> mc_clusters := [] \<rparr>)"

definition redraw :: "bmap \<Rightarrow> (nat \<Rightarrow> point) \<Rightarrow> clusterer \<Rightarrow> clusterer res" where
  "redraw mp pos s = createClusters mp pos (clearLastClusters s)"

definition removeMarker1 :: "nat \<Rightarrow> clusterer \<Rightarrow> bool \<times> clusterer" where
  "removeMarker1 m s =
     (case find_index (\<lambda>x. x = m) (mc_markers s) of
        None \<Rightarrow> (False, s)
      | Some index \<Rightarrow> let s1 = remove_overlay (On_marker m) s in (True, s1\<lparr> mc_markers := splice1 index (mc_markers s1) \<rparr>))"

definition mc_removeMarker :: "bmap \<Rightarrow> (nat \<Rightarrow> point) \<Rightarrow> nat \<Rightarrow> clusterer \<Rightarrow> (bool \<times> clusterer) res" where
  "mc_removeMarker mp pos m s =
     (case removeMarker1 m s of (success, s1) \<Rightarrow>
        if success then map_sum id (\<lambda>s2. (True, s2)) (redraw mp pos s1) else Inr (False, s1))"

definition mc_removeMarkers :: "bmap \<Rightarrow> (nat \<Rightarrow> point) \<Rightarrow> nat list \<Rightarrow> clusterer \<Rightarrow> (bool \<times> clusterer) res" where
  "mc_removeMarkers mp pos ms s =
     (case fold (\<lambda>m (success, s). case removeMarker1 m s of (r, s1) \<Rightarrow> (success \<or> r, s1)) ms (False, s) of (success, s1) \<Rightarrow>
        if success then map_sum id (\<lambda>s2. (True, s2)) (redraw mp pos s1) else Inr (False, s1))"

definition removeMarkersFromMap :: "clusterer \<Rightarrow> clusterer" where
  "removeMarkersFromMap s = fold (\<lambda>m s. remove_overlay (On_marker m) (unflag m s)) (mc_markers s) s"

definition clearMarkers :: "clusterer \<Rightarrow> clusterer" where
  "clearMarkers s = (removeMarkersFromMap (clearLastClusters s))\<lparr> mc_markers := [] \<rparr>"

definition setGridSize :: "bmap \<Rightarrow> (nat \<Rightarrow> point) \<Rightarrow> rat \<Rightarrow> clusterer \<Rightarrow> clusterer res" where
  "setGridSize mp pos v s = redraw mp pos (s\<lparr> mc_gridSize := v \<rparr>)"

definition setMaxZoom :: "bmap \<Rightarrow> (nat \<Rightarrow> point) \<Rightarrow> int \<Rightarrow> clusterer \<Rightarrow> clusterer res" where
  "setMaxZoom mp pos v s = redraw mp pos (s\<lparr> mc_maxZoom := v \<rparr>)"

definition setStyles :: "bmap \<Rightarrow> (nat \<Rightarrow> point) \<Rightarrow> string list \<Rightarrow> clusterer \<Rightarrow> clusterer res" where
  "setStyles mp pos v s = redraw mp pos (s\<lparr> mc_styles := v \<rparr>)"

definition setMinClusterSize :: "bmap \<Rightarrow> (nat \<Rightarrow> point) \<Rightarrow> nat \<Rightarrow> clusterer \<Rightarrow> clusterer res" where
  "setMinClusterSize mp pos v s = redraw mp pos (s\<lparr> mc_min := v \<rparr>)"

definition getClustersCount :: "clusterer \<Rightarrow> nat" where
  "getClustersCount s = length (filter cl_isReal (mc_clusters s))"

text \<open>The options, each with its default when it is missing or falsy.\<close>

record mc_options =
  op_gridSize :: "rat option"
  op_maxZoom :: "int option"
  op_min :: "nat option"
  op_avg :: bool
  op_styles :: "string list"
  op_markers :: "nat list"

definition or_default :: "'a::zero \<Rightarrow> 'a option \<Rightarrow> 'a" where
  "or_default d v = (case v of Some x \<Rightarrow> if x \<noteq> 0 then x else d | None \<Rightarrow> d)"

definition mc_init :: "bmap \<Rightarrow> (nat \<Rightarrow> point) \<Rightarrow> mc_options \<Rightarrow> clusterer res" where
  "mc_init mp pos opts =
     addMarkers mp pos (op_markers opts)
       \<lparr> mc_markers = [], mc_clusters = [], mc_gridSize = or_default 60 (op_gridSize opts), mc_maxZoom = or_default 18 (op_maxZoom opts),
         mc_min = or_default 1 (op_min opts), mc_avg = op_avg opts, mc_styles = op_styles opts, mc_in = (\<lambda>_. False),
         mc_overlays = [], mc_next = 0 \<rparr>"

section \<open>The abstract clustering\<close>

text \<open>A group is a centre with its markers; a marker joins the nearest group if it lies in its square, else it founds one.\<close>

type_synonym group = "point \<times> nat list"

definition grid_at :: "bmap \<Rightarrow> rat \<Rightarrow> point \<Rightarrow> bounds" where
  "grid_at mp gridSize ce = getExtendedBounds mp \<lparr> sw_pt = ce, ne_pt = ce \<rparr> gridSize"

definition new_center :: "bool \<Rightarrow> point \<Rightarrow> group \<Rightarrow> point" where
  "new_center avg p k =
     (if avg
      then let l = of_nat (length (snd k) + 1)
           in ((fst (fst k) * (l - 1) + fst p) / l, (snd (fst k) * (l - 1) + snd p) / l)
      else fst k)"

definition place :: "bmap \<Rightarrow> (nat \<Rightarrow> point) \<Rightarrow> rat \<Rightarrow> bool \<Rightarrow> nat \<Rightarrow> group list \<Rightarrow> group list" where
  "place mp pos gridSize avg m ks =
     (case nearest mp (pos m) (map (Some \<circ> fst) ks) of
        None \<Rightarrow> ks @ [(pos m, [m])]
      | Some i \<Rightarrow>
          if contains_point mp (grid_at mp gridSize (fst (ks ! i))) (pos m)
          then ks[i := (new_center avg (pos m) (ks ! i), snd (ks ! i) @ [m])]
          else ks @ [(pos m, [m])])"

definition visible :: "bmap \<Rightarrow> (nat \<Rightarrow> point) \<Rightarrow> rat \<Rightarrow> nat \<Rightarrow> bool" where
  "visible mp pos gridSize m \<longleftrightarrow> contains_point mp (extended_view mp gridSize) (pos m)"

definition grouping :: "bmap \<Rightarrow> (nat \<Rightarrow> point) \<Rightarrow> rat \<Rightarrow> bool \<Rightarrow> nat list \<Rightarrow> group list" where
  "grouping mp pos gridSize avg ms = fold (place mp pos gridSize avg) (filter (visible mp pos gridSize) ms) []"

lemma nearest_from_bound: "nearest_from mp p i d best cs = Some j \<Longrightarrow> best = Some j \<or> i \<le> j \<and> j < i + length cs"
proof (induction cs arbitrary: i d best)
  case (Cons c cs)
  then show ?case by (cases c) (fastforce simp: Let_def split: if_splits)+
qed simp

lemma nearest_bound: "nearest mp p cs = Some j \<Longrightarrow> j < length cs"
  using nearest_from_bound [of mp p 0 4000000 None cs j] by (simp add: nearest_def)

lemma nearest_from_least:
  "nearest_from mp p i d best (map Some ps) = Some j \<Longrightarrow>
   (i \<le> j \<and> j < i + length ps \<and> map_distance mp (ps ! (j - i)) p < d
      \<and> (\<forall>q \<in> set ps. map_distance mp (ps ! (j - i)) p \<le> map_distance mp q p))
     \<or> (best = Some j \<and> (\<forall>q \<in> set ps. d \<le> map_distance mp q p))"
proof (induction ps arbitrary: i d best)
  case (Cons c ps)
  show ?case
  proof (cases "map_distance mp c p < d")
    case True
    then have "nearest_from mp p (Suc i) (map_distance mp c p) (Some i) (map Some ps) = Some j"
      using Cons.prems(1) by simp
    from Cons.IH [OF this] True show ?thesis
      by (elim disjE) (auto simp: nth_Cons')
  next
    case False
    then have "nearest_from mp p (Suc i) d best (map Some ps) = Some j" using Cons.prems(1) by simp
    from Cons.IH [OF this] False show ?thesis
      by (elim disjE) (auto simp: nth_Cons')
  qed
qed simp

text \<open>What the loop over the clusters finds.\<close>

lemma nearest_least:
  assumes "nearest mp p (map Some ps) = Some j"
  shows "j < length ps \<and> map_distance mp (ps ! j) p < 4000000 \<and> (\<forall>q \<in> set ps. map_distance mp (ps ! j) p \<le> map_distance mp q p)"
  using nearest_from_least [of mp p 0 4000000 None ps j] assms by (simp add: nearest_def)

lemma mset_concat_update:
  "i < length xss \<Longrightarrow> mset (concat (xss[i := xss ! i @ ys])) = mset (concat xss) + mset ys"
proof (induction xss arbitrary: i)
  case (Cons xs xss)
  then show ?case by (cases i) simp_all
qed simp

lemma mset_place: "mset (concat (map snd (place mp pos g avg m ks))) = mset (concat (map snd ks)) + {#m#}"
  using mset_concat_update [of _ "map snd ks" "[m]"] nearest_bound [of mp "pos m" "map (Some \<circ> fst) ks"]
  by (auto simp: place_def map_update split: option.split)

lemma mset_place_fold:
  "mset (concat (map snd (fold (place mp pos g avg) ms ks))) = mset (concat (map snd ks)) + mset ms"
  by (induction ms arbitrary: ks) (simp_all add: mset_place)

lemma mset_grouping: "mset (concat (map snd (grouping mp pos g avg ms))) = mset (filter (visible mp pos g) ms)"
  by (simp add: grouping_def mset_place_fold)

lemma place_nonempty: "\<forall>k \<in> set ks. snd k \<noteq> [] \<Longrightarrow> \<forall>k \<in> set (place mp pos g avg m ks). snd k \<noteq> []"
  by (auto simp: place_def split: option.split dest!: subsetD [OF set_update_subset_insert])

section \<open>The clusters implement the groups\<close>

definition groups :: "clusterer \<Rightarrow> group list" where
  "groups s = map (\<lambda>c. (the (cl_center c), cl_markers c)) (mc_clusters s)"

definition same_frame :: "clusterer \<Rightarrow> clusterer \<Rightarrow> bool" where
  "same_frame s s' \<longleftrightarrow> mc_markers s' = mc_markers s \<and> mc_clusters s' = mc_clusters s \<and> mc_gridSize s' = mc_gridSize s
     \<and> mc_avg s' = mc_avg s \<and> mc_maxZoom s' = mc_maxZoom s \<and> mc_min s' = mc_min s \<and> mc_styles s' = mc_styles s"

definition same_cluster :: "cluster_rec \<Rightarrow> cluster_rec \<Rightarrow> bool" where
  "same_cluster c c' \<longleftrightarrow> cl_center c' = cl_center c \<and> cl_markers c' = cl_markers c \<and> cl_grid c' = cl_grid c \<and> cl_avg c' = cl_avg c
     \<and> cl_styles c' = cl_styles c"

lemma same_frame_refl [simp]: "same_frame s s" by (simp add: same_frame_def)
lemma same_frame_trans: "same_frame s t \<Longrightarrow> same_frame t u \<Longrightarrow> same_frame s u" by (simp add: same_frame_def)
lemma same_cluster_refl [simp]: "same_cluster c c" by (simp add: same_cluster_def)

lemma overlay_frame [simp]:
  "same_frame s (add_overlay v s)" "same_frame s (remove_overlay v s)"
  "mc_in (add_overlay v s) = mc_in s" "mc_in (remove_overlay v s) = mc_in s"
  by (simp_all add: same_frame_def add_overlay_def remove_overlay_def)

lemma fold_overlay_frame: "same_frame s (fold (\<lambda>k. remove_overlay (f k)) ks s) \<and> mc_in (fold (\<lambda>k. remove_overlay (f k)) ks s) = mc_in s"
proof (induction ks arbitrary: s)
  case (Cons k ks)
  then show ?case using same_frame_trans [OF overlay_frame(2) [of s "f k"]] by simp
qed simp

lemma addLabels_frame:
  "addLabels ms cs = Inr cs' \<Longrightarrow> same_cluster (fst cs) (fst cs') \<and> same_frame (snd cs) (snd cs') \<and> mc_in (snd cs') = mc_in (snd cs)"
proof (induction ms arbitrary: cs)
  case (Cons m ms)
  from Cons.prems obtain ds where ds: "addLabel cs = Inr ds" "addLabels ms ds = Inr cs'" by auto
  have "same_cluster (fst cs) (fst ds) \<and> same_frame (snd cs) (snd ds) \<and> mc_in (snd ds) = mc_in (snd cs)"
    using ds(1) by (cases cs) (auto simp: addLabel_def same_cluster_def same_frame_def add_overlay_def split: if_splits)
  with Cons.IH [OF ds(2)] show ?case by (auto simp: same_cluster_def same_frame_def)
qed simp

lemma updateClusterMarker_frame:
  assumes "updateClusterMarker mp (c, s) = Inr (c', s')"
  shows "same_cluster c c' \<and> same_frame s s' \<and> mc_in s' = mc_in s"
proof (cases "mp_zoom mp > mc_maxZoom s")
  case True
  with assms have "addLabels (cl_markers c) (c, remove_overlay (On_icon (cl_icon c)) s) = Inr (c', s')"
    by (simp add: updateClusterMarker_def)
  from addLabels_frame [OF this] show ?thesis
    by (auto intro: same_frame_trans [OF overlay_frame(2)])
next
  case False
  with assms show ?thesis by (auto simp: updateClusterMarker_def same_cluster_def split: if_splits)
qed

text \<open>A cluster that is in the list has a centre, the square around it and a marker.\<close>

definition cluster_ok :: "bmap \<Rightarrow> clusterer \<Rightarrow> cluster_rec \<Rightarrow> bool" where
  "cluster_ok mp s c \<longleftrightarrow> cl_center c \<noteq> None \<and> cl_grid c = map_option (grid_at mp (mc_gridSize s)) (cl_center c)
     \<and> cl_avg c = mc_avg s \<and> cl_styles c = mc_styles s \<and> cl_markers c \<noteq> []"

definition after_add :: "bmap \<Rightarrow> (nat \<Rightarrow> point) \<Rightarrow> nat \<Rightarrow> cluster_rec \<Rightarrow> clusterer \<Rightarrow> cluster_rec \<Rightarrow> bool" where
  "after_add mp pos m c s c' \<longleftrightarrow> cluster_ok mp s c' \<and> cl_markers c' = cl_markers c @ [m]
     \<and> cl_center c' = Some (case cl_center c of None \<Rightarrow> pos m | Some ce \<Rightarrow> new_center (mc_avg s) (pos m) (ce, cl_markers c))"

lemma after_add_same: "same_cluster c1 c2 \<Longrightarrow> after_add mp pos m c s c1 \<Longrightarrow> after_add mp pos m c s c2"
  by (simp add: after_add_def cluster_ok_def same_cluster_def)

lemma move_center_after:
  assumes "cl_avg c = mc_avg s" "cl_styles c = mc_styles s" "cl_center c = None \<or> cluster_ok mp s c"
  shows "after_add mp pos m c s ((move_center mp (mc_gridSize s) (pos m) c)\<lparr> cl_markers := cl_markers (move_center mp (mc_gridSize s) (pos m) c) @ [m] \<rparr>)"
  using assms
  by (cases "cl_center c")
    (auto simp: after_add_def cluster_ok_def move_center_def updateGridBounds_def grid_at_def new_center_def Let_def split: prod.split)

lemma move_center_markers [simp]: "cl_markers (move_center mp g p c) = cl_markers c"
  by (auto simp: move_center_def updateGridBounds_def Let_def split: option.split prod.split)

lemma map_sum_Inr [simp]: "map_sum id f x = Inr y \<longleftrightarrow> (\<exists>z. x = Inr z \<and> y = f z)"
  by (cases x) auto

lemma cluster_addMarker_after:
  assumes "cluster_addMarker mp pos m (c, s) = Inr (r, c', s')" "m \<notin> set (cl_markers c)"
    "cl_avg c = mc_avg s" "cl_styles c = mc_styles s" "cl_center c = None \<or> cluster_ok mp s c"
  shows "r \<and> after_add mp pos m c s c' \<and> same_frame s s' \<and> mc_in s' = (mc_in s)(m := True)"
proof -
  define c2 where "c2 = (move_center mp (mc_gridSize s) (pos m) c)\<lparr> cl_markers := cl_markers c @ [m] \<rparr>"
  define s1 where "s1 = s\<lparr> mc_in := (mc_in s)(m := True) \<rparr>"
  have c2: "after_add mp pos m c s c2" using move_center_after [OF assms(3-5)] by (simp add: c2_def)
  have s1: "same_frame s s1" "mc_in s1 = (mc_in s)(m := True)" by (simp_all add: s1_def same_frame_def)
  show ?thesis
  proof (cases "length (cl_markers c2) < cl_min c2")
    case True
    with assms(1,2) have "r" "c' = c2" "s' = add_overlay (On_marker m) s1"
      by (simp_all add: cluster_addMarker_def Let_def c2_def s1_def)
    with c2 s1 same_frame_trans [OF s1(1) overlay_frame(1)] show ?thesis by simp
  next
    case False
    define s2 where "s2 = (if length (cl_markers c2) = cl_min c2 then fold (\<lambda>k. remove_overlay (On_marker k)) (cl_markers c2) s1 else s1)"
    define s3 where "s3 = add_overlay (On_icon (cl_icon c2)) s2"
    from False assms(1,2) have "r" "updateClusterMarker mp (c2\<lparr> cl_isReal := True \<rparr>, s3) = Inr (c', s')"
      by (simp_all add: cluster_addMarker_def Let_def c2_def s1_def s2_def s3_def split: if_splits)
    from updateClusterMarker_frame [OF this(2)]
    have u: "same_cluster c2 c'" "same_frame s3 s'" "mc_in s' = mc_in s3" by (simp_all add: same_cluster_def)
    have "same_frame s1 s2" "mc_in s2 = mc_in s1" using fold_overlay_frame by (auto simp: s2_def)
    then have "same_frame s s'" "mc_in s' = (mc_in s)(m := True)"
      using s1 u(2,3) by (auto simp: s3_def same_frame_def add_overlay_def)
    with \<open>r\<close> after_add_same [OF u(1) c2] show ?thesis by simp
  qed
qed

definition same_opts :: "clusterer \<Rightarrow> clusterer \<Rightarrow> bool" where
  "same_opts s s' \<longleftrightarrow> mc_markers s' = mc_markers s \<and> mc_gridSize s' = mc_gridSize s \<and> mc_avg s' = mc_avg s
     \<and> mc_maxZoom s' = mc_maxZoom s \<and> mc_min s' = mc_min s \<and> mc_styles s' = mc_styles s"

lemma same_opts_refl [simp]: "same_opts s s" by (simp add: same_opts_def)
lemma same_opts_trans: "same_opts s t \<Longrightarrow> same_opts t u \<Longrightarrow> same_opts s u" by (simp add: same_opts_def)

definition clusters_ok :: "bmap \<Rightarrow> clusterer \<Rightarrow> bool" where
  "clusters_ok mp s \<longleftrightarrow> (\<forall>c \<in> set (mc_clusters s). cluster_ok mp s c)"

lemma cluster_ok_opts: "same_opts s s' \<Longrightarrow> cluster_ok mp s' c = cluster_ok mp s c"
  by (simp add: cluster_ok_def same_opts_def)

lemma own_cluster_groups:
  assumes "own_cluster mp pos m s = Inr s'" "clusters_ok mp s"
  shows "groups s' = groups s @ [(pos m, [m])] \<and> clusters_ok mp s' \<and> same_opts s s' \<and> mc_in s' = (mc_in s)(m := True)"
proof -
  obtain c0 s0 where new: "new_cluster s = (c0, s0)" by (cases "new_cluster s")
  then have c0: "cl_markers c0 = []" "cl_avg c0 = mc_avg s0" "cl_styles c0 = mc_styles s0" "cl_center c0 = None"
    and s0: "same_frame s s0" "mc_in s0 = mc_in s"
    by (auto simp: new_cluster_def same_frame_def)
  from assms(1) new obtain r c s1 where add: "cluster_addMarker mp pos m (c0, s0) = Inr (r, c, s1)"
    and s': "s' = s1\<lparr> mc_clusters := mc_clusters s1 @ [c] \<rparr>" by (auto simp: own_cluster_def)
  have a: "after_add mp pos m c0 s0 c" "same_frame s0 s1" "mc_in s1 = (mc_in s0)(m := True)"
    using cluster_addMarker_after [OF add] c0 by auto
  have f: "same_frame s s1" using same_frame_trans [OF s0(1) a(2)] .
  then have opts: "same_opts s s'" by (simp add: s' same_opts_def same_frame_def)
  have "same_opts s0 s'" using opts s0(1) by (simp add: same_opts_def same_frame_def)
  then have "cluster_ok mp s' c" using a(1) by (simp add: after_add_def cluster_ok_opts)
  moreover have "cluster_ok mp s' d" if "d \<in> set (mc_clusters s)" for d
    using that assms(2) by (simp add: cluster_ok_opts [OF opts] clusters_ok_def)
  moreover have "set (mc_clusters s') = insert c (set (mc_clusters s))" using f by (simp add: s' same_frame_def)
  ultimately have "clusters_ok mp s'" by (simp add: clusters_ok_def)
  moreover have "groups s' = groups s @ [(pos m, [m])]"
    using a(1) c0 f by (simp add: groups_def s' same_frame_def after_add_def)
  ultimately show ?thesis using opts a(3) s0(2) by (simp add: s')
qed

lemma joined_groups:
  assumes "i < length (mc_clusters s)" "cluster_addMarker mp pos m (mc_clusters s ! i, s) = Inr (r, c, s1)"
    "s' = s1\<lparr> mc_clusters := (mc_clusters s1)[i := c] \<rparr>" "clusters_ok mp s" "m \<notin> set (cl_markers (mc_clusters s ! i))"
  shows "groups s' = (groups s)[i := (new_center (mc_avg s) (pos m) (groups s ! i), snd (groups s ! i) @ [m])]
    \<and> clusters_ok mp s' \<and> same_opts s s' \<and> mc_in s' = (mc_in s)(m := True)"
proof -
  have ok: "cluster_ok mp s (mc_clusters s ! i)" using assms(1,4) by (simp add: clusters_ok_def)
  then have avg: "cl_avg (mc_clusters s ! i) = mc_avg s" "cl_styles (mc_clusters s ! i) = mc_styles s" by (simp_all add: cluster_ok_def)
  have a: "after_add mp pos m (mc_clusters s ! i) s c" "same_frame s s1" "mc_in s1 = (mc_in s)(m := True)"
    using cluster_addMarker_after [OF assms(2,5) avg] ok by auto
  have opts: "same_opts s s'" using a(2) by (simp add: assms(3) same_opts_def same_frame_def)
  have "cluster_ok mp s' c" using a(1) by (simp add: after_add_def cluster_ok_opts [OF opts])
  moreover have "cluster_ok mp s' d" if "d \<in> set (mc_clusters s)" for d
    using that assms(4) by (simp add: cluster_ok_opts [OF opts] clusters_ok_def)
  ultimately have "clusters_ok mp s'"
    using a(2) by (auto simp: clusters_ok_def same_frame_def assms(3) dest!: subsetD [OF set_update_subset_insert])
  moreover have "groups s' = (groups s)[i := (the (cl_center c), cl_markers c)]"
    using a(2) by (simp add: groups_def assms(3) same_frame_def map_update)
  moreover obtain ce where "cl_center (mc_clusters s ! i) = Some ce" using ok by (auto simp: cluster_ok_def)
  ultimately show ?thesis using a opts assms(1) by (simp add: groups_def after_add_def assms(3))
qed

lemma groups_centers: "clusters_ok mp s \<Longrightarrow> map cl_center (mc_clusters s) = map (Some \<circ> fst) (groups s)"
  by (auto simp: groups_def clusters_ok_def cluster_ok_def)

lemma addToClosest_place:
  assumes "addToClosestCluster mp pos m s = Inr s'" "clusters_ok mp s" "m \<notin> set (concat (map snd (groups s)))"
  shows "groups s' = place mp pos (mc_gridSize s) (mc_avg s) m (groups s) \<and> clusters_ok mp s' \<and> same_opts s s'
    \<and> mc_in s' = (mc_in s)(m := True)"
proof (cases "nearest mp (pos m) (map (Some \<circ> fst) (groups s))")
  case None
  then have "own_cluster mp pos m s = Inr s'" using assms(1) by (simp add: addToClosestCluster_def groups_centers [OF assms(2)])
  from own_cluster_groups [OF this assms(2)] None show ?thesis by (simp add: place_def)
next
  case (Some i)
  then have i: "i < length (mc_clusters s)" using nearest_bound [OF Some] by (simp add: groups_def)
  let ?c = "mc_clusters s ! i"
  have ok: "cluster_ok mp s ?c" using i assms(2) by (simp add: clusters_ok_def)
  then have g: "cl_grid ?c = Some (grid_at mp (mc_gridSize s) (fst (groups s ! i)))"
    using i by (auto simp: cluster_ok_def groups_def)
  show ?thesis
  proof (cases "contains_point mp (grid_at mp (mc_gridSize s) (fst (groups s ! i))) (pos m)")
    case True
    with assms(1) Some g obtain r c s1 where add: "cluster_addMarker mp pos m (?c, s) = Inr (r, c, s1)"
      "s' = s1\<lparr> mc_clusters := (mc_clusters s1)[i := c] \<rparr>"
      by (auto simp: addToClosestCluster_def groups_centers [OF assms(2)] in_grid_def)
    have "m \<notin> set (cl_markers ?c)" using assms(3) i by (auto simp: groups_def)
    from joined_groups [OF i add assms(2) this] show ?thesis using Some True by (simp add: place_def)
  next
    case False
    with assms(1) Some g have "own_cluster mp pos m s = Inr s'"
      by (simp add: addToClosestCluster_def groups_centers [OF assms(2)] in_grid_def)
    from own_cluster_groups [OF this assms(2)] Some False show ?thesis by (simp add: place_def)
  qed
qed

section \<open>Every operation leaves the grouping of the markers\<close>

abbreviation grouped :: "clusterer \<Rightarrow> nat set" where
  "grouped s \<equiv> set (concat (map snd (groups s)))"

lemma set_place: "set (concat (map snd (place mp pos g avg m ks))) = insert m (set (concat (map snd ks)))"
  using arg_cong [OF mset_place [of mp pos g avg m ks], of set_mset] by simp

lemma create_loop_groups:
  assumes "create_loop mp pos (extended_view mp (mc_gridSize s)) ms s = Inr s'" "clusters_ok mp s" "distinct ms"
    "\<forall>m \<in> set ms. m \<in> grouped s \<longrightarrow> mc_in s m"
  shows "groups s' = fold (place mp pos (mc_gridSize s) (mc_avg s)) (filter (\<lambda>m. \<not> mc_in s m \<and> visible mp pos (mc_gridSize s) m) ms) (groups s)
    \<and> clusters_ok mp s' \<and> same_opts s s' \<and> (\<forall>m. mc_in s' m \<longleftrightarrow> mc_in s m \<or> m \<in> set ms \<and> visible mp pos (mc_gridSize s) m)"
  using assms
proof (induction ms arbitrary: s)
  case (Cons m ms)
  show ?case
  proof (cases "\<not> mc_in s m \<and> visible mp pos (mc_gridSize s) m")
    case True
    with Cons.prems(1) obtain s1 where s1: "addToClosestCluster mp pos m s = Inr s1"
      "create_loop mp pos (extended_view mp (mc_gridSize s)) ms s1 = Inr s'" by (auto simp: visible_def)
    have "m \<notin> grouped s" using True Cons.prems(4) by auto
    from addToClosest_place [OF s1(1) Cons.prems(2) this]
    have a: "groups s1 = place mp pos (mc_gridSize s) (mc_avg s) m (groups s)" "clusters_ok mp s1" "same_opts s s1"
      "mc_in s1 = (mc_in s)(m := True)" by blast+
    have opts: "mc_gridSize s1 = mc_gridSize s" "mc_avg s1 = mc_avg s" using a(3) by (simp_all add: same_opts_def)
    have "\<forall>k \<in> set ms. k \<in> grouped s1 \<longrightarrow> mc_in s1 k" using Cons.prems(3,4) by (simp only: a(1,4) set_place) auto
    with Cons.IH [of s1] s1(2) a(2) Cons.prems(3) opts
    have ih: "groups s' = fold (place mp pos (mc_gridSize s) (mc_avg s)) (filter (\<lambda>k. \<not> mc_in s1 k \<and> visible mp pos (mc_gridSize s) k) ms) (groups s1)"
      "clusters_ok mp s'" "same_opts s1 s'" "\<forall>k. mc_in s' k \<longleftrightarrow> mc_in s1 k \<or> k \<in> set ms \<and> visible mp pos (mc_gridSize s) k" by auto
    have "filter (\<lambda>k. \<not> mc_in s1 k \<and> visible mp pos (mc_gridSize s) k) ms = filter (\<lambda>k. \<not> mc_in s k \<and> visible mp pos (mc_gridSize s) k) ms"
      using Cons.prems(3) by (intro filter_cong) (auto simp: a(4))
    with ih a(1) True same_opts_trans [OF a(3) ih(3)] show ?thesis by (auto simp: a(4))
  next
    case False
    then have "create_loop mp pos (extended_view mp (mc_gridSize s)) ms s = Inr s'" using Cons.prems(1) by (auto simp: visible_def)
    with Cons.IH [of s] Cons.prems False show ?thesis by auto
  qed
qed simp

lemma frame_opts: "same_frame s s' \<Longrightarrow> same_opts s s'"
  by (simp add: same_frame_def same_opts_def)

text \<open>The state after an operation: the clusters are the grouping of all markers, and the flags say who is in it.\<close>

definition settled :: "bmap \<Rightarrow> (nat \<Rightarrow> point) \<Rightarrow> clusterer \<Rightarrow> bool" where
  "settled mp pos s \<longleftrightarrow> groups s = grouping mp pos (mc_gridSize s) (mc_avg s) (mc_markers s) \<and> clusters_ok mp s
     \<and> distinct (mc_markers s) \<and> (\<forall>m \<in> set (mc_markers s). mc_in s m \<longleftrightarrow> visible mp pos (mc_gridSize s) m)"

lemma set_grouping: "set (concat (map snd (grouping mp pos g avg ms))) = {m \<in> set ms. visible mp pos g m}"
  using arg_cong [OF mset_grouping [of mp pos g avg ms], of set_mset] by simp

lemma settled_add:
  assumes "settled mp pos s" "createClusters mp pos t = Inr s'" "mc_markers t = mc_markers s @ ms" "mc_clusters t = mc_clusters s"
    "mc_gridSize t = mc_gridSize s" "mc_avg t = mc_avg s" "mc_styles t = mc_styles s"
    "distinct ms" "set ms \<inter> set (mc_markers s) = {}" "\<forall>m \<in> set (mc_markers s). mc_in t m = mc_in s m" "\<forall>m \<in> set ms. \<not> mc_in t m"
  shows "settled mp pos s' \<and> mc_markers s' = mc_markers s @ ms"
proof -
  have g: "groups t = groups s" by (simp add: groups_def assms(4))
  have gs: "grouped s = {m \<in> set (mc_markers s). visible mp pos (mc_gridSize s) m}"
    using assms(1) set_grouping by (simp add: settled_def)
  have "clusters_ok mp t" using assms(1,4,5,6,7) by (simp add: settled_def clusters_ok_def cluster_ok_def)
  moreover have "\<forall>m \<in> set (mc_markers t). m \<in> grouped t \<longrightarrow> mc_in t m"
    using assms(1,9,10) unfolding g gs assms(3) by (auto simp: settled_def)
  moreover have "distinct (mc_markers t)" using assms(1,3,8,9) by (auto simp: settled_def)
  ultimately have r: "groups s' = fold (place mp pos (mc_gridSize s) (mc_avg s)) (filter (\<lambda>m. \<not> mc_in t m \<and> visible mp pos (mc_gridSize s) m) (mc_markers t)) (groups s)"
    "clusters_ok mp s'" "same_opts t s'" "\<forall>m. mc_in s' m \<longleftrightarrow> mc_in t m \<or> m \<in> set (mc_markers t) \<and> visible mp pos (mc_gridSize s) m"
    using create_loop_groups [of mp pos t "mc_markers t" s'] assms(2,5,6) by (simp_all add: createClusters_def g)
  have "filter (\<lambda>m. \<not> mc_in t m \<and> visible mp pos (mc_gridSize s) m) (mc_markers s) = []"
    using assms(1,10) by (auto simp: settled_def filter_empty_conv)
  moreover have "filter (\<lambda>m. \<not> mc_in t m \<and> visible mp pos (mc_gridSize s) m) ms = filter (visible mp pos (mc_gridSize s)) ms"
    using assms(11) by (intro filter_cong) auto
  ultimately have "groups s' = grouping mp pos (mc_gridSize s) (mc_avg s) (mc_markers s @ ms)"
    using r(1) assms(1,3) by (simp add: settled_def grouping_def)
  with r(2,3,4) assms(1,3,5-11) show ?thesis by (auto simp: settled_def same_opts_def)
qed

lemma unflag_simps [simp]:
  "mc_markers (unflag m s) = mc_markers s" "mc_clusters (unflag m s) = mc_clusters s" "mc_gridSize (unflag m s) = mc_gridSize s"
  "mc_avg (unflag m s) = mc_avg s" "mc_styles (unflag m s) = mc_styles s" "same_opts s (unflag m s)" "mc_in (unflag m s) k \<longleftrightarrow> mc_in s k \<and> k \<noteq> m"
  by (auto simp: unflag_def same_opts_def)

lemma pushMarkerTo_fold:
  assumes "t = fold pushMarkerTo ms s"
  shows "\<exists>ns. mc_markers t = mc_markers s @ ns \<and> mc_clusters t = mc_clusters s \<and> mc_gridSize t = mc_gridSize s \<and> mc_avg t = mc_avg s
     \<and> mc_styles t = mc_styles s \<and> distinct ns \<and> set ns \<inter> set (mc_markers s) = {} \<and> set ns = set ms - set (mc_markers s)
     \<and> (\<forall>m \<in> set (mc_markers s). mc_in t m = mc_in s m) \<and> (\<forall>m \<in> set ns. \<not> mc_in t m)"
  using assms
proof (induction ms arbitrary: t rule: rev_induct)
  case Nil
  then show ?case by simp
next
  case (snoc m ms)
  define u where "u = fold pushMarkerTo ms s"
  from snoc.IH [OF u_def] obtain ns where ns: "mc_markers u = mc_markers s @ ns" "mc_clusters u = mc_clusters s"
    "mc_gridSize u = mc_gridSize s" "mc_avg u = mc_avg s" "mc_styles u = mc_styles s" "distinct ns" "set ns \<inter> set (mc_markers s) = {}"
    "set ns = set ms - set (mc_markers s)" "\<forall>m \<in> set (mc_markers s). mc_in u m = mc_in s m" "\<forall>m \<in> set ns. \<not> mc_in u m" by blast
  have t: "t = pushMarkerTo m u" using snoc.prems by (simp add: u_def)
  show ?case
  proof (cases "m \<in> set (mc_markers s @ ns)")
    case True
    then have "t = u" by (simp add: t pushMarkerTo_def ns(1))
    with True ns show ?thesis by (intro exI [of _ ns]) auto
  next
    case False
    then have "t = (unflag m u)\<lparr> mc_markers := mc_markers u @ [m] \<rparr>" by (simp add: t pushMarkerTo_def ns(1))
    with False ns show ?thesis by (intro exI [of _ "ns @ [m]"]) auto
  qed
qed

lemma addMarkers_settled:
  assumes "settled mp pos s" "addMarkers mp pos ms s = Inr s'"
  shows "settled mp pos s' \<and> set (mc_markers s') = set (mc_markers s) \<union> set ms"
proof -
  obtain ns where ns: "mc_markers (fold pushMarkerTo ms s) = mc_markers s @ ns" "mc_clusters (fold pushMarkerTo ms s) = mc_clusters s"
    "mc_gridSize (fold pushMarkerTo ms s) = mc_gridSize s" "mc_avg (fold pushMarkerTo ms s) = mc_avg s"
    "mc_styles (fold pushMarkerTo ms s) = mc_styles s" "distinct ns" "set ns \<inter> set (mc_markers s) = {}" "set ns = set ms - set (mc_markers s)"
    "\<forall>m \<in> set (mc_markers s). mc_in (fold pushMarkerTo ms s) m = mc_in s m" "\<forall>m \<in> set ns. \<not> mc_in (fold pushMarkerTo ms s) m"
    using pushMarkerTo_fold [OF refl] by blast
  from settled_add [OF assms(1) assms(2) [unfolded addMarkers_def] ns(1-7,9,10)] ns(8) show ?thesis by auto
qed

lemma fold_unflag:
  "same_opts s (fold unflag ms s) \<and> mc_clusters (fold unflag ms s) = mc_clusters s
   \<and> (\<forall>m. mc_in (fold unflag ms s) m \<longleftrightarrow> mc_in s m \<and> m \<notin> set ms)"
proof (induction ms arbitrary: s)
  case (Cons m ms)
  from Cons.IH [of "unflag m s"] show ?case by (auto intro: same_opts_trans [OF unflag_simps(6)])
qed simp

lemma cluster_remove_frame: "same_frame s (cluster_remove c s)"
  unfolding cluster_remove_def
  using same_frame_trans [OF fold_overlay_frame [THEN conjunct1] overlay_frame(2)] .

lemma fold_cluster_remove: "same_frame s (fold cluster_remove cs s)"
proof (induction cs arbitrary: s)
  case (Cons c cs)
  show ?case using same_frame_trans [OF cluster_remove_frame Cons.IH] by simp
qed simp

lemma clearLastClusters_state:
  "mc_clusters (clearLastClusters s) = []" "same_opts s (clearLastClusters s)"
  "m \<in> set (mc_markers s) \<Longrightarrow> \<not> mc_in (clearLastClusters s) m"
proof -
  let ?t = "(fold cluster_remove (mc_clusters s) s)\<lparr> mc_clusters := [] \<rparr>"
  have t: "same_opts s ?t" using fold_cluster_remove [of s "mc_clusters s"] by (simp add: same_opts_def same_frame_def)
  have c: "clearLastClusters s = fold unflag (mc_markers ?t) ?t" by (simp add: clearLastClusters_def removeMarkersFromCluster_def)
  have u: "same_opts ?t (clearLastClusters s)" "mc_clusters (clearLastClusters s) = []"
    "mc_in (clearLastClusters s) m \<longleftrightarrow> mc_in ?t m \<and> m \<notin> set (mc_markers ?t)" for m
    unfolding c using fold_unflag [of ?t "mc_markers ?t"] by simp_all
  show "mc_clusters (clearLastClusters s) = []" by (rule u(2))
  show "same_opts s (clearLastClusters s)" by (rule same_opts_trans [OF t u(1)])
  show "\<not> mc_in (clearLastClusters s) m" if "m \<in> set (mc_markers s)"
    using that t u(3) by (simp add: same_opts_def)
qed

lemma redraw_settled:
  assumes "distinct (mc_markers s)" "redraw mp pos s = Inr s'"
  shows "settled mp pos s' \<and> same_opts s s'"
proof -
  let ?t = "clearLastClusters s"
  note clr = clearLastClusters_state [where s = s]
  have opts: "mc_markers ?t = mc_markers s" "mc_gridSize ?t = mc_gridSize s" "mc_avg ?t = mc_avg s"
    using clr(2) by (simp_all add: same_opts_def)
  have g: "groups ?t = []" by (simp add: groups_def clr(1))
  from assms(2) have loop: "create_loop mp pos (extended_view mp (mc_gridSize ?t)) (mc_markers s) ?t = Inr s'"
    by (simp add: redraw_def createClusters_def opts)
  have "clusters_ok mp ?t" by (simp add: clusters_ok_def clr(1))
  from create_loop_groups [OF loop this assms(1)] g
  have r: "groups s' = fold (place mp pos (mc_gridSize s) (mc_avg s)) (filter (\<lambda>m. \<not> mc_in ?t m \<and> visible mp pos (mc_gridSize s) m) (mc_markers s)) []"
    "clusters_ok mp s'" "same_opts ?t s'" "\<forall>m. mc_in s' m \<longleftrightarrow> mc_in ?t m \<or> m \<in> set (mc_markers s) \<and> visible mp pos (mc_gridSize s) m"
    by (simp_all add: opts)
  have "filter (\<lambda>m. \<not> mc_in ?t m \<and> visible mp pos (mc_gridSize s) m) (mc_markers s) = filter (visible mp pos (mc_gridSize s)) (mc_markers s)"
    using clr(3) by (intro filter_cong) auto
  moreover have "same_opts s s'" using same_opts_trans [OF clr(2) r(3)] .
  ultimately show ?thesis using r clr(3) assms(1) by (auto simp: settled_def same_opts_def grouping_def)
qed

lemma removeMarker1_markers:
  "removeMarker1 m s = (r, s') \<Longrightarrow> mc_markers s' = remove1 m (mc_markers s) \<and> (r \<longleftrightarrow> m \<in> set (mc_markers s)) \<and> (\<not> r \<longrightarrow> s' = s)"
  by (auto simp: removeMarker1_def remove_overlay_def Let_def find_index_None splice1_find_index_Some remove1_idem split: option.splits
      dest!: find_index_Some)

text \<open>Every use of the clusterer while the map is \<open>mp\<close>; a move or a zoom changes it and redraws.\<close>

inductive mc_reach :: "(nat \<Rightarrow> point) \<Rightarrow> bmap \<Rightarrow> clusterer \<Rightarrow> bool" for pos :: "nat \<Rightarrow> point" where
  Init: "mc_init mp pos opts = Inr s \<Longrightarrow> mc_reach pos mp s"
| View: "mc_reach pos mp s \<Longrightarrow> redraw mp' pos s = Inr s' \<Longrightarrow> mc_reach pos mp' s'"
| Add: "mc_reach pos mp s \<Longrightarrow> addMarkers mp pos ms s = Inr s' \<Longrightarrow> mc_reach pos mp s'"
| Add1: "mc_reach pos mp s \<Longrightarrow> addMarker mp pos m s = Inr s' \<Longrightarrow> mc_reach pos mp s'"
| Remove: "mc_reach pos mp s \<Longrightarrow> mc_removeMarkers mp pos ms s = Inr (r, s') \<Longrightarrow> mc_reach pos mp s'"
| Remove1: "mc_reach pos mp s \<Longrightarrow> mc_removeMarker mp pos m s = Inr (r, s') \<Longrightarrow> mc_reach pos mp s'"
| Clear: "mc_reach pos mp s \<Longrightarrow> mc_reach pos mp (clearMarkers s)"
| Grid: "mc_reach pos mp s \<Longrightarrow> setGridSize mp pos g s = Inr s' \<Longrightarrow> mc_reach pos mp s'"
| Zoom: "mc_reach pos mp s \<Longrightarrow> setMaxZoom mp pos z s = Inr s' \<Longrightarrow> mc_reach pos mp s'"
| Min: "mc_reach pos mp s \<Longrightarrow> setMinClusterSize mp pos n s = Inr s' \<Longrightarrow> mc_reach pos mp s'"
| Style: "mc_reach pos mp s \<Longrightarrow> setStyles mp pos st s = Inr s' \<Longrightarrow> mc_reach pos mp s'"

lemma addMarker_is: "addMarker mp pos m s = addMarkers mp pos [m] s"
  by (simp add: addMarker_def addMarkers_def)

lemma redraw_any: "settled mp0 pos s \<Longrightarrow> mc_markers t = mc_markers s \<Longrightarrow> redraw mp pos t = Inr s' \<Longrightarrow> settled mp pos s'"
  using redraw_settled [of t mp pos s'] by (simp add: settled_def)

lemma removeMarkers_success:
  "fold (\<lambda>m (success, s). case removeMarker1 m s of (r, s1) \<Rightarrow> (success \<or> r, s1)) ms (b, s) = (r, s') \<Longrightarrow> b \<Longrightarrow> r"
proof (induction ms arbitrary: s)
  case (Cons m ms)
  then show ?case by (cases "removeMarker1 m s") simp
qed simp

lemma removeMarkers_fold:
  "fold (\<lambda>m (success, s). case removeMarker1 m s of (r, s1) \<Rightarrow> (success \<or> r, s1)) ms (b, s) = (r, s') \<Longrightarrow>
   distinct (mc_markers s) \<Longrightarrow> distinct (mc_markers s') \<and> (\<not> r \<longrightarrow> s' = s)"
proof (induction ms arbitrary: b s)
  case (Cons m ms)
  obtain q s1 where q: "removeMarker1 m s = (q, s1)" by (cases "removeMarker1 m s")
  from removeMarker1_markers [OF q] have s1: "mc_markers s1 = remove1 m (mc_markers s)" "\<not> q \<longrightarrow> s1 = s" by blast+
  have "distinct (mc_markers s1)" using Cons.prems(2) by (simp add: s1(1))
  moreover have run: "fold (\<lambda>m (success, s). case removeMarker1 m s of (r, s1) \<Rightarrow> (success \<or> r, s1)) ms (b \<or> q, s1) = (r, s')"
    using Cons.prems(1) by (simp add: q)
  ultimately have ih: "distinct (mc_markers s')" "\<not> r \<longrightarrow> s' = s1" using Cons.IH by blast+
  moreover have "q \<Longrightarrow> r" using removeMarkers_success [OF run] by simp
  ultimately show ?case using s1(2) by blast
qed simp

lemma settled_empty:
  "mc_markers s = [] \<Longrightarrow> mc_clusters s = [] \<Longrightarrow> settled mp pos s"
  by (simp add: settled_def groups_def grouping_def clusters_ok_def)

lemma clearMarkers_settled: "settled mp pos (clearMarkers s)"
proof (rule settled_empty)
  show "mc_markers (clearMarkers s) = []" by (simp add: clearMarkers_def)
  have "mc_clusters (fold (\<lambda>m s. remove_overlay (On_marker m) (unflag m s)) ms t) = mc_clusters t" for ms t
    by (induction ms arbitrary: t) (simp_all add: remove_overlay_def)
  then show "mc_clusters (clearMarkers s) = []"
    by (simp add: clearMarkers_def removeMarkersFromMap_def clearLastClusters_state(1))
qed

lemma mc_reach_settled: "mc_reach pos mp s \<Longrightarrow> settled mp pos s"
proof (induction rule: mc_reach.induct)
  case (Init mp opts s)
  then show ?case unfolding mc_init_def by (elim addMarkers_settled [THEN conjunct1, rotated]) (simp add: settled_empty)
next
  case (View mp s mp' s')
  then show ?case by (intro redraw_any [of mp pos s s mp' s']) simp_all
next
  case (Add mp s ms s')
  then show ?case using addMarkers_settled by blast
next
  case (Add1 mp s m s')
  then show ?case using addMarkers_settled [of mp pos s "[m]" s'] by (simp add: addMarker_is)
next
  case (Remove mp s ms r s')
  obtain b s1 where f: "fold (\<lambda>m (success, s). case removeMarker1 m s of (r, s1) \<Rightarrow> (success \<or> r, s1)) ms (False, s) = (b, s1)"
    by fastforce
  from removeMarkers_fold [OF f] Remove(3) have d: "distinct (mc_markers s1)" "\<not> b \<longrightarrow> s1 = s" by (simp_all add: settled_def)
  show ?case
  proof (cases b)
    case True
    with Remove(2) f have "redraw mp pos s1 = Inr s'" by (auto simp: mc_removeMarkers_def)
    with redraw_settled [OF d(1) this] show ?thesis by blast
  next
    case False
    with Remove f d(2) show ?thesis by (auto simp: mc_removeMarkers_def)
  qed
next
  case (Remove1 mp s m r s')
  obtain b s1 where f: "removeMarker1 m s = (b, s1)" by fastforce
  from removeMarker1_markers [OF f] Remove1(3) have d: "distinct (mc_markers s1)" "\<not> b \<longrightarrow> s1 = s" by (simp_all add: settled_def)
  show ?case
  proof (cases b)
    case True
    with Remove1(2) f have "redraw mp pos s1 = Inr s'" by (auto simp: mc_removeMarker_def)
    with redraw_settled [OF d(1) this] show ?thesis by blast
  next
    case False
    with Remove1 f d(2) show ?thesis by (auto simp: mc_removeMarker_def)
  qed
next
  case (Clear mp s)
  show ?case by (rule clearMarkers_settled)
next
  case (Grid mp s g s')
  then show ?case by (intro redraw_any [of mp pos s "s\<lparr> mc_gridSize := g \<rparr>" mp s']) (simp_all add: setGridSize_def)
next
  case (Zoom mp s z s')
  then show ?case by (intro redraw_any [of mp pos s "s\<lparr> mc_maxZoom := z \<rparr>" mp s']) (simp_all add: setMaxZoom_def)
next
  case (Min mp s n s')
  then show ?case by (intro redraw_any [of mp pos s "s\<lparr> mc_min := n \<rparr>" mp s']) (simp_all add: setMinClusterSize_def)
next
  case (Style mp s st s')
  then show ?case by (intro redraw_any [of mp pos s "s\<lparr> mc_styles := st \<rparr>" mp s']) (simp_all add: setStyles_def)
qed

text \<open>C3: However markers are added and removed, options changed and the map moved, the clusters are exactly the groups of
  the abstract clustering of all markers in the extended view, in the order the markers were added: the incremental
  additions give what a redraw from nothing gives.\<close>

theorem clusters_refine_groups:
  assumes "mc_reach pos mp s"
  shows "map (\<lambda>c. (the (cl_center c), cl_markers c)) (mc_clusters s) = grouping mp pos (mc_gridSize s) (mc_avg s) (mc_markers s)"
  using mc_reach_settled [OF assms] by (simp add: settled_def groups_def)

text \<open>C8: A marker in the extended view is in exactly one cluster and once, one outside it in none; no cluster is empty, and
  the flag of a marker says whether it is in a cluster.\<close>

theorem clusters_partition:
  assumes "mc_reach pos mp s"
  shows "mset (concat (map cl_markers (mc_clusters s))) = mset (filter (visible mp pos (mc_gridSize s)) (mc_markers s))
    \<and> distinct (mc_markers s) \<and> list_all (\<lambda>c. cl_markers c \<noteq> []) (mc_clusters s)
    \<and> filter (mc_in s) (mc_markers s) = filter (visible mp pos (mc_gridSize s)) (mc_markers s)"
proof -
  have st: "settled mp pos s" by (rule mc_reach_settled [OF assms])
  have "map cl_markers (mc_clusters s) = map snd (groups s)" by (simp add: groups_def)
  also have "groups s = grouping mp pos (mc_gridSize s) (mc_avg s) (mc_markers s)" using st by (simp add: settled_def)
  finally have "mset (concat (map cl_markers (mc_clusters s))) = mset (filter (visible mp pos (mc_gridSize s)) (mc_markers s))"
    by (simp only: mset_grouping)
  moreover have "filter (mc_in s) (mc_markers s) = filter (visible mp pos (mc_gridSize s)) (mc_markers s)"
    using st by (intro filter_cong) (auto simp: settled_def)
  ultimately show ?thesis using st by (simp add: settled_def clusters_ok_def cluster_ok_def list_all_iff)
qed

section \<open>A sample map\<close>

definition flat_map :: "int \<Rightarrow> bmap" where
  "flat_map zoom =
     \<lparr> mp_view = \<lparr> sw_pt = (-20, -20), ne_pt = (20, 20) \<rparr>, mp_zoom = zoom, to_pixel = (\<lambda>(x, y). (x, - y)), to_point = (\<lambda>(x, y). (x, - y)),
       map_distance = (\<lambda>(x, y) (u, v). \<bar>x - u\<bar> + \<bar>y - v\<bar>),
       contains_point = (\<lambda>b (x, y). fst (sw_pt b) \<le> x \<and> x \<le> fst (ne_pt b) \<and> snd (sw_pt b) \<le> y \<and> y \<le> snd (ne_pt b)),
       extend_to = (\<lambda>b (x, y). \<lparr> sw_pt = (min x (fst (sw_pt b)), min y (snd (sw_pt b))), ne_pt = (max x (fst (ne_pt b)), max y (snd (ne_pt b))) \<rparr>) \<rparr>"

definition flat_pos :: "nat \<Rightarrow> point" where
  "flat_pos m = (if m = 0 then (0, 0) else if m = 1 then (1, 1) else if m = 2 then (10, 10) else (100, 0))"

definition flat_options :: "string list \<Rightarrow> mc_options" where
  "flat_options st = \<lparr> op_gridSize = Some 2, op_maxZoom = None, op_min = None, op_avg = False, op_styles = st, op_markers = [0, 1, 2, 3] \<rparr>"

lemma flat_run:
  "(case mc_init (flat_map 12) flat_pos (flat_options []) of Inl _ \<Rightarrow> False
    | Inr s \<Rightarrow> map cl_markers (mc_clusters s) = [[0, 1], [2]] \<and> map cl_value (mc_clusters s) = [2, 1] \<and> mc_markers s = [0, 1, 2, 3])"
  by code_simp

lemma flat_reached:
  obtains s where "mc_init (flat_map 12) flat_pos (flat_options []) = Inr s" "mc_reach flat_pos (flat_map 12) s"
    "map cl_markers (mc_clusters s) = [[0, 1], [2]]" "mc_markers s = [0, 1, 2, 3]"
proof (cases "mc_init (flat_map 12) flat_pos (flat_options [])")
  case (Inl e)
  with flat_run show ?thesis by (simp only: sum.case)
next
  case (Inr s)
  have run: "map cl_markers (mc_clusters s) = [[0, 1], [2]] \<and> map cl_value (mc_clusters s) = [2, 1] \<and> mc_markers s = [0, 1, 2, 3]"
    using flat_run unfolding Inr sum.case .
  show ?thesis using that [OF Inr Init [OF Inr] run [THEN conjunct1] run [THEN conjunct2, THEN conjunct2]] .
qed

theorem clusters_refine_groups_witness:
  "map snd (grouping (flat_map 12) flat_pos 2 False [0, 1, 2, 3]) = [[0, 1], [2]]"
proof -
  obtain s where s: "mc_init (flat_map 12) flat_pos (flat_options []) = Inr s" "mc_reach flat_pos (flat_map 12) s"
    "map cl_markers (mc_clusters s) = [[0, 1], [2]]" "mc_markers s = [0, 1, 2, 3]" by (rule flat_reached)
  have "case mc_init (flat_map 12) flat_pos (flat_options []) of Inl _ \<Rightarrow> False | Inr s \<Rightarrow> mc_gridSize s = 2 \<and> \<not> mc_avg s"
    by code_simp
  then have "mc_gridSize s = 2" "mc_avg s = False" unfolding s(1) sum.case by simp_all
  with clusters_refine_groups [OF s(2)] s(4)
  have g: "grouping (flat_map 12) flat_pos 2 False [0, 1, 2, 3] = map (\<lambda>c. (the (cl_center c), cl_markers c)) (mc_clusters s)"
    by (simp only:)
  have "map snd (map (\<lambda>c. (the (cl_center c), cl_markers c)) (mc_clusters s)) = map cl_markers (mc_clusters s)" by simp
  with s(3) show ?thesis unfolding g by (simp only:)
qed

theorem clusters_partition_witness:
  "\<exists>s. mc_reach flat_pos (flat_map 12) s \<and> map cl_markers (mc_clusters s) = [[0, 1], [2]]
     \<and> filter (visible (flat_map 12) flat_pos (mc_gridSize s)) (mc_markers s) = [0, 1, 2]
     \<and> mset (concat (map cl_markers (mc_clusters s))) = mset (filter (visible (flat_map 12) flat_pos (mc_gridSize s)) (mc_markers s))"
proof -
  obtain s where s: "mc_init (flat_map 12) flat_pos (flat_options []) = Inr s" "mc_reach flat_pos (flat_map 12) s"
    "map cl_markers (mc_clusters s) = [[0, 1], [2]]" "mc_markers s = [0, 1, 2, 3]" by (rule flat_reached)
  have "case mc_init (flat_map 12) flat_pos (flat_options []) of Inl _ \<Rightarrow> False
    | Inr s \<Rightarrow> filter (visible (flat_map 12) flat_pos (mc_gridSize s)) (mc_markers s) = [0, 1, 2]" by code_simp
  then have "filter (visible (flat_map 12) flat_pos (mc_gridSize s)) (mc_markers s) = [0, 1, 2]" unfolding s(1) sum.case .
  with s clusters_partition [OF s(2), THEN conjunct1] show ?thesis by (intro exI [of _ s] conjI)
qed

section \<open>Above the greatest zoom\<close>

lemma addLabels_length:
  "addLabels ms cs = Inr cs' \<Longrightarrow> length (cl_labels (fst cs')) = length (cl_labels (fst cs)) + length ms \<and> cl_min (fst cs') = cl_min (fst cs)"
proof (induction ms arbitrary: cs)
  case (Cons m ms)
  from Cons.prems obtain ds where ds: "addLabel cs = Inr ds" "addLabels ms ds = Inr cs'" by auto
  then have "length (cl_labels (fst ds)) = Suc (length (cl_labels (fst cs)))" "cl_min (fst ds) = cl_min (fst cs)"
    by (cases cs; auto simp: addLabel_def split: if_splits)+
  with Cons.IH [OF ds(2)] show ?case by simp
qed simp

lemma move_center_rest [simp]:
  "cl_labels (move_center mp g p c) = cl_labels c" "cl_min (move_center mp g p c) = cl_min c"
  by (auto simp: move_center_def updateGridBounds_def Let_def split: option.split prod.split)

lemma addMarker_labels:
  assumes "cluster_addMarker mp pos m (c, s) = Inr (r, c', s')" "m \<notin> set (cl_markers c)" "mp_zoom mp > mc_maxZoom s" "cl_min c \<le> 1"
  shows "length (cl_labels c') = length (cl_labels c) + Suc (length (cl_markers c)) \<and> cl_markers c' = cl_markers c @ [m]
    \<and> cl_min c' = cl_min c \<and> mc_maxZoom s' = mc_maxZoom s"
proof -
  define c2 where "c2 = (move_center mp (mc_gridSize s) (pos m) c)\<lparr> cl_markers := cl_markers c @ [m], cl_isReal := True \<rparr>"
  define s1 where "s1 = s\<lparr> mc_in := (mc_in s)(m := True) \<rparr>"
  define s2 where "s2 = (if length (cl_markers c2) = cl_min c2 then fold (\<lambda>k. remove_overlay (On_marker k)) (cl_markers c2) s1 else s1)"
  define s3 where "s3 = add_overlay (On_icon (cl_icon c2)) s2"
  have small: "\<not> Suc (length (cl_markers c)) < cl_min c" using assms(4) by simp
  have upd: "updateClusterMarker mp (c2, s3) = Inr (c', s')"
    using assms(1,2) small by (simp_all add: cluster_addMarker_def Let_def c2_def s1_def s2_def s3_def split: if_splits)
  have "same_frame s1 s2" using fold_overlay_frame by (auto simp: s2_def)
  then have z: "mc_maxZoom s3 = mc_maxZoom s" by (simp add: s3_def s1_def same_frame_def add_overlay_def)
  with upd assms(3) have "addLabels (cl_markers c2) (c2, remove_overlay (On_icon (cl_icon c2)) s3) = Inr (c', s')"
    by (simp add: updateClusterMarker_def)
  from addLabels_length [OF this] addLabels_frame [OF this] z show ?thesis
    by (auto simp: c2_def same_cluster_def same_frame_def remove_overlay_def)
qed

fun cluster_adds :: "bmap \<Rightarrow> (nat \<Rightarrow> point) \<Rightarrow> nat list \<Rightarrow> cluster_rec \<times> clusterer \<Rightarrow> (cluster_rec \<times> clusterer) res" where
  "cluster_adds mp pos [] cs = Inr cs"
| "cluster_adds mp pos (m # ms) cs = res_bind (cluster_addMarker mp pos m cs) (\<lambda>(r, cs'). cluster_adds mp pos ms cs')"

lemma cluster_adds_labels:
  "cluster_adds mp pos ms (c, s) = Inr (c', s') \<Longrightarrow> distinct (cl_markers c @ ms) \<Longrightarrow> mp_zoom mp > mc_maxZoom s \<Longrightarrow> cl_min c \<le> 1 \<Longrightarrow>
   2 * length (cl_labels c') = 2 * length (cl_labels c) + length ms * (length ms + 1) + 2 * length ms * length (cl_markers c)"
proof (induction ms arbitrary: c s)
  case (Cons m ms)
  from Cons.prems(1) obtain r d t where d: "cluster_addMarker mp pos m (c, s) = Inr (r, d, t)" "cluster_adds mp pos ms (d, t) = Inr (c', s')"
    by auto
  have "m \<notin> set (cl_markers c)" using Cons.prems(2) by simp
  from addMarker_labels [OF d(1) this Cons.prems(3,4)] Cons.IH [OF d(2)] Cons.prems
  show ?case by (simp add: algebra_simps)
qed simp

text \<open>Above the greatest zoom a cluster of \<open>n\<close> markers has \<open>n (n + 1) / 2\<close> labels and not one for each: every marker
  that is added labels all those before it once more.\<close>

theorem labels_repeat:
  assumes "cluster_adds mp pos ms (new_cluster s) = Inr (c', s')" "distinct ms" "mp_zoom mp > mc_maxZoom s" "mc_min s \<le> 1"
  shows "2 * length (cl_labels c') = length ms * (length ms + 1)"
proof -
  obtain c t where new: "new_cluster s = (c, t)" by (cases "new_cluster s")
  then have "cl_markers c = []" "cl_labels c = []" "cl_min c = mc_min s" "mc_maxZoom t = mc_maxZoom s"
    by (auto simp: new_cluster_def)
  with cluster_adds_labels [of mp pos ms c t c' s'] assms new show ?thesis by simp
qed

definition bare_clusterer :: "string list \<Rightarrow> clusterer" where
  "bare_clusterer st =
     \<lparr> mc_markers = [], mc_clusters = [], mc_gridSize = 2, mc_maxZoom = 18, mc_min = 1, mc_avg = False, mc_styles = st,
       mc_in = (\<lambda>_. False), mc_overlays = [], mc_next = 0 \<rparr>"

theorem labels_repeat_witness:
  "\<exists>c s. cluster_adds (flat_map 19) flat_pos [0, 1, 2] (new_cluster (bare_clusterer [''red''])) = Inr (c, s) \<and> 2 * length (cl_labels c) = 3 * 4"
proof -
  let ?r = "cluster_adds (flat_map 19) flat_pos [0, 1, 2] (new_cluster (bare_clusterer [''red'']))"
  have "case ?r of Inl _ \<Rightarrow> False | Inr _ \<Rightarrow> True" by code_simp
  then obtain c s where r: "?r = Inr (c, s)" by (cases ?r) auto
  have "2 * length (cl_labels c) = length [0, 1, 2::nat] * (length [0, 1, 2::nat] + 1)"
    using r by (rule labels_repeat) (simp_all add: flat_map_def bare_clusterer_def)
  also have "\<dots> = 3 * 4" by simp
  finally have "2 * length (cl_labels c) = 3 * 4" .
  with r show ?thesis by (intro exI [of _ c] exI [of _ s] conjI)
qed

section \<open>What cannot fail\<close>

definition drawable :: "bmap \<Rightarrow> clusterer \<Rightarrow> bool" where
  "drawable mp s \<longleftrightarrow> mp_zoom mp \<le> mc_maxZoom s \<or> mc_styles s \<noteq> []"

lemma addLabels_returns: "cl_styles (fst cs) \<noteq> [] \<Longrightarrow> \<exists>r. addLabels ms cs = Inr r"
proof (induction ms arbitrary: cs)
  case (Cons m ms)
  then obtain ds where "addLabel cs = Inr ds" "cl_styles (fst ds) \<noteq> []" by (cases cs) (simp add: addLabel_def)
  with Cons.IH [of ds] show ?case by simp
qed simp

lemma move_center_styles [simp]: "cl_styles (move_center mp g p c) = cl_styles c"
  by (auto simp: move_center_def updateGridBounds_def Let_def split: option.split prod.split)

lemma updateClusterMarker_returns:
  assumes "mp_zoom mp \<le> mc_maxZoom s \<or> cl_styles c \<noteq> []"
  shows "\<exists>r. updateClusterMarker mp (c, s) = Inr r"
  using assms addLabels_returns [of "(c, remove_overlay (On_icon (cl_icon c)) s)" "cl_markers c"]
  by (auto simp: updateClusterMarker_def not_le)

lemma cluster_addMarker_returns:
  assumes "mp_zoom mp \<le> mc_maxZoom s \<or> cl_styles c \<noteq> []"
  shows "\<exists>r. cluster_addMarker mp pos m (c, s) = Inr r"
proof -
  define c2 where "c2 = (move_center mp (mc_gridSize s) (pos m) c)\<lparr> cl_markers := cl_markers c @ [m], cl_isReal := True \<rparr>"
  define s1 where "s1 = s\<lparr> mc_in := (mc_in s)(m := True) \<rparr>"
  define s2 where "s2 = (if length (cl_markers c2) = cl_min c2 then fold (\<lambda>k. remove_overlay (On_marker k)) (cl_markers c2) s1 else s1)"
  define s3 where "s3 = add_overlay (On_icon (cl_icon c2)) s2"
  have "same_frame s1 s2" using fold_overlay_frame by (auto simp: s2_def)
  then have "mc_maxZoom s3 = mc_maxZoom s" by (simp add: s3_def s1_def same_frame_def add_overlay_def)
  moreover have "cl_styles c2 = cl_styles c" by (simp add: c2_def)
  ultimately obtain r where "updateClusterMarker mp (c2, s3) = Inr r"
    using assms updateClusterMarker_returns [of mp s3 c2] by auto
  then have "m \<notin> set (cl_markers c) \<Longrightarrow> \<not> Suc (length (cl_markers c)) < cl_min c \<Longrightarrow> cluster_addMarker mp pos m (c, s) = Inr (True, r)"
    by (simp add: cluster_addMarker_def Let_def c2_def s1_def s2_def s3_def split: if_splits)
  moreover have "m \<in> set (cl_markers c) \<Longrightarrow> cluster_addMarker mp pos m (c, s) = Inr (False, c, s)"
    by (simp add: cluster_addMarker_def)
  moreover have "m \<notin> set (cl_markers c) \<Longrightarrow> Suc (length (cl_markers c)) < cl_min c \<Longrightarrow> \<exists>r. cluster_addMarker mp pos m (c, s) = Inr r"
    by (auto simp: cluster_addMarker_def Let_def)
  ultimately show ?thesis by blast
qed

lemma own_cluster_returns: "drawable mp s \<Longrightarrow> \<exists>s'. own_cluster mp pos m s = Inr s'"
  using cluster_addMarker_returns [of mp "snd (new_cluster s)" "fst (new_cluster s)" pos m]
  by (auto simp: own_cluster_def new_cluster_def drawable_def)

lemma addToClosest_returns:
  assumes "drawable mp s" "clusters_ok mp s"
  shows "\<exists>s'. addToClosestCluster mp pos m s = Inr s'"
proof (cases "nearest mp (pos m) (map cl_center (mc_clusters s))")
  case None
  then show ?thesis using own_cluster_returns [OF assms(1)] by (simp add: addToClosestCluster_def)
next
  case (Some i)
  then have "i < length (mc_clusters s)" using nearest_bound [OF Some] by simp
  then have ok: "cluster_ok mp s (mc_clusters s ! i)" using assms(2) by (simp add: clusters_ok_def)
  then obtain g where g: "cl_grid (mc_clusters s ! i) = Some g" by (auto simp: cluster_ok_def)
  have "mp_zoom mp \<le> mc_maxZoom s \<or> cl_styles (mc_clusters s ! i) \<noteq> []"
    using ok assms(1) by (simp add: cluster_ok_def drawable_def)
  then obtain r where "cluster_addMarker mp pos m (mc_clusters s ! i, s) = Inr r" using cluster_addMarker_returns by blast
  then show ?thesis
    using Some g own_cluster_returns [OF assms(1), of pos m] by (cases r) (auto simp: addToClosestCluster_def in_grid_def)
qed

lemma create_loop_returns:
  assumes "drawable mp s" "clusters_ok mp s" "distinct ms" "\<forall>m \<in> set ms. m \<in> grouped s \<longrightarrow> mc_in s m"
  shows "\<exists>s'. create_loop mp pos ext ms s = Inr s'"
  using assms
proof (induction ms arbitrary: s)
  case (Cons m ms)
  show ?case
  proof (cases "\<not> mc_in s m \<and> contains_point mp ext (pos m)")
    case True
    obtain s1 where s1: "addToClosestCluster mp pos m s = Inr s1" using addToClosest_returns [OF Cons.prems(1,2)] by blast
    have "m \<notin> grouped s" using True Cons.prems(4) by auto
    from addToClosest_place [OF s1 Cons.prems(2) this]
    have a: "groups s1 = place mp pos (mc_gridSize s) (mc_avg s) m (groups s)" "clusters_ok mp s1" "same_opts s s1"
      "mc_in s1 = (mc_in s)(m := True)" by blast+
    have "drawable mp s1" using a(3) Cons.prems(1) by (simp add: drawable_def same_opts_def)
    moreover have "\<forall>k \<in> set ms. k \<in> grouped s1 \<longrightarrow> mc_in s1 k" using Cons.prems(3,4) by (simp only: a(1,4) set_place) auto
    ultimately have "\<exists>s'. create_loop mp pos ext ms s1 = Inr s'" using Cons.IH [of s1] a(2) Cons.prems(3) by simp
    with True s1 show ?thesis by simp
  next
    case False
    have "\<exists>s'. create_loop mp pos ext ms s = Inr s'" using Cons.IH [of s] Cons.prems by simp
    with False show ?thesis by (simp only: create_loop.simps if_False)
  qed
qed simp

text \<open>The map can be moved and zoomed to any view: the redraw never throws as long as the zoom stays up to the greatest
  one, or there is a style for the labels above it.\<close>

theorem redraw_returns:
  assumes "mc_reach pos mp s" "mp_zoom mp' \<le> mc_maxZoom s \<or> mc_styles s \<noteq> []"
  shows "\<exists>s'. redraw mp' pos s = Inr s' \<and> mc_reach pos mp' s' \<and> mc_markers s' = mc_markers s"
proof -
  note clr = clearLastClusters_state [where s = s]
  have d: "distinct (mc_markers s)" using mc_reach_settled [OF assms(1)] by (simp add: settled_def)
  have "drawable mp' (clearLastClusters s)" using assms(2) clr(2) by (simp add: drawable_def same_opts_def)
  moreover have "clusters_ok mp' (clearLastClusters s)" by (simp add: clusters_ok_def clr(1))
  moreover have "grouped (clearLastClusters s) = {}" by (simp add: groups_def clr(1))
  moreover have "mc_markers (clearLastClusters s) = mc_markers s" using clr(2) by (simp add: same_opts_def)
  ultimately obtain s' where s': "redraw mp' pos s = Inr s'"
    using create_loop_returns [of mp' "clearLastClusters s" "mc_markers s"] d unfolding redraw_def createClusters_def by fastforce
  with View [OF assms(1) s'] redraw_settled [OF d s'] show ?thesis by (auto simp: same_opts_def)
qed

theorem redraw_returns_witness:
  "\<exists>s s'. mc_reach flat_pos (flat_map 12) s \<and> redraw (flat_map 18) flat_pos s = Inr s' \<and> mc_markers s' = [0, 1, 2, 3]"
proof -
  obtain s where s: "mc_init (flat_map 12) flat_pos (flat_options []) = Inr s" "mc_reach flat_pos (flat_map 12) s"
    "map cl_markers (mc_clusters s) = [[0, 1], [2]]" "mc_markers s = [0, 1, 2, 3]" by (rule flat_reached)
  have "case mc_init (flat_map 12) flat_pos (flat_options []) of Inl _ \<Rightarrow> False | Inr s \<Rightarrow> mp_zoom (flat_map 18) \<le> mc_maxZoom s"
    by code_simp
  then have "mp_zoom (flat_map 18) \<le> mc_maxZoom s" unfolding s(1) sum.case .
  then have "mp_zoom (flat_map 18) \<le> mc_maxZoom s \<or> mc_styles s \<noteq> []" by (rule disjI1)
  from redraw_returns [OF s(2) this] obtain s' where "redraw (flat_map 18) flat_pos s = Inr s'" "mc_markers s' = mc_markers s" by blast
  with s(2,4) show ?thesis by (intro exI [of _ s] exI [of _ s'] conjI) simp_all
qed

text \<open>Without a style the first label throws.\<close>

lemma no_style_throws:
  "(case redraw (flat_map 19) flat_pos ((bare_clusterer [])\<lparr> mc_markers := [0] \<rparr>) of Inl e \<Rightarrow> e = TypeError | Inr _ \<Rightarrow> False)"
  by code_simp

end
