(* ===== verification/Upload.thy ===== *)
theory Upload
  imports Complex_Main Prelude
begin

text \<open>
  The uploading of the photos of a house, \<^verbatim>\<open>soufang/.../js/admin/upload.js\<close>: the state of the page
  and the handlers of the events of the uploader and of the buttons. The uploader itself is a vendored library: the
  numbers of its successes and failures are an argument, the calls it gets are recorded. The Chinese texts are
  constructors; progress is a rational number between 0 and 1.
\<close>

section \<open>The page\<close>

datatype up_state = Pedding | Ready | Uploading | Paused | Confirm | Finish | Done

datatype button_text = Start_upload | Pause_upload | Continue_upload

text \<open>The information line: the number and total size of the files, successes and failures.\<close>

datatype info_text = No_info | Info_ready int int | Info_confirm nat nat | Info_total int int nat nat

datatype error_text = Exceed_size | Interrupted | Failed

datatype up_call = Refresh | Start | Stop | Retry | Remove_file string | Make_thumb string | Reload_page

datatype up_alert = Uploaded | Error_code string | Server_exception string string | Todo

record up_stats =
  successNum :: nat
  uploadFailNum :: nat

record up_file =
  uf_id :: string
  uf_name :: string
  uf_bytes :: int
  uf_status :: string
  uf_statusText :: string

text \<open>The entry of a file in the list.\<close>

record up_item =
  ui_file :: up_file
  ui_class :: "string list"
  ui_error :: "error_text option"
  ui_panel :: bool
  ui_hover :: bool
  ui_bar :: bool
  ui_width :: rat
  ui_rotation :: int
  ui_success :: nat

record upload_page =
  up_st :: up_state
  up_fileCount :: int
  up_fileSize :: int
  up_sequence :: nat
  up_percentages :: "(int \<times> rat) dict"
  up_button :: button_text
  up_info :: info_text
  up_percent :: int
  up_placeholder :: bool
  up_queue :: bool
  up_bar :: bool
  up_barShown :: bool
  up_picker2 :: bool
  up_progress :: bool
  up_items :: "up_item list"
  up_calls :: "up_call list"
  up_alerts :: "up_alert list"
  up_photos :: "(string \<times> string) list"
  up_covers :: "string list"
  up_coverDesc :: bool

definition tell :: "up_call \<Rightarrow> upload_page \<Rightarrow> upload_page" where
  "tell c u = u\<lparr> up_calls := up_calls u @ [c] \<rparr>"

definition alert :: "up_alert \<Rightarrow> upload_page \<Rightarrow> upload_page" where
  "alert a u = u\<lparr> up_alerts := up_alerts u @ [a] \<rparr>"

definition on_item :: "string \<Rightarrow> (up_item \<Rightarrow> up_item) \<Rightarrow> upload_page \<Rightarrow> upload_page" where
  "on_item i f u = u\<lparr> up_items := map (\<lambda>x. if uf_id (ui_file x) = i then f x else x) (up_items u) \<rparr>"

section \<open>Status and progress\<close>

definition updateStatus :: "up_stats \<Rightarrow> upload_page \<Rightarrow> upload_page" where
  "updateStatus st u =
     u\<lparr> up_info :=
        (if up_st u = Ready then Info_ready (up_fileCount u) (up_fileSize u)
         else if up_st u = Confirm
         then (if uploadFailNum st \<noteq> 0 then Info_confirm (successNum st) (uploadFailNum st) else No_info)
         else Info_total (up_fileCount u) (up_fileSize u) (successNum st) (uploadFailNum st)) \<rparr>"

definition total_size :: "(int \<times> rat) dict \<Rightarrow> int" where
  "total_size d = sum_list (map (\<lambda>(_, v). fst v) d)"

definition loaded_size :: "(int \<times> rat) dict \<Rightarrow> rat" where
  "loaded_size d = sum_list (map (\<lambda>(_, v). of_int (fst v) * snd v) d)"

text \<open>\<open>Math.round\<close>.\<close>

definition round_half_up :: "rat \<Rightarrow> int" where
  "round_half_up x = \<lfloor>x + 1 / 2\<rfloor>"

definition total_percent :: "(int \<times> rat) dict \<Rightarrow> int" where
  "total_percent d =
     (let total = total_size d; percent = (if total \<noteq> 0 then loaded_size d / of_int total else 0) in round_half_up (percent * 100))"

definition updateTotalProgress :: "up_stats \<Rightarrow> upload_page \<Rightarrow> upload_page" where
  "updateTotalProgress st u = updateStatus st (u\<lparr> up_percent := total_percent (up_percentages u) \<rparr>)"

section \<open>The states\<close>

definition enter_finish :: "up_stats \<Rightarrow> upload_page \<Rightarrow> upload_page" where
  "enter_finish st u =
     (let u1 = u\<lparr> up_st := Finish \<rparr>
      in updateStatus st (if successNum st \<noteq> 0 then alert Uploaded u1 else tell Reload_page (u1\<lparr> up_st := Done \<rparr>)))"

definition setState :: "up_state \<Rightarrow> up_stats \<Rightarrow> upload_page \<Rightarrow> upload_page" where
  "setState val st u =
     (if val = up_st u then u
      else let u1 = u\<lparr> up_st := val \<rparr>
      in case val of
           Pedding \<Rightarrow> updateStatus st (tell Refresh (u1\<lparr> up_placeholder := True, up_queue := False, up_bar := False \<rparr>))
         | Ready \<Rightarrow> updateStatus st (tell Refresh (u1\<lparr> up_placeholder := False, up_picker2 := True, up_queue := True, up_bar := True \<rparr>))
         | Uploading \<Rightarrow> updateStatus st (u1\<lparr> up_picker2 := False, up_progress := True, up_button := Pause_upload \<rparr>)
         | Paused \<Rightarrow> updateStatus st (u1\<lparr> up_progress := True, up_button := Continue_upload \<rparr>)
         | Confirm \<Rightarrow>
             (let u2 = u1\<lparr> up_progress := False, up_picker2 := True, up_button := Start_upload \<rparr>
              in if successNum st \<noteq> 0 \<and> uploadFailNum st = 0 then enter_finish st u2 else updateStatus st u2)
         | Finish \<Rightarrow> enter_finish st u1
         | Done \<Rightarrow> updateStatus st u1)"

section \<open>The list of files\<close>

definition show_error :: "string \<Rightarrow> error_text" where
  "show_error code = (if code = ''exceed_size'' then Exceed_size else if code = ''interrupt'' then Interrupted else Failed)"

definition addFile :: "up_file \<Rightarrow> upload_page \<Rightarrow> upload_page" where
  "addFile f u =
     (let item = \<lparr> ui_file = f, ui_class = [], ui_error = (if uf_status f = ''invalid'' then Some (show_error (uf_statusText f)) else None),
                   ui_panel = True, ui_hover = True, ui_bar = True, ui_width = 0, ui_rotation = 0, ui_success = 0 \<rparr>;
          u1 = (if uf_status f = ''invalid'' then u
                else (tell (Make_thumb (uf_id f)) u)\<lparr> up_percentages := dput (uf_id f) (uf_bytes f, 0) (up_percentages u) \<rparr>)
      in u1\<lparr> up_items := up_items u1 @ [item] \<rparr>)"

definition set_progress :: "string \<Rightarrow> rat \<Rightarrow> upload_page \<Rightarrow> upload_page res" where
  "set_progress i p u =
     (case map_of (up_percentages u) i of
        None \<Rightarrow> Inl TypeError
      | Some (s, _) \<Rightarrow> Inr (u\<lparr> up_percentages := dput i (s, p) (up_percentages u) \<rparr>))"

text \<open>A change of the status of a file.\<close>

definition leave_status :: "string \<Rightarrow> up_item \<Rightarrow> up_item" where
  "leave_status prev x =
     (if prev = ''progress'' then x\<lparr> ui_bar := False, ui_width := 0 \<rparr>
      else if prev = ''queued'' then x\<lparr> ui_hover := False, ui_panel := False \<rparr> else x)"

definition swap_class :: "string \<Rightarrow> string \<Rightarrow> up_item \<Rightarrow> up_item" where
  "swap_class cur prev x =
     (let rest = filter (\<lambda>c. c \<noteq> ''state-'' @ prev) (ui_class x)
      in x\<lparr> ui_class := (if ''state-'' @ cur \<in> set rest then rest else rest @ [''state-'' @ cur]) \<rparr>)"

definition statuschange :: "string \<Rightarrow> string \<Rightarrow> up_file \<Rightarrow> upload_page \<Rightarrow> upload_page res" where
  "statuschange cur prev f u =
     (let i = uf_id f;
          u1 = on_item i (leave_status prev) u
      in res_bind
           (if cur = ''error'' \<or> cur = ''invalid''
            then set_progress i 1 (on_item i (\<lambda>x. x\<lparr> ui_error := Some (show_error (uf_statusText f)) \<rparr>) u1)
            else if cur = ''interrupt'' then Inr (on_item i (\<lambda>x. x\<lparr> ui_error := Some (show_error ''interrupt'') \<rparr>) u1)
            else if cur = ''queued'' then set_progress i 0 u1
            else if cur = ''progress'' then Inr (on_item i (\<lambda>x. x\<lparr> ui_error := None, ui_bar := True \<rparr>) u1)
            else if cur = ''complete'' then Inr (on_item i (\<lambda>x. x\<lparr> ui_success := Suc (ui_success x) \<rparr>) u1)
            else Inr u1)
           (\<lambda>u2. Inr (on_item i (swap_class cur prev) u2)))"

text \<open>The three buttons of an entry: remove, and rotate to the right or to the left.\<close>

definition panel_click :: "nat \<Rightarrow> string \<Rightarrow> upload_page \<Rightarrow> upload_page" where
  "panel_click index i u =
     (if index = 0 then tell (Remove_file i) u
      else on_item i (\<lambda>x. x\<lparr> ui_rotation := ui_rotation x + (if index = 1 then 90 else if index = 2 then -90 else 0) \<rparr>) u)"

definition removeFile :: "up_stats \<Rightarrow> string \<Rightarrow> upload_page \<Rightarrow> upload_page" where
  "removeFile st i u =
     (let u1 = updateTotalProgress st (u\<lparr> up_percentages := ddel i (up_percentages u) \<rparr>)
      in u1\<lparr> up_items := filter (\<lambda>x. uf_id (ui_file x) \<noteq> i) (up_items u1) \<rparr>)"

section \<open>The events of the uploader\<close>

definition onUploadProgress :: "up_stats \<Rightarrow> string \<Rightarrow> rat \<Rightarrow> upload_page \<Rightarrow> upload_page res" where
  "onUploadProgress st i p u =
     res_bind (set_progress i p (on_item i (\<lambda>x. x\<lparr> ui_width := p * 100 \<rparr>) u)) (\<lambda>u1. Inr (updateTotalProgress st u1))"

definition onFileQueued :: "up_stats \<Rightarrow> up_file \<Rightarrow> upload_page \<Rightarrow> upload_page" where
  "onFileQueued st f u =
     (let u1 = u\<lparr> up_fileCount := up_fileCount u + 1, up_fileSize := up_fileSize u + uf_bytes f \<rparr>;
          u2 = (if up_fileCount u1 = 1 then u1\<lparr> up_placeholder := False, up_barShown := True \<rparr> else u1)
      in updateTotalProgress st (setState Ready st (addFile f u2)))"

definition onFileDequeued :: "up_stats \<Rightarrow> up_file \<Rightarrow> upload_page \<Rightarrow> upload_page" where
  "onFileDequeued st f u =
     (let u1 = u\<lparr> up_fileCount := up_fileCount u - 1, up_fileSize := up_fileSize u - uf_bytes f \<rparr>;
          u2 = (if up_fileCount u1 = 0 then setState Pedding st u1 else u1)
      in updateTotalProgress st (removeFile st (uf_id f) u2))"

text \<open>A stored photo: three hidden inputs with the number of the photo, and a radio button to choose it as the cover.\<close>

definition photo_name :: "nat \<Rightarrow> string \<Rightarrow> string" where
  "photo_name i field = ''photos['' @ show_nat i @ ''].'' @ field"

definition onUploadSuccess :: "string \<Rightarrow> int \<Rightarrow> int \<Rightarrow> upload_page \<Rightarrow> upload_page" where
  "onUploadSuccess path width height u =
     u\<lparr> up_photos := up_photos u @ [(photo_name (up_sequence u) ''path'', path), (photo_name (up_sequence u) ''width'', show_int (width * 10)),
                                     (photo_name (up_sequence u) ''height'', show_int (height * 10))],
        up_covers := up_covers u @ [path], up_coverDesc := False, up_sequence := Suc (up_sequence u) \<rparr>"

definition uploadAccept :: "int \<Rightarrow> string \<Rightarrow> upload_page \<Rightarrow> bool \<times> upload_page" where
  "uploadAccept code message u =
     (if code \<noteq> 200 then (False, alert (Server_exception (show_int code) message) u) else (True, u))"

definition on_all :: "string \<Rightarrow> up_stats \<Rightarrow> upload_page \<Rightarrow> upload_page" where
  "on_all type st u =
     (if type = ''uploadFinished'' then setState Confirm st u
      else if type = ''startUpload'' then setState Uploading st u
      else if type = ''stopUpload'' then setState Paused st u else u)"

definition onError :: "string \<Rightarrow> upload_page \<Rightarrow> upload_page" where
  "onError code u = alert (Error_code code) u"

text \<open>The test of the types of dragged items looks for each in one string.\<close>

definition unAllowed :: string where
  "unAllowed = ''text/plain;application/javascript ''"

definition dndAccept :: "string list \<Rightarrow> bool" where
  "dndAccept kinds = (\<not> list_ex (\<lambda>k. index_of k unAllowed \<noteq> None) kinds)"

section \<open>The buttons\<close>

definition upload_click :: "bool \<Rightarrow> upload_page \<Rightarrow> upload_page" where
  "upload_click disabled u =
     (if disabled then u
      else case up_st u of Ready \<Rightarrow> tell Start u | Paused \<Rightarrow> tell Start u | Uploading \<Rightarrow> tell Stop u | _ \<Rightarrow> u)"

definition retry_click :: "upload_page \<Rightarrow> upload_page" where "retry_click u = tell Retry u"
definition ignore_click :: "upload_page \<Rightarrow> upload_page" where "ignore_click u = alert Todo u"

definition upload_init :: "up_stats \<Rightarrow> upload_page" where
  "upload_init st =
     updateTotalProgress st
       \<lparr> up_st = Pedding, up_fileCount = 0, up_fileSize = 0, up_sequence = 0, up_percentages = [], up_button = Start_upload, up_info = No_info,
         up_percent = 0, up_placeholder = True, up_queue = True, up_bar = True, up_barShown = False, up_picker2 = True, up_progress = False, up_items = [],
         up_calls = [], up_alerts = [], up_photos = [], up_covers = [], up_coverDesc = True \<rparr>"

section \<open>What the events keep\<close>

definition files :: "upload_page \<Rightarrow> up_file list" where
  "files u = map ui_file (up_items u)"

text \<open>The uploader queues a file once, takes a queued one out, and tells of files that are queued; progress is a part of 1.\<close>

inductive up_step :: "upload_page \<Rightarrow> upload_page \<Rightarrow> bool" where
  Queued: "uf_id f \<notin> uf_id ` set (files u) \<Longrightarrow> uf_status f \<noteq> ''invalid'' \<Longrightarrow> 0 \<le> uf_bytes f \<Longrightarrow> up_step u (onFileQueued st f u)"
| Dequeued: "f \<in> set (files u) \<Longrightarrow> up_step u (onFileDequeued st f u)"
| Progress: "f \<in> set (files u) \<Longrightarrow> 0 \<le> p \<Longrightarrow> p \<le> 1 \<Longrightarrow> onUploadProgress st (uf_id f) p u = Inr u' \<Longrightarrow> up_step u u'"
| Status: "f \<in> set (files u) \<Longrightarrow> statuschange cur prev f u = Inr u' \<Longrightarrow> up_step u u'"
| Success: "up_step u (onUploadSuccess path w h u)"
| Accept: "up_step u (snd (uploadAccept code message u))"
| All: "up_step u (on_all type st u)"
| Problem: "up_step u (onError c u)"
| Panel: "f \<in> set (files u) \<Longrightarrow> up_step u (panel_click k (uf_id f) u)"
| Upload: "up_step u (upload_click disabled u)"
| Retry: "up_step u (retry_click u)"
| Ignore: "up_step u (ignore_click u)"

inductive up_reach :: "upload_page \<Rightarrow> bool" where
  Init: "up_reach (upload_init st)"
| Step: "up_reach u \<Longrightarrow> up_step u u' \<Longrightarrow> up_reach u'"

text \<open>The inputs of the photos, one group after the other.\<close>

definition photo_inputs :: "nat \<Rightarrow> string list" where
  "photo_inputs n = concat (map (\<lambda>i. [photo_name i ''path'', photo_name i ''width'', photo_name i ''height'']) [0..<n])"

definition counted :: "upload_page \<Rightarrow> bool" where
  "counted u \<longleftrightarrow> up_fileCount u = int (length (files u)) \<and> up_fileSize u = sum_list (map uf_bytes (files u))
     \<and> distinct (map uf_id (files u)) \<and> (\<forall>f \<in> set (files u). 0 \<le> uf_bytes f)"

definition tracked :: "upload_page \<Rightarrow> bool" where
  "tracked u \<longleftrightarrow> set (map fst (up_percentages u)) = uf_id ` set (files u)
     \<and> (\<forall>e \<in> set (up_percentages u). 0 \<le> fst (snd e) \<and> 0 \<le> snd (snd e) \<and> snd (snd e) \<le> 1)"

definition numbered :: "upload_page \<Rightarrow> bool" where
  "numbered u \<longleftrightarrow> map fst (up_photos u) = photo_inputs (up_sequence u) \<and> length (up_covers u) = up_sequence u"

definition calm :: "upload_page \<Rightarrow> bool" where
  "calm u \<longleftrightarrow> up_st u \<noteq> Done \<and> Reload_page \<notin> set (up_calls u)"

definition up_inv :: "upload_page \<Rightarrow> bool" where
  "up_inv u \<longleftrightarrow> counted u \<and> tracked u \<and> numbered u \<and> calm u"

text \<open>Most steps leave the files, the photos and the progress alone.\<close>

definition same_files :: "upload_page \<Rightarrow> upload_page \<Rightarrow> bool" where
  "same_files u v \<longleftrightarrow> up_fileCount v = up_fileCount u \<and> up_fileSize v = up_fileSize u \<and> up_percentages v = up_percentages u
     \<and> up_photos v = up_photos u \<and> up_covers v = up_covers u \<and> up_sequence v = up_sequence u \<and> up_items v = up_items u"

lemma same_files_inv: "same_files u v \<Longrightarrow> counted u \<Longrightarrow> tracked u \<Longrightarrow> numbered u \<Longrightarrow> calm v \<Longrightarrow> up_inv v"
  by (simp add: up_inv_def same_files_def counted_def tracked_def numbered_def files_def)

lemma updateStatus_simps [simp]:
  "same_files u (updateStatus st u)" "calm (updateStatus st u) = calm u" "up_st (updateStatus st u) = up_st u"
  "up_button (updateStatus st u) = up_button u" "up_calls (updateStatus st u) = up_calls u"
  by (simp_all add: updateStatus_def same_files_def calm_def)

lemma updateTotalProgress_simps [simp]:
  "same_files u (updateTotalProgress st u)" "calm (updateTotalProgress st u) = calm u" "up_st (updateTotalProgress st u) = up_st u"
  "up_button (updateTotalProgress st u) = up_button u"
  by (simp_all add: updateTotalProgress_def updateStatus_def same_files_def calm_def)

lemma same_files_trans: "same_files u v \<Longrightarrow> same_files v w \<Longrightarrow> same_files u w"
  by (simp add: same_files_def)

lemma setState_same: "same_files u (setState s st u)"
  by (cases s) (simp_all add: setState_def enter_finish_def updateStatus_def tell_def alert_def same_files_def Let_def)

text \<open>From confirming, the finish is entered only with a success, and so it never reloads the page.\<close>

lemma setState_calm: "calm u \<Longrightarrow> s \<in> {Pedding, Ready, Uploading, Paused, Confirm} \<Longrightarrow> calm (setState s st u)"
  by (auto simp: setState_def enter_finish_def updateStatus_def tell_def alert_def calm_def Let_def split: if_splits)

lemma files_on_item: "(\<And>x. ui_file (g x) = ui_file x) \<Longrightarrow> files (on_item i g u) = files u"
  by (simp add: files_def on_item_def)

lemma on_item_simps [simp]:
  "up_fileCount (on_item i g u) = up_fileCount u" "up_fileSize (on_item i g u) = up_fileSize u" "up_st (on_item i g u) = up_st u"
  "up_percentages (on_item i g u) = up_percentages u" "up_photos (on_item i g u) = up_photos u" "up_covers (on_item i g u) = up_covers u"
  "up_sequence (on_item i g u) = up_sequence u" "up_calls (on_item i g u) = up_calls u" "up_button (on_item i g u) = up_button u"
  by (simp_all add: on_item_def)

lemma on_item_inv: "(\<And>x. ui_file (g x) = ui_file x) \<Longrightarrow> up_inv u \<Longrightarrow> up_inv (on_item i g u)"
  by (simp add: up_inv_def counted_def tracked_def numbered_def calm_def files_on_item)

lemma in_dput: "e \<in> set (dput k v d) \<Longrightarrow> e = (k, v) \<or> e \<in> set d"
  by (cases e) (auto simp: dput_def set_ins_index split: if_splits)

lemma set_progress_inv:
  assumes "set_progress i p u = Inr u'" "up_inv u" "0 \<le> p" "p \<le> 1"
  shows "up_inv u'"
proof -
  from assms(1) obtain s q where s: "map_of (up_percentages u) i = Some (s, q)" "u' = u\<lparr> up_percentages := dput i (s, p) (up_percentages u) \<rparr>"
    by (auto simp: set_progress_def split: option.splits)
  have known: "(i, s, q) \<in> set (up_percentages u)" using s(1) by (rule map_of_SomeD)
  then have "i \<in> set (map fst (up_percentages u))" by force
  then have keys: "set (map fst (up_percentages u')) = set (map fst (up_percentages u))"
    using set_keys_dput [of i "(s, p)" "up_percentages u"] by (simp add: s(2) keys_def insert_absorb)
  have size0: "0 \<le> s" using assms(2) known by (force simp: up_inv_def tracked_def)
  have "\<forall>e \<in> set (up_percentages u'). 0 \<le> fst (snd e) \<and> 0 \<le> snd (snd e) \<and> snd (snd e) \<le> 1"
  proof
    fix e assume "e \<in> set (up_percentages u')"
    then have "e = (i, s, p) \<or> e \<in> set (up_percentages u)" unfolding s(2) by (auto dest: in_dput)
    then show "0 \<le> fst (snd e) \<and> 0 \<le> snd (snd e) \<and> snd (snd e) \<le> 1"
      using assms(2-4) size0 by (elim disjE) (simp_all add: up_inv_def tracked_def)
  qed
  with keys assms(2) show ?thesis
    by (simp add: up_inv_def counted_def tracked_def numbered_def calm_def files_def s(2))
qed

lemma statuschange_inv:
  assumes "statuschange cur prev f u = Inr u'" "up_inv u"
  shows "up_inv u'"
proof -
  have leave: "up_inv (on_item (uf_id f) (leave_status prev) u)" using assms(2) by (intro on_item_inv) (simp_all add: leave_status_def)
  let ?u1 = "on_item (uf_id f) (leave_status prev) u"
  have upd: "up_inv (on_item (uf_id f) (\<lambda>x. x\<lparr> ui_error := e \<rparr>) ?u1)" "up_inv (on_item (uf_id f) (\<lambda>x. x\<lparr> ui_error := None, ui_bar := True \<rparr>) ?u1)"
    "up_inv (on_item (uf_id f) (\<lambda>x. x\<lparr> ui_success := Suc (ui_success x) \<rparr>) ?u1)" for e
    using on_item_inv [OF _ leave, of "\<lambda>x. x\<lparr> ui_error := e \<rparr>" "uf_id f"] on_item_inv [OF _ leave, of "\<lambda>x. x\<lparr> ui_error := None, ui_bar := True \<rparr>" "uf_id f"]
      on_item_inv [OF _ leave, of "\<lambda>x. x\<lparr> ui_success := Suc (ui_success x) \<rparr>" "uf_id f"] by simp_all
  from assms(1) obtain u2 where "u' = on_item (uf_id f) (swap_class cur prev) u2" "up_inv u2"
    using leave upd set_progress_inv [OF _ upd(1)] set_progress_inv [OF _ leave]
    by (auto simp: statuschange_def Let_def split: if_splits)
  then show ?thesis using on_item_inv [of "swap_class cur prev"] by (simp add: swap_class_def Let_def)
qed

lemma keys_set_dput: "set (map fst (dput k v d)) = insert k (set (map fst d))"
  using set_keys_dput [of k v d] by (simp add: keys_def)

lemma Queued_inv:
  assumes "up_inv u" "uf_id f \<notin> uf_id ` set (files u)" "uf_status f \<noteq> ''invalid''" "0 \<le> uf_bytes f"
  shows "up_inv (onFileQueued st f u)"
proof -
  define u1 where "u1 = u\<lparr> up_fileCount := up_fileCount u + 1, up_fileSize := up_fileSize u + uf_bytes f \<rparr>"
  define u2 where "u2 = (if up_fileCount u1 = 1 then u1\<lparr> up_placeholder := False, up_barShown := True \<rparr> else u1)"
  define u3 where "u3 = addFile f u2"
  have files: "files u3 = files u @ [f]"
    using assms(3) by (simp add: u3_def addFile_def u2_def u1_def files_def tell_def Let_def)
  have count: "up_fileCount u3 = up_fileCount u + 1" "up_fileSize u3 = up_fileSize u + uf_bytes f"
    by (simp_all add: u3_def addFile_def u2_def u1_def tell_def Let_def)
  have perc: "up_percentages u3 = dput (uf_id f) (uf_bytes f, 0) (up_percentages u)"
    using assms(3) by (simp add: u3_def addFile_def u2_def u1_def tell_def Let_def)
  have rest: "up_photos u3 = up_photos u" "up_covers u3 = up_covers u" "up_sequence u3 = up_sequence u" "calm u3 = calm u"
    using assms(3) by (auto simp: u3_def addFile_def u2_def u1_def tell_def Let_def calm_def)
  have "counted u3" using assms(1,2,4) by (auto simp: up_inv_def counted_def files count)
  moreover have "tracked u3"
  proof -
    have "0 \<le> fst (snd e) \<and> 0 \<le> snd (snd e) \<and> snd (snd e) \<le> 1" if e: "e \<in> set (up_percentages u3)" for e
    proof -
      have "e = (uf_id f, uf_bytes f, 0) \<or> e \<in> set (up_percentages u)" using e unfolding perc by (rule in_dput)
      with assms(1,4) show ?thesis by (elim disjE) (simp_all add: up_inv_def tracked_def)
    qed
    with assms(1) show ?thesis by (simp add: tracked_def files perc keys_set_dput [simplified] up_inv_def)
  qed
  moreover have "numbered u3" using assms(1) by (simp add: up_inv_def numbered_def rest)
  moreover have "calm (setState Ready st u3)" using assms(1) by (intro setState_calm) (simp_all add: rest up_inv_def)
  moreover have "onFileQueued st f u = updateTotalProgress st (setState Ready st u3)"
    by (simp add: onFileQueued_def Let_def u3_def u2_def u1_def)
  ultimately show ?thesis
    using same_files_inv [OF same_files_trans [OF setState_same updateTotalProgress_simps(1)]] by simp
qed

lemma sum_list_filter_out:
  "distinct (map g xs) \<Longrightarrow> x \<in> set xs \<Longrightarrow> sum_list (map h (filter (\<lambda>y. g y \<noteq> g x) xs)) = sum_list (map h xs) - (h x :: int)
     \<and> int (length (filter (\<lambda>y. g y \<noteq> g x) xs)) = int (length xs) - 1"
proof (induction xs)
  case (Cons y xs)
  show ?case
  proof (cases "y = x")
    case True
    then have "filter (\<lambda>z. g z \<noteq> g x) xs = xs" using Cons.prems(1) by (auto simp: filter_id_conv image_iff)
    with True show ?thesis by simp
  next
    case False
    with Cons show ?thesis by (auto simp: image_iff)
  qed
qed simp

lemma Dequeued_inv:
  assumes "up_inv u" "f \<in> set (files u)"
  shows "up_inv (onFileDequeued st f u)"
proof -
  define u1 where "u1 = u\<lparr> up_fileCount := up_fileCount u - 1, up_fileSize := up_fileSize u - uf_bytes f \<rparr>"
  define u2 where "u2 = (if up_fileCount u1 = 0 then setState Pedding st u1 else u1)"
  define u3 where "u3 = removeFile st (uf_id f) u2"
  have s12: "same_files u1 u2" using setState_same by (simp add: u2_def same_files_def)
  have u3: "u3 = (updateTotalProgress st (u2\<lparr> up_percentages := ddel (uf_id f) (up_percentages u2) \<rparr>))
      \<lparr> up_items := filter (\<lambda>x. uf_id (ui_file x) \<noteq> uf_id f) (up_items u2) \<rparr>"
    by (simp add: u3_def removeFile_def Let_def updateTotalProgress_def updateStatus_def)
  have files: "files u3 = filter (\<lambda>g. uf_id g \<noteq> uf_id f) (files u)"
    using s12 by (simp add: u3 files_def same_files_def u1_def filter_map o_def)
  have fields: "up_fileCount u3 = up_fileCount u - 1" "up_fileSize u3 = up_fileSize u - uf_bytes f"
    "up_percentages u3 = ddel (uf_id f) (up_percentages u)" "up_photos u3 = up_photos u" "up_covers u3 = up_covers u" "up_sequence u3 = up_sequence u"
    using s12 by (simp_all add: u3 same_files_def u1_def updateTotalProgress_def updateStatus_def)
  have "calm u1" using assms(1) by (simp add: u1_def up_inv_def calm_def)
  then have "calm u2" by (simp add: u2_def setState_calm)
  then have c3: "calm u3" by (simp add: u3 calm_def updateTotalProgress_def updateStatus_def)
  have dist: "distinct (map uf_id (files u))" using assms(1) by (simp add: up_inv_def counted_def)
  have "counted u3"
    using assms(1) sum_list_filter_out [OF dist assms(2), of uf_bytes] distinct_filter
    by (auto simp: up_inv_def counted_def files fields distinct_map_filter)
  moreover have "tracked u3"
  proof -
    have "set (map fst (up_percentages u3)) = set (map fst (up_percentages u)) - {uf_id f}"
      by (auto simp: fields ddel_def)
    also have "\<dots> = uf_id ` set (files u) - {uf_id f}" using assms(1) by (simp add: up_inv_def tracked_def)
    also have "\<dots> = uf_id ` set (files u3)" by (auto simp: files)
    finally show ?thesis using assms(1) by (auto simp: tracked_def up_inv_def fields ddel_def)
  qed
  moreover have "numbered u3" using assms(1) by (simp add: up_inv_def numbered_def fields)
  moreover have "onFileDequeued st f u = updateTotalProgress st u3"
    by (simp add: onFileDequeued_def Let_def u3_def u2_def u1_def)
  ultimately show ?thesis using same_files_inv [OF updateTotalProgress_simps(1) [of u3 st]] c3 by simp
qed

lemma up_init_inv: "up_inv (upload_init st)"
  by (simp add: up_inv_def upload_init_def counted_def tracked_def numbered_def calm_def files_def photo_inputs_def updateTotalProgress_def updateStatus_def)

lemma up_reach_inv: "up_reach u \<Longrightarrow> up_inv u"
proof (induction rule: up_reach.induct)
  case (Init st)
  show ?case by (rule up_init_inv)
next
  case (Step u u')
  from Step.hyps(2) show ?case
  proof (cases rule: up_step.cases)
    case (Queued f st)
    then show ?thesis using Queued_inv [OF Step.IH] by simp
  next
    case (Dequeued f st)
    then show ?thesis using Dequeued_inv [OF Step.IH] by simp
  next
    case (Progress f p st)
    let ?u1 = "on_item (uf_id f) (\<lambda>x. x\<lparr> ui_width := p * 100 \<rparr>) u"
    from Progress obtain u2 where u2: "set_progress (uf_id f) p ?u1 = Inr u2" "u' = updateTotalProgress st u2"
      by (auto simp: onUploadProgress_def)
    have "up_inv ?u1" using Step.IH by (intro on_item_inv) simp_all
    from set_progress_inv [OF u2(1) this] Progress have "up_inv u2" by simp
    then show ?thesis using same_files_inv [OF updateTotalProgress_simps(1) [of u2 st]] by (simp add: u2(2) up_inv_def)
  next
    case (Status f cur prev)
    then show ?thesis using statuschange_inv [OF _ Step.IH] by blast
  next
    case (Success path w h)
    then show ?thesis using Step.IH
      by (simp add: up_inv_def counted_def tracked_def numbered_def calm_def files_def onUploadSuccess_def photo_inputs_def)
  next
    case (All type st)
    have "calm u" using Step.IH by (simp add: up_inv_def)
    then have "calm (on_all type st u)" by (simp add: on_all_def setState_calm)
    moreover have "same_files u (on_all type st u)" by (simp add: on_all_def setState_same) (simp add: same_files_def)
    ultimately show ?thesis using All Step.IH same_files_inv by (simp add: up_inv_def)
  next
    case (Panel f k)
    then show ?thesis using Step.IH on_item_inv [OF _ Step.IH, of "\<lambda>x. x\<lparr> ui_rotation := ui_rotation x + d \<rparr>" "uf_id f" for d]
      by (auto simp: panel_click_def tell_def up_inv_def counted_def tracked_def numbered_def calm_def files_def)
  qed (use Step.IH in \<open>auto simp: up_inv_def counted_def tracked_def numbered_def calm_def files_def uploadAccept_def onError_def alert_def tell_def
      upload_click_def retry_click_def ignore_click_def split: up_state.splits\<close>)
qed

text \<open>C11: Whatever is queued, taken out, uploaded and clicked, the page counts the files of its list and their sizes right, and
  keeps the progress of exactly these files; the stored photos are numbered one after the other, as the form binds them;
  and the page is never reloaded, since the finish is entered only after a success.\<close>

theorem upload_counted:
  assumes "up_reach u"
  shows "up_fileCount u = int (length (up_items u)) \<and> up_fileSize u = sum_list (map uf_bytes (files u))
    \<and> distinct (map uf_id (files u)) \<and> set (map fst (up_percentages u)) = uf_id ` set (files u)
    \<and> map fst (up_photos u) = photo_inputs (up_sequence u) \<and> up_st u \<noteq> Done \<and> Reload_page \<notin> set (up_calls u)"
  using up_reach_inv [OF assms] by (simp add: up_inv_def counted_def tracked_def numbered_def calm_def files_def)

lemma loaded_bounds:
  "\<forall>e \<in> set d. 0 \<le> fst (snd e) \<and> 0 \<le> snd (snd e) \<and> snd (snd e) \<le> 1 \<Longrightarrow>
   0 \<le> total_size d \<and> 0 \<le> loaded_size d \<and> loaded_size d \<le> of_int (total_size d)"
proof (induction d)
  case (Cons e d)
  obtain k s q where e: "e = (k, s, q)" by (cases e)
  with Cons.prems have q: "0 \<le> s" "0 \<le> q" "q \<le> 1" by auto
  have "of_int s * q \<le> (of_int s :: rat)" using q mult_left_mono [of q 1 "of_int s"] by simp
  moreover have "0 \<le> of_int s * q" using q by simp
  ultimately show ?case using Cons.IH Cons.prems q(1) by (simp add: e total_size_def loaded_size_def)
qed (simp add: total_size_def loaded_size_def)

lemma loaded_all: "\<forall>e \<in> set d. snd (snd e) = 1 \<Longrightarrow> loaded_size d = of_int (total_size d)"
  by (induction d) (auto simp: total_size_def loaded_size_def)

lemma round_bounds: "0 \<le> x \<Longrightarrow> x \<le> 100 \<Longrightarrow> 0 \<le> round_half_up x \<and> round_half_up x \<le> 100"
  unfolding round_half_up_def by (simp add: le_floor_iff floor_le_iff)

lemma round_100 [simp]: "round_half_up 100 = 100"
  unfolding round_half_up_def by (rule floor_unique) simp_all


text \<open>A file that is dropped on the page during the upload makes it ready, while the button still says to pause: a click
  on it starts the upload instead of pausing it.\<close>

theorem pause_starts:
  assumes "up_st u = Uploading" "up_button u = Pause_upload"
  shows "up_button (onFileQueued st f u) = Pause_upload
    \<and> up_calls (upload_click False (onFileQueued st f u)) = up_calls (onFileQueued st f u) @ [Start]
    \<and> up_calls (upload_click False u) = up_calls u @ [Stop]"
proof -
  let ?u = "onFileQueued st f u"
  have "up_st ?u = Ready" "up_button ?u = Pause_upload"
    using assms by (simp_all add: onFileQueued_def setState_def addFile_def tell_def Let_def)
  with assms(1) show ?thesis by (simp add: upload_click_def tell_def)
qed

text \<open>A dragged item of no known type is denied as well.\<close>

lemma dnd_unknown: "\<not> dndAccept [[]]" "dndAccept [''image/png'']" "\<not> dndAccept [''text/plain'']"
  by code_simp+

section \<open>A sample session\<close>

definition sample_file :: "string \<Rightarrow> int \<Rightarrow> up_file" where
  "sample_file i n = \<lparr> uf_id = i, uf_name = i, uf_bytes = n, uf_status = ''queued'', uf_statusText = [] \<rparr>"

definition no_stats :: up_stats where "no_stats = \<lparr> successNum = 0, uploadFailNum = 0 \<rparr>"

definition queued_page :: upload_page where
  "queued_page = onFileQueued no_stats (sample_file ''b'' 100) (onFileQueued no_stats (sample_file ''a'' 300) (upload_init no_stats))"

lemma queued_reach: "up_reach queued_page"
proof -
  have "up_step (upload_init no_stats) (onFileQueued no_stats (sample_file ''a'' 300) (upload_init no_stats))"
    by (rule Queued) (simp_all add: sample_file_def files_def upload_init_def updateTotalProgress_def updateStatus_def)
  with Init have a: "up_reach (onFileQueued no_stats (sample_file ''a'' 300) (upload_init no_stats))" by (rule Step)
  have ids: "map uf_id (files (onFileQueued no_stats (sample_file ''a'' 300) (upload_init no_stats))) = [''a'']" by code_simp
  have "up_step (onFileQueued no_stats (sample_file ''a'' 300) (upload_init no_stats)) queued_page"
    unfolding queued_page_def
    by (rule Queued) (use arg_cong [OF ids, of set] in \<open>simp_all add: sample_file_def\<close>)
  with a show ?thesis by (rule Step)
qed

theorem upload_counted_witness:
  "up_reach queued_page \<and> up_fileCount queued_page = int (length (up_items queued_page)) \<and> up_fileSize queued_page = 400"
proof -
  have "up_fileSize queued_page = 400" by code_simp
  with queued_reach upload_counted [OF queued_reach, THEN conjunct1] show ?thesis by (intro conjI)
qed


theorem pause_starts_witness:
  "up_button (onFileQueued no_stats (sample_file ''c'' 5) (on_all ''startUpload'' no_stats queued_page)) = Pause_upload"
proof -
  have "up_st (on_all ''startUpload'' no_stats queued_page) = Uploading" "up_button (on_all ''startUpload'' no_stats queued_page) = Pause_upload"
    by code_simp+
  then show ?thesis by (rule pause_starts [THEN conjunct1])
qed

end
