(* ===== verification/Houses.thy ===== *)
theory Houses
  imports Prelude
begin

text \<open>
  The administration of the houses, under \<^verbatim>\<open>soufang/src/main/resources/static/js\<close>: the printing
  of dates (\<^verbatim>\<open>common.js\<close>), the linked selectors of city, region and subway
  (\<^verbatim>\<open>admin/house-common.js\<close>) in the forms that add and edit a house
  (\<^verbatim>\<open>admin/house-add.js\<close>, \<^verbatim>\<open>admin/house-edit.js\<close>), and the tables of the houses and of
  the appointments (\<^verbatim>\<open>admin/house-list.js\<close>, \<^verbatim>\<open>admin/house-subscribe.js\<close>). Characters outside
  ASCII are written as \<open>u\<close> and their code points.
\<close>

section \<open>Dates\<close>

text \<open>The fields of a date in the time of the browser; months are counted from 0.\<close>

record date =
  dt_year :: int
  dt_month :: nat
  dt_day :: nat
  dt_hours :: nat
  dt_minutes :: nat
  dt_seconds :: nat
  dt_ms :: nat

text \<open>\<open>s.substr(start)\<close>; a negative start counts from the end.\<close>

definition js_substr :: "int \<Rightarrow> string \<Rightarrow> string" where
  "js_substr start s = (if start \<ge> 0 then List.drop (nat start) s else List.drop (nat (max 0 (int (length s) + start))) s)"

text \<open>The first run of a character: what is before it, its length, what is after it.\<close>

definition find_run :: "char \<Rightarrow> string \<Rightarrow> string \<times> nat \<times> string" where
  "find_run c s =
     (let r = dropWhile (\<lambda>x. x \<noteq> c) s in (takeWhile (\<lambda>x. x \<noteq> c) s, length (takeWhile (\<lambda>x. x = c) r), dropWhile (\<lambda>x. x = c) r))"

definition format_year :: "date \<Rightarrow> string \<Rightarrow> string" where
  "format_year d s =
     (case find_run CHR ''y'' s of (a, n, b) \<Rightarrow> if n = 0 then s else a @ js_substr (4 - int n) (show_int (dt_year d)) @ b)"

definition pad_zeros :: "nat \<Rightarrow> string" where
  "pad_zeros v = js_substr (int (length (show_nat v))) (''00'' @ show_nat v)"

definition format_key :: "char \<Rightarrow> nat \<Rightarrow> string \<Rightarrow> string" where
  "format_key c v s =
     (case find_run c s of (a, n, b) \<Rightarrow> if n = 0 then s else a @ (if n = 1 then show_nat v else pad_zeros v) @ b)"

text \<open>The pattern of the milliseconds is a single \<open>S\<close>.\<close>

definition format_ms :: "nat \<Rightarrow> string \<Rightarrow> string" where
  "format_ms v s =
     (case find_run CHR ''S'' s of (a, n, b) \<Rightarrow> if n = 0 then s else a @ show_nat v @ replicate (n - 1) (CHR ''S'') @ b)"

definition date_Format :: "string \<Rightarrow> date \<Rightarrow> string" where
  "date_Format fmt d =
     format_ms (dt_ms d)
       (format_key CHR ''q'' ((dt_month d + 3) div 3)
         (format_key CHR ''s'' (dt_seconds d)
           (format_key CHR ''m'' (dt_minutes d)
             (format_key CHR ''h'' (dt_hours d)
               (format_key CHR ''d'' (dt_day d)
                 (format_key CHR ''M'' (dt_month d + 1) (format_year d fmt)))))))"

section \<open>The linked selectors\<close>

text \<open>What is asked for, and the answer: the status, the code, the message, and the items with their values and texts.\<close>

datatype sel_req = Cities | Regions string | Lines string | Stations string

record sel_answer =
  sa_success :: bool
  sa_code :: int
  sa_message :: string
  sa_items :: "(string \<times> string) list"

text \<open>An option: its value, its text, and whether it is written as selected.\<close>

type_synonym sel_option = "string \<times> string \<times> bool"

record address_form =
  af_city :: string
  af_region :: string
  af_cities :: "sel_option list"
  af_regions :: "sel_option list"
  af_lines :: "sel_option list"
  af_stations :: "sel_option list"
  af_pending :: "sel_req list"
  af_messages :: "string list"

definition tipStr :: sel_option where
  "tipStr = ([], ''u8bf7u9009u62e9'', False)"

definition plain_options :: "(string \<times> string) list \<Rightarrow> sel_option list" where
  "plain_options items = tipStr # map (\<lambda>(v, t). (v, t, False)) items"

definition region_options :: "string \<Rightarrow> (string \<times> string) list \<Rightarrow> sel_option list" where
  "region_options selectedVal items = tipStr # map (\<lambda>(v, t). (v, t, v = selectedVal)) items"

definition sel_message :: "string \<Rightarrow> address_form \<Rightarrow> address_form" where
  "sel_message m f = f\<lparr> af_messages := af_messages f @ [m] \<rparr>"

definition sel_showError :: "string \<Rightarrow> address_form \<Rightarrow> address_form" where
  "sel_showError m = sel_message (''Error: '' @ m)"

definition sel_ask :: "sel_req \<Rightarrow> address_form \<Rightarrow> address_form" where
  "sel_ask r f = f\<lparr> af_pending := af_pending f @ [r] \<rparr>"

definition changeCity :: "address_form \<Rightarrow> address_form" where "changeCity = sel_ask Cities"
definition changeRegion :: "string \<Rightarrow> address_form \<Rightarrow> address_form" where "changeRegion cityName = sel_ask (Regions cityName)"
definition changeSubwayLine :: "string \<Rightarrow> address_form \<Rightarrow> address_form" where "changeSubwayLine cityName = sel_ask (Lines cityName)"
definition changeSubwayStation :: "string \<Rightarrow> address_form \<Rightarrow> address_form" where "changeSubwayStation line = sel_ask (Stations line)"

text \<open>
  The handler of an answer. Replacing the options of a selector leaves it on the first of them, unless one is written
  as selected.
\<close>

definition sel_received :: "sel_req \<Rightarrow> sel_answer \<Rightarrow> address_form \<Rightarrow> address_form" where
  "sel_received r a f =
     (if \<not> sa_success a \<or> sa_code a \<noteq> 200 then sel_showError (sa_message a) f
      else case r of
             Cities \<Rightarrow> f\<lparr> af_cities := plain_options (sa_items a), af_city := [] \<rparr>
           | Regions cityName \<Rightarrow>
               f\<lparr> af_regions := region_options (af_region f) (sa_items a),
                  af_region := (if af_region f \<in> set (map fst (sa_items a)) then af_region f else []) \<rparr>
           | Lines cityName \<Rightarrow> f\<lparr> af_lines := plain_options (sa_items a) \<rparr>
           | Stations line \<Rightarrow> f\<lparr> af_stations := plain_options (sa_items a) \<rparr>)"

text \<open>The answer to the request at a position of those under way.\<close>

definition sel_answered :: "(sel_req \<Rightarrow> sel_answer) \<Rightarrow> nat \<Rightarrow> address_form \<Rightarrow> address_form" where
  "sel_answered server i f =
     (let r = af_pending f ! i in sel_received r (server r) (f\<lparr> af_pending := take i (af_pending f) @ List.drop (Suc i) (af_pending f) \<rparr>))"

section \<open>The form of a new house\<close>

definition empty_form :: address_form where
  "empty_form = \<lparr> af_city = [], af_region = [], af_cities = [], af_regions = [], af_lines = [], af_stations = [], af_pending = [], af_messages = [] \<rparr>"

definition add_init :: address_form where "add_init = changeCity empty_form"

text \<open>The user chooses a city, and a line.\<close>

definition add_city_change :: "string \<Rightarrow> address_form \<Rightarrow> address_form" where
  "add_city_change v f0 =
     (let f = f0\<lparr> af_city := v \<rparr>
      in if v = [] then sel_message ''u8bf7u9009u62e9u6240u5728u57ceu5e02uff01'' f else changeSubwayLine v (changeRegion v f))"

definition add_line_change :: "string \<Rightarrow> address_form \<Rightarrow> address_form" where
  "add_line_change v f = (if v = [] then sel_message ''u8bf7u9009u62e9u5730u94c1u7ebfu8defuff01'' f else changeSubwayStation v f)"

text \<open>The set of the tags, in the order in which they were added.\<close>

definition toggle_tag :: "string \<Rightarrow> string list \<Rightarrow> string list" where
  "toggle_tag tag tags = (if tag \<in> set tags then removeAll tag tags else tags @ [tag])"

definition tag_input :: "nat \<Rightarrow> string \<Rightarrow> string \<times> string" where
  "tag_input index tag = (''tags['' @ show_nat index @ '']'', tag)"

definition tag_inputs :: "string list \<Rightarrow> (string \<times> string) list" where
  "tag_inputs tags = map2 tag_input [0..<length tags] tags"

datatype submit_result = Missing_cover | Submitted "(string \<times> string) list"

definition add_submit :: "string option \<Rightarrow> string list \<Rightarrow> submit_result" where
  "add_submit cover tags =
     (case cover of None \<Rightarrow> Missing_cover | Some c \<Rightarrow> if c = [] then Missing_cover else Submitted (tag_inputs tags))"

section \<open>The form of an old house\<close>

text \<open>The city that was chosen when the page was loaded is used ever after.\<close>

definition edit_init :: "string \<Rightarrow> string \<Rightarrow> string \<times> address_form" where
  "edit_init city region = (city, changeRegion city (empty_form\<lparr> af_city := city, af_region := region \<rparr>))"

definition edit_city_change :: "string \<Rightarrow> string \<times> address_form \<Rightarrow> string \<times> address_form" where
  "edit_city_change v sf =
     (case sf of (selectedVal, f) \<Rightarrow> (selectedVal, changeSubwayLine selectedVal (changeRegion selectedVal (f\<lparr> af_city := v \<rparr>))))"

definition edit_line_change :: "string \<Rightarrow> address_form \<Rightarrow> address_form" where
  "edit_line_change v f = (if v = [] then sel_message ''u6ca1u9009u62e9u5730u94c1u7ebfu8defuff01'' f else changeSubwayStation v f)"

datatype photo_request = Set_cover string string | Delete_photo string | Cancelled

text \<open>The three buttons of the dialog over a photo.\<close>

definition photo_choice :: "nat \<Rightarrow> string \<Rightarrow> string \<Rightarrow> photo_request" where
  "photo_choice button photo house = (if button = 0 then Set_cover photo house else if button = 1 then Delete_photo photo else Cancelled)"

definition photo_deleted :: "int \<Rightarrow> string \<Rightarrow> string list \<Rightarrow> string list" where
  "photo_deleted code photo photos = (if code = 200 then removeAll photo photos else photos)"

section \<open>The table of the houses\<close>

text \<open>The cells of the number, the title and the picture: a click shows the house.\<close>

definition show_link :: "string \<Rightarrow> string" where
  \<open>show_link i = ''onClick="house_edit('u67e5u770b', '/admin/house/show?id='' @ i @ [CHR 0x27] @ '')" title="u67e5u770b"''\<close>

definition text_cell :: "string \<Rightarrow> string \<Rightarrow> string" where
  \<open>text_cell i text =
     ''<td class="text-l"><u style="cursor:pointer" class="text-primary"'' @ show_link i @ ''>'' @ text @ ''</u></td>''\<close>

definition picture_cell :: "string \<Rightarrow> string \<Rightarrow> string" where
  \<open>picture_cell i cover =
     ''<td><img '' @ show_link i @ '' class="picture-thumb" src="'' @ cover @ ''?imageView2/1/w/200/h/100"></td>''\<close>

definition status_cell :: "int \<Rightarrow> string" where
  \<open>status_cell status =
     (if status = 0 then ''<td class="td-status"><span class="label label-danger radius">u5f85u5ba1u6838</span></td>''
      else if status = 1 then ''<td class="td-status"><span class="label label-success radius">u5df2u53d1u5e03</span></td>''
      else if status = 2 then ''<td class="td-status"><span class="label label-warning radius">u5df2u51fau79df</span></td>''
      else ''<td class="td-status"><span class="label label-danger radius">u672au77e5u72b6u6001</span></td>'')\<close>

definition time_cell :: "date \<Rightarrow> string" where
  "time_cell = date_Format ''yyyy-MM-dd hh:mm:ss''"

datatype row_action = Act_pass nat | Act_stop nat | Act_edit string | Act_delete nat

text \<open>The actions that the last cell of a row offers.\<close>

definition manage_cell :: "int \<Rightarrow> nat \<Rightarrow> row_action list" where
  "manage_cell status i =
     (if status = 0 then [Act_pass i] else if status = 1 then [Act_stop i] else [])
       @ [Act_edit (''/admin/house/edit?id='' @ show_nat i), Act_delete i]"

record house_filter =
  hf_status :: string
  hf_timeMin :: string
  hf_timeMax :: string
  hf_city :: string
  hf_title :: string

record table_request =
  rq_order :: "nat \<times> string"
  rq_draw :: nat
  rq_start :: nat
  rq_length :: nat

definition house_columns :: "string option list" where
  "house_columns =
     [Some ''id'', Some ''title'', Some ''cover'', Some ''area'', Some ''price'', Some ''floor'', Some ''watchTimes'', Some ''createTime'',
      Some ''status'', None]"

definition house_post :: "house_filter \<Rightarrow> table_request \<Rightarrow> (string \<times> string) list" where
  "house_post h t =
     (if hf_status h \<noteq> [] then [(''status'', hf_status h)] else []) @ (if hf_city h \<noteq> [] then [(''city'', hf_city h)] else [])
     @ (if hf_title h \<noteq> [] then [(''title'', hf_title h)] else [])
     @ [(''direction'', snd (rq_order t)), (''orderBy'', case house_columns ! fst (rq_order t) of Some c \<Rightarrow> c | None \<Rightarrow> []),
        (''createTimeMin'', hf_timeMin h), (''createTimeMax'', hf_timeMax h), (''draw'', show_nat (rq_draw t)),
        (''start'', show_nat (rq_start t)), (''length'', show_nat (rq_length t))]"

text \<open>The operations on a row: what is sent when the user confirms, and what is done with the answer.\<close>

datatype house_op = Pass | Pull_out | Delete

definition op_number :: "house_op \<Rightarrow> nat" where
  "op_number v = (case v of Pass \<Rightarrow> 1 | Pull_out \<Rightarrow> 2 | Delete \<Rightarrow> 3)"

definition op_url :: "house_op \<Rightarrow> nat \<Rightarrow> string" where
  "op_url v i = ''/admin/house/operate/'' @ show_nat i @ ''/'' @ show_nat (op_number v)"

text \<open>A row: its house, whether it has elements of the classes the code looks for, what they show.\<close>

record row_view =
  rw_house :: nat
  rw_classed :: bool
  rw_status :: string
  rw_actions :: "string list"

record house_table =
  ht_rows :: "row_view list"
  ht_messages :: "string list"
  ht_reloads :: nat

definition on_row :: "nat \<Rightarrow> (row_view \<Rightarrow> row_view) \<Rightarrow> house_table \<Rightarrow> house_table" where
  "on_row i g t = t\<lparr> ht_rows := map (\<lambda>r. if rw_house r = i then g r else r) (ht_rows t) \<rparr>"

definition table_message :: "string \<Rightarrow> house_table \<Rightarrow> house_table" where
  "table_message m t = t\<lparr> ht_messages := ht_messages t @ [m] \<rparr>"

definition reloadTable :: "house_table \<Rightarrow> house_table" where
  "reloadTable t = t\<lparr> ht_reloads := Suc (ht_reloads t) \<rparr>"

definition op_failed :: "house_op \<Rightarrow> string" where
  "op_failed v = (case v of Delete \<Rightarrow> ''u5220u9664u5931u8d25uff01'' | Pull_out \<Rightarrow> ''u4e0bu67b6u5931u8d25uff01'' | Pass \<Rightarrow> ''u53d1u5e03u5931u8d25uff01'')"

text \<open>The new status and action are put where the classes are found; the clicked action goes in any case.\<close>

definition row_changed :: "string \<Rightarrow> string \<Rightarrow> string \<Rightarrow> row_view \<Rightarrow> row_view" where
  "row_changed status action clicked r =
     (let r' = r\<lparr> rw_actions := removeAll clicked (rw_actions r) \<rparr>
      in if rw_classed r then r'\<lparr> rw_status := status, rw_actions := action # rw_actions r' \<rparr> else r')"

text \<open>The action that is put before the others names a variable \<open>id\<close>, not the number of the house.\<close>

definition op_success :: "house_op \<Rightarrow> nat \<Rightarrow> int \<Rightarrow> string \<Rightarrow> house_table \<Rightarrow> house_table" where
  "op_success v i code message t =
     (if code \<noteq> 200 then table_message (op_failed v @ message) t
      else case v of
             Delete \<Rightarrow> reloadTable (table_message ''u5df2u5220u9664!'' (t\<lparr> ht_rows := filter (\<lambda>r. rw_house r \<noteq> i) (ht_rows t) \<rparr>))
           | Pull_out \<Rightarrow> reloadTable (table_message ''u5df2u4e0bu67b6!'' (on_row i (row_changed ''u5df2u4e0bu67b6'' ''house_pass(this,id)'' (''house_stop(this,'' @ show_nat i @ '')'')) t))
           | Pass \<Rightarrow> reloadTable (table_message ''u5df2u53d1u5e03!'' (on_row i (row_changed ''u5df2u53d1u5e03'' ''house_stop(this,id)'' (''house_pass(this,'' @ show_nat i @ '')'')) t)))"

definition op_error :: "house_op \<Rightarrow> string \<Rightarrow> house_table \<Rightarrow> house_table" where
  "op_error v responseText t = table_message (op_failed v @ responseText) t"

text \<open>An appointment is finished: its row goes.\<close>

definition finish_success :: "nat \<Rightarrow> int \<Rightarrow> string \<Rightarrow> house_table \<Rightarrow> house_table" where
  "finish_success i code message t =
     (if code = 200 then reloadTable (table_message ''u5df2u5b8cu6210!'' (t\<lparr> ht_rows := filter (\<lambda>r. rw_house r \<noteq> i) (ht_rows t) \<rparr>))
      else table_message (''u72b6u6001u4feeu6539u5931u8d25uff01'' @ message) t)"

definition finish_request :: "nat \<Rightarrow> (string \<times> string) list" where
  "finish_request i = [(''house_id'', show_nat i)]"

section \<open>What a printed date says\<close>

lemma find_run_skip:
  "c \<notin> set w \<Longrightarrow> find_run c (w @ s) = (case find_run c s of (a, n, b) \<Rightarrow> (w @ a, n, b))"
  by (induction w) (auto simp: find_run_def Let_def)

lemma run_of_same:
  assumes "\<forall>x xs. s = x # xs \<longrightarrow> x \<noteq> c"
  shows "takeWhile (\<lambda>x. x = c) (replicate n c @ s) = replicate n c" "dropWhile (\<lambda>x. x = c) (replicate n c @ s) = s"
  using assms by (induction n) (cases s; simp)+

lemma find_run_here:
  assumes "0 < n" "\<forall>x xs. s = x # xs \<longrightarrow> x \<noteq> c"
  shows "find_run c (replicate n c @ s) = ([], n, s)"
proof -
  obtain m where "n = Suc m" using assms(1) by (cases n) auto
  then have "takeWhile (\<lambda>x. x \<noteq> c) (replicate n c @ s) = []" "dropWhile (\<lambda>x. x \<noteq> c) (replicate n c @ s) = replicate n c @ s" by simp_all
  then show ?thesis using run_of_same [OF assms(2), of n] by (simp add: find_run_def Let_def)
qed

lemma find_run_none: "c \<notin> set s \<Longrightarrow> find_run c s = (s, 0, [])"
  by (induction s) (auto simp: find_run_def Let_def)

lemma format_key_none: "c \<notin> set s \<Longrightarrow> format_key c v s = s"
  by (simp add: format_key_def find_run_none)

lemma format_key_two:
  assumes "c \<notin> set w" "\<forall>x xs. s = x # xs \<longrightarrow> x \<noteq> c"
  shows "format_key c v (w @ c # c # s) = w @ pad_zeros v @ s"
proof -
  have "find_run c (c # c # s) = ([], 2, s)" using find_run_here [OF _ assms(2), of 2] by (simp add: numeral_2_eq_2)
  then show ?thesis by (simp add: format_key_def find_run_skip [OF assms(1)])
qed

lemma format_ms_none: "CHR ''S'' \<notin> set s \<Longrightarrow> format_ms v s = s"
  by (simp add: format_ms_def find_run_none)

lemma show_nat_below_10: "v < 10 \<Longrightarrow> show_nat v = [digit_char v]"
  by (simp add: show_nat.simps [of v])

lemma show_nat_step: "10 \<le> v \<Longrightarrow> show_nat v = show_nat (v div 10) @ [digit_char (v mod 10)]"
  by (subst show_nat.simps) simp

lemma length_show_nat_two: "10 \<le> v \<Longrightarrow> v < 100 \<Longrightarrow> length (show_nat v) = 2"
  using show_nat_step [of v] show_nat_below_10 [of "v div 10"] by simp

lemma length_show_nat_four:
  assumes "1000 \<le> v" "v < 10000"
  shows "length (show_nat v) = 4"
proof -
  have a: "10 \<le> v div 100" "v div 100 < 100" "10 \<le> v div 10" "v div 10 div 10 = v div 100" using assms by auto
  have "length (show_nat v) = Suc (Suc (length (show_nat (v div 100))))"
    using show_nat_step [of v] show_nat_step [of "v div 10"] a assms(1) by simp
  then show ?thesis using length_show_nat_two [OF a(1,2)] by simp
qed

lemma pad_zeros_one: "v < 10 \<Longrightarrow> pad_zeros v = CHR ''0'' # [digit_char v]"
  by (simp add: pad_zeros_def js_substr_def show_nat_below_10)

lemma pad_zeros_more: "10 \<le> v \<Longrightarrow> v < 100 \<Longrightarrow> pad_zeros v = show_nat v"
  by (simp add: pad_zeros_def js_substr_def length_show_nat_two)

lemma pad_zeros_two:
  assumes "v < 100"
  shows "length (pad_zeros v) = 2" "nat_of_digits (pad_zeros v) = v" "\<forall>c \<in> set (pad_zeros v). is_digit c"
proof -
  have one: "length (pad_zeros v) = 2 \<and> nat_of_digits (pad_zeros v) = v \<and> (\<forall>c \<in> set (pad_zeros v). is_digit c)" if "v < 10"
    using that by (simp add: pad_zeros_one nat_of_digits_def digit_val_def of_digit_char) (simp add: is_digit_def)
  have more: "length (pad_zeros v) = 2 \<and> nat_of_digits (pad_zeros v) = v \<and> (\<forall>c \<in> set (pad_zeros v). is_digit c)" if "\<not> v < 10"
    using that assms show_nat_digits [of v] by (simp add: pad_zeros_more length_show_nat_two)
  show "length (pad_zeros v) = 2" "nat_of_digits (pad_zeros v) = v" "\<forall>c \<in> set (pad_zeros v). is_digit c"
    using one more by argo+
qed

lemma digits_not_letter: "\<forall>c \<in> set s. is_digit c \<Longrightarrow> \<not> is_digit c \<Longrightarrow> c \<notin> set s"
  by blast

definition valid_date :: "date \<Rightarrow> bool" where
  "valid_date d \<longleftrightarrow> 1000 \<le> dt_year d \<and> dt_year d \<le> 9999 \<and> dt_month d < 12 \<and> dt_day d < 32 \<and> dt_hours d < 24 \<and> dt_minutes d < 60 \<and> dt_seconds d < 60"

text \<open>The six numbers of a printed date, read from their places.\<close>

definition stamp_fields :: "string \<Rightarrow> nat list" where
  "stamp_fields s =
     [nat_of_digits (take 4 s), nat_of_digits (take 2 (List.drop 5 s)), nat_of_digits (take 2 (List.drop 8 s)),
      nat_of_digits (take 2 (List.drop 11 s)), nat_of_digits (take 2 (List.drop 14 s)), nat_of_digits (take 2 (List.drop 17 s))]"

lemma letters_not_digits:
  "\<not> is_digit CHR ''y''" "\<not> is_digit CHR ''M''" "\<not> is_digit CHR ''d''" "\<not> is_digit CHR ''h''" "\<not> is_digit CHR ''m''"
  "\<not> is_digit CHR ''s''" "\<not> is_digit CHR ''q''" "\<not> is_digit CHR ''S''"
  by (simp_all add: is_digit_def)

lemma format_year_four:
  assumes "1000 \<le> dt_year d" "dt_year d \<le> 9999"
  shows "format_year d (''yyyy'' @ CHR ''-'' # s) = show_nat (nat (dt_year d)) @ CHR ''-'' # s"
proof -
  have "find_run CHR ''y'' (''yyyy'' @ CHR ''-'' # s) = ([], 4, CHR ''-'' # s)"
    using find_run_here [of 4 "CHR ''-'' # s" "CHR ''y''"] by (simp add: numeral_eq_Suc)
  then show ?thesis using assms by (simp add: format_year_def js_substr_def show_int_def)
qed

lemma format_key_at:
  assumes "c \<notin> set w" "x \<noteq> c"
  shows "format_key c v (w @ c # c # x # s) = (w @ pad_zeros v @ [x]) @ s"
  using format_key_two [OF assms(1), of "x # s" v] assms(2) by simp

lemma time_cell_text:
  assumes "valid_date d"
  shows "time_cell d = show_nat (nat (dt_year d)) @ ''-'' @ pad_zeros (dt_month d + 1) @ ''-'' @ pad_zeros (dt_day d) @ '' ''
     @ pad_zeros (dt_hours d) @ '':'' @ pad_zeros (dt_minutes d) @ '':'' @ pad_zeros (dt_seconds d)"
proof -
  let ?Y = "show_nat (nat (dt_year d))" and ?M = "pad_zeros (dt_month d + 1)" and ?D = "pad_zeros (dt_day d)"
  let ?H = "pad_zeros (dt_hours d)" and ?I = "pad_zeros (dt_minutes d)" and ?S = "pad_zeros (dt_seconds d)"
  have no: "c \<notin> set ?Y" "c \<notin> set ?M" "c \<notin> set ?D" "c \<notin> set ?H" "c \<notin> set ?I" "c \<notin> set ?S" if "\<not> is_digit c" for c
    using assms that show_nat_digits [of "nat (dt_year d)"]
    by (auto simp: valid_date_def dest: pad_zeros_two(3) [THEN bspec, rotated])
  note n = letters_not_digits [THEN no(1)] letters_not_digits [THEN no(2)] letters_not_digits [THEN no(3)]
    letters_not_digits [THEN no(4)] letters_not_digits [THEN no(5)] letters_not_digits [THEN no(6)]
  have y: "format_year d ''yyyy-MM-dd hh:mm:ss'' = (?Y @ ''-'') @ ''MM-dd hh:mm:ss''"
    using format_year_four [of d "''MM-dd hh:mm:ss''"] assms by (simp add: valid_date_def)
  have m: "format_key CHR ''M'' (dt_month d + 1) ((?Y @ ''-'') @ ''MM-dd hh:mm:ss'') = (?Y @ ''-'' @ ?M @ ''-'') @ ''dd hh:mm:ss''"
    by (subst format_key_at) (simp_all add: n n [simplified])
  have dd: "format_key CHR ''d'' (dt_day d) ((?Y @ ''-'' @ ?M @ ''-'') @ ''dd hh:mm:ss'') = (?Y @ ''-'' @ ?M @ ''-'' @ ?D @ '' '') @ ''hh:mm:ss''"
    by (subst format_key_at) (simp_all add: n n [simplified])
  have h: "format_key CHR ''h'' (dt_hours d) ((?Y @ ''-'' @ ?M @ ''-'' @ ?D @ '' '') @ ''hh:mm:ss'')
      = (?Y @ ''-'' @ ?M @ ''-'' @ ?D @ '' '' @ ?H @ '':'') @ ''mm:ss''"
    by (subst format_key_at) (simp_all add: n n [simplified])
  have i: "format_key CHR ''m'' (dt_minutes d) ((?Y @ ''-'' @ ?M @ ''-'' @ ?D @ '' '' @ ?H @ '':'') @ ''mm:ss'')
      = (?Y @ ''-'' @ ?M @ ''-'' @ ?D @ '' '' @ ?H @ '':'' @ ?I @ '':'') @ ''ss''"
    by (subst format_key_at) (simp_all add: n n [simplified])
  have s: "format_key CHR ''s'' (dt_seconds d) ((?Y @ ''-'' @ ?M @ ''-'' @ ?D @ '' '' @ ?H @ '':'' @ ?I @ '':'') @ ''ss'')
      = (?Y @ ''-'' @ ?M @ ''-'' @ ?D @ '' '' @ ?H @ '':'' @ ?I @ '':'') @ ?S"
    using format_key_two [of "CHR ''s''" "?Y @ ''-'' @ ?M @ ''-'' @ ?D @ '' '' @ ?H @ '':'' @ ?I @ '':''" "[]"] n by simp
  show ?thesis
    unfolding time_cell_def date_Format_def y m dd h i s
    by (subst format_key_none) (simp_all add: n n [simplified] format_ms_none)
qed

text \<open>C33: Every date of a year of four digits that the table of the houses prints can be read back: the text has
  nineteen characters, and the six numbers in its places are the year, the month counted from one, the day, the hours,
  the minutes and the seconds.\<close>

theorem printed_date_reads_back:
  assumes "valid_date d"
  shows "length (time_cell d) = 19 \<and> stamp_fields (time_cell d)
     = [nat (dt_year d), dt_month d + 1, dt_day d, dt_hours d, dt_minutes d, dt_seconds d]"
proof -
  have l: "length (show_nat (nat (dt_year d))) = 4" "length (pad_zeros (dt_month d + 1)) = 2" "length (pad_zeros (dt_day d)) = 2"
    "length (pad_zeros (dt_hours d)) = 2" "length (pad_zeros (dt_minutes d)) = 2" "length (pad_zeros (dt_seconds d)) = 2"
    using assms length_show_nat_four [of "nat (dt_year d)"] by (auto simp: valid_date_def pad_zeros_two(1) nat_less_iff)
  have v: "nat_of_digits (pad_zeros (dt_month d + 1)) = dt_month d + 1" "nat_of_digits (pad_zeros (dt_day d)) = dt_day d"
    "nat_of_digits (pad_zeros (dt_hours d)) = dt_hours d" "nat_of_digits (pad_zeros (dt_minutes d)) = dt_minutes d"
    "nat_of_digits (pad_zeros (dt_seconds d)) = dt_seconds d"
    using assms by (simp_all add: valid_date_def pad_zeros_two(2))
  show ?thesis by (simp add: time_cell_text [OF assms] stamp_fields_def l l [simplified] v v [simplified])
qed

theorem printed_date_reads_back_witness:
  "stamp_fields (time_cell \<lparr> dt_year = 2018, dt_month = 1, dt_day = 5, dt_hours = 9, dt_minutes = 7, dt_seconds = 30, dt_ms = 1 \<rparr>)
     = [2018, 2, 5, 9, 7, 30]"
  using printed_date_reads_back [of "\<lparr> dt_year = 2018, dt_month = 1, dt_day = 5, dt_hours = 9, dt_minutes = 7, dt_seconds = 30, dt_ms = 1 \<rparr>"]
  by (simp add: valid_date_def)

section \<open>Tags\<close>

lemma toggle_tag_set: "set (toggle_tag t tags) = (if t \<in> set tags then set tags - {t} else insert t (set tags))"
  by (auto simp: toggle_tag_def)

lemma toggle_tag_distinct: "distinct tags \<Longrightarrow> distinct (toggle_tag t tags)"
  by (simp add: toggle_tag_def distinct_removeAll)

lemma toggled_set:
  "set (fold toggle_tag clicks tags) = {t. (t \<in> set tags) \<noteq> odd (count_list clicks t)}"
proof (induction clicks arbitrary: tags)
  case Nil
  then show ?case by simp
next
  case (Cons c cs)
  then show ?case by (auto simp: toggle_tag_set)
qed

lemma toggled_distinct: "distinct tags \<Longrightarrow> distinct (fold toggle_tag clicks tags)"
  by (induction clicks arbitrary: tags) (simp_all add: toggle_tag_distinct)

lemma tag_inputs_fst: "map fst (tag_inputs tags) = map (\<lambda>i. ''tags['' @ show_nat i @ '']'') [0..<length tags]"
  by (rule nth_equalityI) (simp_all add: tag_inputs_def tag_input_def)

lemma tag_inputs_snd: "map snd (tag_inputs tags) = tags"
  by (rule nth_equalityI) (simp_all add: tag_inputs_def tag_input_def)

text \<open>A new house is sent with exactly the tags that were clicked an odd number of times, each of them once, in
  inputs whose names number them from zero without a gap; without a picture for its cover nothing is sent.\<close>

theorem tags_sent:
  "\<exists>tags. add_submit (Some (c # cs)) (fold toggle_tag clicks []) = Submitted (tag_inputs tags)
     \<and> set (map snd (tag_inputs tags)) = {t. odd (count_list clicks t)} \<and> distinct (map snd (tag_inputs tags))
     \<and> map fst (tag_inputs tags) = map (\<lambda>i. ''tags['' @ show_nat i @ '']'') [0..<length tags]
     \<and> add_submit None tags = Missing_cover \<and> add_submit (Some []) tags = Missing_cover"
  by (intro exI [of _ "fold toggle_tag clicks []"])
    (simp add: add_submit_def tag_inputs_snd tag_inputs_fst toggled_set toggled_distinct)

section \<open>Which city the selectors show\<close>

lemmas form_defs = changeRegion_def changeSubwayLine_def changeSubwayStation_def changeCity_def sel_ask_def sel_message_def sel_showError_def

text \<open>All requests under way are answered in the order in which they were sent.\<close>

definition all_answered :: "(sel_req \<Rightarrow> sel_answer) \<Rightarrow> address_form \<Rightarrow> address_form" where
  "all_answered server f = fold (\<lambda>r. sel_received r (server r)) (af_pending f) (f\<lparr> af_pending := [] \<rparr>)"

lemma received_pending [simp]: "af_pending (sel_received r a f) = af_pending f"
  by (simp add: sel_received_def form_defs split: sel_req.split)

lemma received_set_pending: "sel_received r a (f\<lparr> af_pending := p \<rparr>) = (sel_received r a f)\<lparr> af_pending := p \<rparr>"
  by (simp add: sel_received_def form_defs split: sel_req.split)

text \<open>The oldest request is answered again and again until none is left.\<close>

lemma all_answered_steps: "((\<lambda>f. sel_answered server 0 f) ^^ length (af_pending f)) f = all_answered server f"
proof (induction "af_pending f" arbitrary: f)
  case Nil
  then show ?case by (simp add: all_answered_def)
next
  case (Cons r rs)
  let ?g = "sel_received r (server r) (f\<lparr> af_pending := rs \<rparr>)"
  have p: "af_pending f = r # rs" using Cons.hyps(2) by simp
  have "sel_answered server 0 f = ?g" by (simp add: sel_answered_def Let_def p)
  moreover have "((\<lambda>f. sel_answered server 0 f) ^^ length rs) ?g = all_answered server ?g"
    using Cons.hyps(1) [of ?g] by simp
  moreover have "all_answered server ?g = all_answered server f"
    by (simp add: all_answered_def p received_set_pending)
  ultimately show ?case by (simp add: p funpow_Suc_right del: funpow.simps(2))
qed

definition server_fine :: "(sel_req \<Rightarrow> sel_answer) \<Rightarrow> bool" where
  "server_fine server \<longleftrightarrow> (\<forall>r. sa_success (server r) \<and> sa_code (server r) = 200)"

definition shows_city :: "(sel_req \<Rightarrow> sel_answer) \<Rightarrow> string \<Rightarrow> address_form \<Rightarrow> bool" where
  "shows_city server v f \<longleftrightarrow>
     map fst (af_regions f) = [] # map fst (sa_items (server (Regions v))) \<and> af_lines f = plain_options (sa_items (server (Lines v)))"

lemma city_changes_pending:
  "list_all (\<lambda>v. v \<noteq> []) vs \<Longrightarrow>
     af_pending (fold add_city_change vs f) = af_pending f @ concat (map (\<lambda>v. [Regions v, Lines v]) vs)"
  by (induction vs arbitrary: f) (simp_all add: add_city_change_def form_defs Let_def)

lemma region_options_fst: "map fst (region_options sel items) = [] # map fst items"
  by (simp add: region_options_def tipStr_def comp_def case_prod_beta)

text \<open>Whatever cities the user chooses one after another in the form of a new house, when all answers come, in the
  order of the requests, the regions and the subway lines offered are those of the city chosen last.\<close>

theorem last_city_shown:
  assumes "server_fine server" "list_all (\<lambda>v. v \<noteq> []) (vs @ [v])"
  shows "let f = fold add_city_change (vs @ [v]) f0
     in shows_city server v (((\<lambda>f. sel_answered server 0 f) ^^ length (af_pending f)) f)"
proof -
  let ?f = "fold add_city_change (vs @ [v]) f0"
  have p: "af_pending ?f = (af_pending f0 @ concat (map (\<lambda>v. [Regions v, Lines v]) vs)) @ [Regions v, Lines v]"
    using city_changes_pending [OF assms(2), of f0] by simp
  have ok: "sa_success (server r) \<and> sa_code (server r) = 200" for r using assms(1) by (simp add: server_fine_def)
  have "shows_city server v (sel_received (Lines v) (server (Lines v)) (sel_received (Regions v) (server (Regions v)) g))" for g
    by (simp add: sel_received_def ok shows_city_def region_options_fst)
  then have "shows_city server v (fold (\<lambda>r. sel_received r (server r)) (ps @ [Regions v, Lines v]) g)" for ps g by simp
  then show ?thesis unfolding Let_def all_answered_steps all_answered_def p .
qed

definition two_cities :: "sel_req \<Rightarrow> sel_answer" where
  "two_cities r = \<lparr> sa_success = True, sa_code = 200, sa_message = [],
     sa_items = (case r of Regions c \<Rightarrow> [(c @ ''1'', c @ ''1'')] | Lines c \<Rightarrow> [(c @ ''2'', c @ ''2'')] | _ \<Rightarrow> []) \<rparr>"

theorem last_city_shown_witness:
  "let f = fold add_city_change [''bj'', ''sh''] empty_form
     in shows_city two_cities ''sh'' (((\<lambda>f. sel_answered two_cities 0 f) ^^ length (af_pending f)) f)"
  using last_city_shown [of two_cities "[''bj'']" "''sh''" empty_form] by (simp add: server_fine_def two_cities_def)

text \<open>Nothing orders the answers: when the answer for a city chosen earlier comes last, its regions are offered
  although another city is chosen.\<close>

theorem late_answer_shown:
  "\<exists>server f. server_fine server \<and> af_city f = ''sh'' \<and> af_pending f = [] \<and> shows_city server ''bj'' f
     \<and> f = fold (sel_answered server) [2, 2, 0, 0] (fold add_city_change [''bj'', ''sh''] empty_form)"
  by (intro exI [of _ two_cities] exI [of _ "fold (sel_answered two_cities) [2, 2, 0, 0] (fold add_city_change [''bj'', ''sh''] empty_form)"] conjI)
    (simp add: server_fine_def two_cities_def, code_simp+)

section \<open>The form of an old house asks for one city only\<close>

inductive edit_reachable :: "(sel_req \<Rightarrow> sel_answer) \<Rightarrow> string \<Rightarrow> string \<Rightarrow> string \<times> address_form \<Rightarrow> bool"
  for server city region where
  Opened: "edit_reachable server city region (edit_init city region)"
| City: "edit_reachable server city region sf \<Longrightarrow> edit_reachable server city region (edit_city_change v sf)"
| Line: "edit_reachable server city region (sel, f) \<Longrightarrow> edit_reachable server city region (sel, edit_line_change v f)"
| Answer: "edit_reachable server city region (sel, f) \<Longrightarrow> i < length (af_pending f)
     \<Longrightarrow> edit_reachable server city region (sel, sel_answered server i f)"

definition about_city :: "string \<Rightarrow> sel_req \<Rightarrow> bool" where
  "about_city c r = (case r of Regions d \<Rightarrow> d = c | Lines d \<Rightarrow> d = c | _ \<Rightarrow> True)"

lemma answered_pending: "af_pending (sel_answered server i f) = take i (af_pending f) @ List.drop (Suc i) (af_pending f)"
  by (simp add: sel_answered_def Let_def)

text \<open>C30: In the form that edits a house, every request for regions or subway lines asks about the city that was chosen
  when the page was opened, whatever city the user chooses later and in whatever order the answers come.\<close>

theorem edit_asks_old_city:
  assumes "edit_reachable server city region sf"
  shows "fst sf = city \<and> list_all (about_city city) (af_pending (snd sf))"
  using assms
proof (induction rule: edit_reachable.induct)
  case (Answer sel f i)
  then show ?case by (auto simp: answered_pending list_all_iff dest: in_set_takeD in_set_dropD)
qed (auto simp: edit_init_def edit_city_change_def edit_line_change_def form_defs empty_form_def about_city_def split: prod.splits)

theorem edit_asks_old_city_witness:
  "let sf = edit_city_change ''sh'' (edit_init ''bj'' [])
   in af_city (snd sf) = ''sh'' \<and> af_pending (snd sf) = [Regions ''bj'', Regions ''bj'', Lines ''bj'']
     \<and> list_all (about_city ''bj'') (af_pending (snd sf))"
proof -
  have "list_all (about_city ''bj'') (af_pending (snd (edit_city_change ''sh'' (edit_init ''bj'' []))))"
    by (rule edit_asks_old_city [OF City [OF Opened [of two_cities]], THEN conjunct2])
  then show ?thesis by (simp add: edit_city_change_def edit_init_def form_defs empty_form_def)
qed

end
