(* ===== verification/Forms.thy ===== *)
theory Forms
  imports Complex_Main Houses
begin

text \<open>
  The rest of the administration of the houses: the rules that the forms of \<^verbatim>\<open>admin/house-add.js\<close> and
  \<^verbatim>\<open>admin/house-edit.js\<close> hand to the validation plugin, with the methods of the plugin
  (\<^verbatim>\<open>static/lib/jquery.validation/1.14.0/jquery.validate.js\<close>) that they name, the answers to the forms and to the
  dialog over a photo, and the table of the appointments (\<^verbatim>\<open>admin/house-subscribe.js\<close>). The value of a field is a list
  of code units, so that its length is that of the language; the conversion of a text to a number is an argument. Characters
  outside ASCII are written as \<open>u\<close> and their code points in the texts that the code shows.
\<close>

section \<open>Rules\<close>

type_synonym field_text = "nat list"

datatype form_rule = Required | Max_length nat | Digits | Number_text | At_least int | At_most int

definition digit_units :: "field_text \<Rightarrow> bool" where
  "digit_units s \<longleftrightarrow> s \<noteq> [] \<and> list_all (\<lambda>c. 48 \<le> c \<and> c \<le> 57) s"

text \<open>The parts of a text between the occurrences of a code unit.\<close>

fun units_split :: "nat \<Rightarrow> field_text \<Rightarrow> field_text list" where
  "units_split c [] = [[]]"
| "units_split c (x # s) = (if x = c then [] # units_split c s else (case units_split c s of w # ws \<Rightarrow> (x # w) # ws | [] \<Rightarrow> [[x]]))"

text \<open>\<open>(?:-?\d+|-?\d{1,3}(?:,\d{3})+)?(?:\.\d+)?\<close>, from the start to the end.\<close>

definition whole_part :: "field_text \<Rightarrow> bool" where
  "whole_part s \<longleftrightarrow>
     s = [] \<or>
     (let j = (if hd s = 45 then tl s else s)
      in digit_units j \<or>
         (case units_split 44 j of
            g # gs \<Rightarrow> gs \<noteq> [] \<and> digit_units g \<and> length g \<le> 3 \<and> list_all (\<lambda>w. digit_units w \<and> length w = 3) gs
          | [] \<Rightarrow> False))"

definition number_units :: "field_text \<Rightarrow> bool" where
  "number_units s \<longleftrightarrow>
     (case units_split 46 s of
        [i] \<Rightarrow> whole_part i
      | [i, f] \<Rightarrow> whole_part i \<and> digit_units f
      | _ \<Rightarrow> False)"

text \<open>A method; all but the first let an empty value pass. A text that is no number is neither greater nor less.\<close>

definition rule_ok :: "(field_text \<Rightarrow> rat option) \<Rightarrow> form_rule \<Rightarrow> field_text \<Rightarrow> bool" where
  "rule_ok num r v =
     (case r of
        Required \<Rightarrow> v \<noteq> []
      | Max_length n \<Rightarrow> v = [] \<or> length v \<le> n
      | Digits \<Rightarrow> v = [] \<or> digit_units v
      | Number_text \<Rightarrow> v = [] \<or> number_units v
      | At_least n \<Rightarrow> v = [] \<or> (case num v of Some x \<Rightarrow> of_int n \<le> x | None \<Rightarrow> False)
      | At_most n \<Rightarrow> v = [] \<or> (case num v of Some x \<Rightarrow> x \<le> of_int n | None \<Rightarrow> False))"

definition shared_rules :: "(string \<times> form_rule list) list" where
  "shared_rules =
     [(''room'', [Required]), (''parlour'', [Required]), (''floor'', [Required, Digits, At_least 1]),
      (''totalFloor'', [Required, Digits, At_least 1]), (''buildYear'', [Required, At_least 1900]), (''area'', [Required, At_least 1]),
      (''price'', [Required, Number_text, At_least 1]), (''rentWay'', [Required, At_least 0, At_most 1]), (''direction'', [Required])]"

definition add_rules :: "(string \<times> form_rule list) list" where
  "add_rules =
     [(''title'', [Required, Max_length 30]), (''cityEnName'', [Required]), (''regionEnName'', [Required]), (''street'', [Required]),
      (''address'', [Required, Max_length 30])] @ shared_rules"

definition edit_rules :: "(string \<times> form_rule list) list" where
  "edit_rules =
     [(''id'', [Required]), (''title'', [Required]), (''cityEnName'', [Required]), (''regionEnName'', [Required]), (''street'', [Required]),
      (''detailAddress'', [Required])] @ shared_rules"

text \<open>The rules of the fields that the form has.\<close>

definition form_valid :: "(field_text \<Rightarrow> rat option) \<Rightarrow> (string \<times> form_rule list) list \<Rightarrow> (string \<rightharpoonup> field_text) \<Rightarrow> bool" where
  "form_valid num rules form =
     list_all (\<lambda>(f, rs). case form f of None \<Rightarrow> True | Some v \<Rightarrow> list_all (\<lambda>r. rule_ok num r v) rs) rules"

section \<open>Answers\<close>

text \<open>What the page does with the answer to a form: the message, and whether the parent is refreshed and the frame closed.\<close>

datatype form_outcome = Saved bool | Refused string

definition add_answered :: "int \<Rightarrow> string \<Rightarrow> form_outcome" where
  "add_answered code message = (if code = 200 then Saved False else Refused message)"

text \<open>After an edit the parent window is loaded again too.\<close>

definition edit_answered :: "int \<Rightarrow> string \<Rightarrow> form_outcome" where
  "edit_answered code message = (if code = 200 then Saved True else Refused message)"

definition form_error :: "string \<Rightarrow> form_outcome" where
  "form_error responseText = Refused responseText"

definition cover_answered :: "int \<Rightarrow> string \<Rightarrow> string" where
  "cover_answered code message = (if code = 200 then ''u8bbeu7f6eu6210u529f'' else ''u8bbeu7f6eu5931u8d25uff01Reason: '' @ message)"

definition delete_answered :: "int \<Rightarrow> string \<Rightarrow> string \<Rightarrow> string list \<Rightarrow> string list \<times> string" where
  "delete_answered code message photo photos =
     (photo_deleted code photo photos, if code = 200 then ''u5df2u5220u9664'' else ''u5220u9664u5931u8d25uff01Reason: '' @ message)"

definition photo_errors :: "string \<Rightarrow> string \<times> string" where
  "photo_errors responseText = (''u8bbeu7f6eu5931u8d25uff01 Reason'' @ responseText, ''u5220u9664u5931u8d25uff01 Reason'' @ responseText)"

section \<open>The table of the appointments\<close>

definition user_tip :: "string \<Rightarrow> string \<Rightarrow> string" where
  \<open>user_tip name phone =
     ''<div style="padding: 50px; line-height: 22px; background-color: #393D49; color: #fff; font-weight: 300;">u7528u6237u540duff1a'' @ name
     @ ''<br>u8054u7cfbu7535u8bdduff1a'' @ phone @ ''</div>''\<close>

definition sub_columns :: "string option list" where
  "sub_columns =
     [Some ''first.id'', Some ''first.title'', Some ''first.cover'', Some ''first.area'', Some ''first.price'', Some ''first.floor'',
      Some ''first.watchTimes'', Some ''second.orderTime'', None]"

definition sub_link :: "string \<Rightarrow> string" where
  \<open>sub_link i = ''onClick="house_edit('u67e5u770b', '/house/show?id='' @ i @ [CHR 0x27] @ '')" title="u67e5u770b"''\<close>

definition sub_title_cell :: "string \<Rightarrow> string \<Rightarrow> string" where
  \<open>sub_title_cell i title =
     ''<td class="text-l"><u style="cursor:pointer" class="text-primary"'' @ sub_link i @ ''>'' @ title @ ''</u></td>''\<close>

definition sub_picture_cell :: "string \<Rightarrow> string \<Rightarrow> string" where
  \<open>sub_picture_cell i cover =
     ''<td><img '' @ sub_link i @ '' class="picture-thumb" src="http://7xo6gy.com1.z0.glb.clouddn.com/'' @ cover
     @ ''?imageView2/1/w/200/h/100"></td>''\<close>

definition sub_time_cell :: "date \<Rightarrow> string" where
  "sub_time_cell = date_Format ''yyyy-MM-dd''"

definition sub_user_cell :: "nat \<Rightarrow> string" where
  \<open>sub_user_cell userId =
     ''<a style="text-decoration: underline" onclick="userTip('' @ show_nat userId @ '')">u67e5u770bu7528u6237u4fe1u606f</a>''\<close>

definition sub_finish_cell :: "nat \<Rightarrow> string" where
  \<open>sub_finish_cell i =
     ''<td class="f-14 td-manage"><a style="text-decoration:none" class="ml-5" onClick="finishSubscribe(this,'' @ show_nat i
     @ '')" href="javascript:;" title="u5e26u770bu5b8cu6210"><i class="Hui-iconfont">&#xe603;</i></a></td>''\<close>

definition sub_request :: "table_request \<Rightarrow> (string \<times> nat) list" where
  "sub_request t = [(''draw'', rq_draw t), (''start'', rq_start t), (''length'', rq_length t)]"

text \<open>The cities of the filter above the table of the houses: they are put after the options that are there, or an alert is shown.\<close>

definition list_cities :: "sel_answer \<Rightarrow> sel_option list \<Rightarrow> sel_option list \<times> string option" where
  "list_cities a options =
     (if \<not> sa_success a \<or> sa_code a \<noteq> 200 then (options, Some (''Error: '' @ sa_message a))
      else (options @ map (\<lambda>(v, t). (v, t, False)) (sa_items a), None))"

section \<open>What an accepted house satisfies\<close>

lemma shared_rule_of:
  "form_valid num rules form \<Longrightarrow> (f, rs) \<in> set rules \<Longrightarrow> form f = Some v \<Longrightarrow> list_all (\<lambda>r. rule_ok num r v) rs"
  by (auto simp: form_valid_def list_all_iff split: option.splits)

lemma shared_in_both: "set shared_rules \<subseteq> set add_rules" "set shared_rules \<subseteq> set edit_rules"
  by (auto simp: add_rules_def edit_rules_def)

lemma house_numbers:
  assumes "form_valid num rules form" "set shared_rules \<subseteq> set rules"
  shows "form ''floor'' = Some v \<Longrightarrow> digit_units v \<and> (\<exists>x. num v = Some x \<and> 1 \<le> x)"
    and "form ''totalFloor'' = Some v \<Longrightarrow> digit_units v \<and> (\<exists>x. num v = Some x \<and> 1 \<le> x)"
    and "form ''price'' = Some v \<Longrightarrow> number_units v \<and> (\<exists>x. num v = Some x \<and> 1 \<le> x)"
    and "form ''rentWay'' = Some v \<Longrightarrow> \<exists>x. num v = Some x \<and> 0 \<le> x \<and> x \<le> 1"
proof -
  note r = shared_rule_of [OF assms(1) subsetD [OF assms(2)]]
  show "form ''floor'' = Some v \<Longrightarrow> digit_units v \<and> (\<exists>x. num v = Some x \<and> 1 \<le> x)"
    using r [of "''floor''" "[Required, Digits, At_least 1]" v] by (auto simp: shared_rules_def rule_ok_def split: option.splits)
  show "form ''totalFloor'' = Some v \<Longrightarrow> digit_units v \<and> (\<exists>x. num v = Some x \<and> 1 \<le> x)"
    using r [of "''totalFloor''" "[Required, Digits, At_least 1]" v] by (auto simp: shared_rules_def rule_ok_def split: option.splits)
  show "form ''price'' = Some v \<Longrightarrow> number_units v \<and> (\<exists>x. num v = Some x \<and> 1 \<le> x)"
    using r [of "''price''" "[Required, Number_text, At_least 1]" v] by (auto simp: shared_rules_def rule_ok_def split: option.splits)
  show "form ''rentWay'' = Some v \<Longrightarrow> \<exists>x. num v = Some x \<and> 0 \<le> x \<and> x \<le> 1"
    using r [of "''rentWay''" "[Required, At_least 0, At_most 1]" v] by (auto simp: shared_rules_def rule_ok_def split: option.splits)
qed

end
