(* ===== verification/Flow.thy ===== *)
theory Flow
  imports Prelude
begin

text \<open>
  Lists that grow by pages: \<^verbatim>\<open>static/lib/layui/lay/modules/flow.js\<close> as the pages of the houses
  (\<^verbatim>\<open>rent-map.js\<close>) and of the user (\<^verbatim>\<open>center.js\<close>) use it. Every call of \<open>load\<close> makes
  a loading process with a page counter, a lock while a page is awaited, and a scroll handler with its timer; its pages go
  before its own element \<open>more\<close>, which is in the list only if there was none when it started. The processes of a list
  are numbered in the order of their starts.
\<close>

named_theorems flow_simps \<open>the operations on a list that grows by pages\<close>

section \<open>Processes and lists\<close>

record 'q loading =
  ld_query :: 'q
  ld_page :: nat
  ld_busy :: bool
  ld_ended :: bool
  ld_timer :: bool

text \<open>The items, the process whose element is in the list, all processes, and the pages that are awaited.\<close>

record ('q, 'a) flow_list =
  fl_items :: "'a list"
  fl_more :: "nat option"
  fl_loads :: "'q loading list"
  fl_asked :: "(nat \<times> nat) list"

definition empty_flow :: "('q, 'a) flow_list" where
  "empty_flow = \<lparr> fl_items = [], fl_more = None, fl_loads = [], fl_asked = [] \<rparr>"

definition on_load :: "nat \<Rightarrow> ('q loading \<Rightarrow> 'q loading) \<Rightarrow> ('q, 'a) flow_list \<Rightarrow> ('q, 'a) flow_list" where
  "on_load k f s = s\<lparr> fl_loads := (fl_loads s)[k := f (fl_loads s ! k)] \<rparr>"

text \<open>The lock is taken and the next page is asked for.\<close>

definition ask_page :: "nat \<Rightarrow> ('q, 'a) flow_list \<Rightarrow> ('q, 'a) flow_list" where
  "ask_page k s =
     (let p = Suc (ld_page (fl_loads s ! k))
      in (on_load k (\<lambda>l. l\<lparr> ld_busy := True, ld_page := p \<rparr>) s)\<lparr> fl_asked := fl_asked s @ [(k, p)] \<rparr>)"

definition flow_load :: "'q \<Rightarrow> ('q, 'a) flow_list \<Rightarrow> ('q, 'a) flow_list" where
  "flow_load q s =
     (let k = length (fl_loads s)
      in ask_page k (s\<lparr> fl_more := (case fl_more s of None \<Rightarrow> Some k | Some j \<Rightarrow> Some j),
           fl_loads := fl_loads s @ [\<lparr> ld_query = q, ld_page = 0, ld_busy = False, ld_ended = False, ld_timer = False \<rparr>] \<rparr>))"

text \<open>A click on the element of a process, and the scrolling: each process that has not ended sets its timer anew.\<close>

definition flow_click :: "('q, 'a) flow_list \<Rightarrow> ('q, 'a) flow_list" where
  "flow_click s =
     (case fl_more s of None \<Rightarrow> s
      | Some k \<Rightarrow> if ld_ended (fl_loads s ! k) \<or> ld_busy (fl_loads s ! k) then s else ask_page k s)"

definition flow_scroll :: "('q, 'a) flow_list \<Rightarrow> ('q, 'a) flow_list" where
  "flow_scroll s = s\<lparr> fl_loads := map (\<lambda>l. l\<lparr> ld_timer := \<not> ld_ended l \<rparr>) (fl_loads s) \<rparr>"

text \<open>The timer: at the bottom of the list a page is asked for, unless one is awaited.\<close>

definition flow_timer :: "bool \<Rightarrow> nat \<Rightarrow> ('q, 'a) flow_list \<Rightarrow> ('q, 'a) flow_list" where
  "flow_timer bottom k s0 =
     (let s = on_load k (\<lambda>l. l\<lparr> ld_timer := False \<rparr>) s0
      in if bottom \<and> \<not> ld_busy (fl_loads s ! k) then ask_page k s else s)"

text \<open>\<open>next\<close>: what is put before an element outside the page is lost; the end is \<open>0 == more\<close>, where \<open>None\<close> is an answer that does not say.\<close>

definition flow_next :: "nat \<Rightarrow> 'a list \<Rightarrow> bool option \<Rightarrow> ('q, 'a) flow_list \<Rightarrow> ('q, 'a) flow_list" where
  "flow_next k xs rest s =
     (on_load k (\<lambda>l. l\<lparr> ld_ended := (rest = Some False), ld_busy := False \<rparr>) s)\<lparr>
        fl_items := (if fl_more s = Some k then fl_items s @ xs else fl_items s) \<rparr>"

text \<open>\<open>html('')\<close> takes everything out of the list, the element of the process included.\<close>

definition flow_clear :: "('q, 'a) flow_list \<Rightarrow> ('q, 'a) flow_list" where
  "flow_clear s = s\<lparr> fl_items := [], fl_more := None \<rparr>"

text \<open>The answer to the request at a position of those under way.\<close>

type_synonym ('q, 'a) pager = "'q \<Rightarrow> nat \<Rightarrow> 'a list \<times> bool option"

definition flow_answered :: "('q, 'a) pager \<Rightarrow> nat \<Rightarrow> ('q, 'a) flow_list \<Rightarrow> ('q, 'a) flow_list" where
  "flow_answered server i s =
     (case fl_asked s ! i of (k, p) \<Rightarrow>
        (case server (ld_query (fl_loads s ! k)) p of (xs, rest) \<Rightarrow>
           flow_next k xs rest (s\<lparr> fl_asked := splice1 i (fl_asked s) \<rparr>)))"

inductive flow_step :: "('q, 'a) pager \<Rightarrow> ('q, 'a) flow_list \<Rightarrow> ('q, 'a) flow_list \<Rightarrow> bool" for server where
  Load: "flow_step server s (flow_load q s)"
| Click: "flow_step server s (flow_click s)"
| Scroll: "flow_step server s (flow_scroll s)"
| Timer: "k < length (fl_loads s) \<Longrightarrow> ld_timer (fl_loads s ! k) \<Longrightarrow> flow_step server s (flow_timer bottom k s)"
| Answered: "i < length (fl_asked s) \<Longrightarrow> flow_step server s (flow_answered server i s)"
| Clear: "flow_step server s (flow_clear s)"

inductive_cases flow_stepE: "flow_step server s s'"

section \<open>What is in a list\<close>

text \<open>The pages of a process that have been answered.\<close>

definition pages_done :: "'q loading \<Rightarrow> nat" where
  "pages_done l = (if ld_busy l then ld_page l - 1 else ld_page l)"

definition pages :: "('q, 'a) pager \<Rightarrow> 'q \<Rightarrow> nat \<Rightarrow> 'a list" where
  "pages server q n = concat (map (\<lambda>p. fst (server q p)) [1..<Suc n])"

definition asked_by :: "nat \<Rightarrow> ('q, 'a) flow_list \<Rightarrow> (nat \<times> nat) list" where
  "asked_by k s = filter (\<lambda>(j, p). j = k) (fl_asked s)"

definition load_inv :: "nat \<Rightarrow> ('q, 'a) flow_list \<Rightarrow> bool" where
  "load_inv k s \<longleftrightarrow> asked_by k s = (if ld_busy (fl_loads s ! k) then [(k, ld_page (fl_loads s ! k))] else [])
     \<and> (ld_busy (fl_loads s ! k) \<longrightarrow> 0 < ld_page (fl_loads s ! k))"

definition shown_inv :: "('q, 'a) pager \<Rightarrow> ('q, 'a) flow_list \<Rightarrow> bool" where
  "shown_inv server s \<longleftrightarrow>
     (case fl_more s of None \<Rightarrow> fl_items s = []
      | Some k \<Rightarrow> k < length (fl_loads s) \<and> fl_items s = pages server (ld_query (fl_loads s ! k)) (pages_done (fl_loads s ! k)))"

definition flow_inv :: "('q, 'a) pager \<Rightarrow> ('q, 'a) flow_list \<Rightarrow> bool" where
  "flow_inv server s \<longleftrightarrow> (\<forall>k < length (fl_loads s). load_inv k s) \<and> (\<forall>(k, p) \<in> set (fl_asked s). k < length (fl_loads s)) \<and> shown_inv server s"

lemma pages_Suc: "pages server q (Suc n) = pages server q n @ fst (server q (Suc n))"
  by (simp add: pages_def)

lemma pages_0 [simp]: "pages server q 0 = []"
  by (simp add: pages_def)

lemma ask_page_simps [simp]:
  "fl_items (ask_page k s) = fl_items s" "fl_more (ask_page k s) = fl_more s" "length (fl_loads (ask_page k s)) = length (fl_loads s)"
  "fl_asked (ask_page k s) = fl_asked s @ [(k, Suc (ld_page (fl_loads s ! k)))]"
  "fl_loads (ask_page k s) = (fl_loads s)[k := (fl_loads s ! k)\<lparr> ld_busy := True, ld_page := Suc (ld_page (fl_loads s ! k)) \<rparr>]"
  by (simp_all add: ask_page_def on_load_def Let_def)

lemma flow_inv_ask:
  assumes "flow_inv server s" "k < length (fl_loads s)" "\<not> ld_busy (fl_loads s ! k)"
  shows "flow_inv server (ask_page k s)"
  using assms by (auto simp: flow_inv_def load_inv_def asked_by_def shown_inv_def pages_done_def nth_list_update split: option.splits if_splits)

text \<open>A process that is added has nothing to show yet.\<close>

lemma flow_inv_added:
  assumes "flow_inv server s" "\<not> ld_busy l" "ld_page l = 0"
  shows "flow_inv server (s\<lparr> fl_more := (case fl_more s of None \<Rightarrow> Some (length (fl_loads s)) | Some j \<Rightarrow> Some j), fl_loads := fl_loads s @ [l] \<rparr>)"
proof -
  have n: "asked_by (length (fl_loads s)) s = []" using assms(1) by (auto simp: flow_inv_def asked_by_def filter_empty_conv)
  show ?thesis
    using assms n
    by (auto simp: flow_inv_def load_inv_def asked_by_def shown_inv_def pages_done_def nth_append less_Suc_eq split: option.splits)
qed

lemma flow_inv_load: "flow_inv server s \<Longrightarrow> flow_inv server (flow_load q s)"
  unfolding flow_load_def Let_def by (rule flow_inv_ask [OF flow_inv_added]) simp_all

lemma flow_inv_click: "flow_inv server s \<Longrightarrow> flow_inv server (flow_click s)"
  by (auto simp: flow_click_def flow_inv_def [of _ s] shown_inv_def split: option.split intro!: flow_inv_ask)

text \<open>Setting timers changes nothing that the invariant speaks of.\<close>

lemma flow_inv_same_loads:
  assumes "flow_inv server s" "fl_items t = fl_items s" "fl_more t = fl_more s" "fl_asked t = fl_asked s" "length (fl_loads t) = length (fl_loads s)"
    "\<And>k. k < length (fl_loads s) \<Longrightarrow> ld_query (fl_loads t ! k) = ld_query (fl_loads s ! k) \<and> ld_page (fl_loads t ! k) = ld_page (fl_loads s ! k)
       \<and> ld_busy (fl_loads t ! k) = ld_busy (fl_loads s ! k)"
  shows "flow_inv server t"
  using assms by (auto simp: flow_inv_def load_inv_def asked_by_def shown_inv_def pages_done_def split: option.splits)

lemma flow_inv_scroll: "flow_inv server s \<Longrightarrow> flow_inv server (flow_scroll s)"
  by (erule flow_inv_same_loads) (simp_all add: flow_scroll_def)

lemma flow_inv_timer:
  assumes "flow_inv server s" "k < length (fl_loads s)"
  shows "flow_inv server (flow_timer bottom k s)"
proof -
  let ?t = "on_load k (\<lambda>l. l\<lparr> ld_timer := False \<rparr>) s"
  have "flow_inv server ?t"
    by (rule flow_inv_same_loads [OF assms(1)]) (use assms(2) in \<open>simp_all add: on_load_def nth_list_update\<close>)
  then show ?thesis using assms(2) by (auto simp: flow_timer_def Let_def on_load_def intro: flow_inv_ask)
qed

lemma flow_inv_clear: "flow_inv server s \<Longrightarrow> flow_inv server (flow_clear s)"
  by (auto simp: flow_clear_def flow_inv_def load_inv_def asked_by_def shown_inv_def)

lemma asked_split:
  assumes "i < length xs"
  shows "filter P xs = filter P (take i xs) @ (if P (xs ! i) then [xs ! i] else []) @ filter P (List.drop (Suc i) xs)"
  using arg_cong [OF id_take_nth_drop [OF assms], of "filter P"] by simp

lemma flow_inv_answered:
  assumes "flow_inv server s" "i < length (fl_asked s)"
  shows "flow_inv server (flow_answered server i s)"
proof -
  obtain k p where kp: "fl_asked s ! i = (k, p)" by (cases "fl_asked s ! i")
  let ?l = "fl_loads s ! k" and ?rest = "take i (fl_asked s) @ List.drop (Suc i) (fl_asked s)"
  have k: "k < length (fl_loads s)" using assms kp nth_mem [of i "fl_asked s"] by (auto simp: flow_inv_def)
  then have own: "asked_by k s = (if ld_busy ?l then [(k, ld_page ?l)] else [])" "ld_busy ?l \<Longrightarrow> 0 < ld_page ?l"
    using assms(1) by (auto simp: flow_inv_def load_inv_def)
  have parts: "asked_by j s = filter (\<lambda>(n, p). n = j) (take i (fl_asked s)) @ (if j = k then [(k, p)] else [])
      @ filter (\<lambda>(n, p). n = j) (List.drop (Suc i) (fl_asked s))" for j
    unfolding asked_by_def asked_split [OF assms(2), of "\<lambda>(n, p). n = j"] by (auto simp: kp)
  have page: "ld_busy ?l" "p = ld_page ?l" "filter (\<lambda>(n, p). n = k) ?rest = []" "0 < ld_page ?l"
    using own parts [of k] by (auto simp: append_eq_Cons_conv split: if_splits)
  have other: "filter (\<lambda>(n, p). n = j) ?rest = asked_by j s" if "j \<noteq> k" for j using parts [of j] that by simp
  obtain xs e where se: "server (ld_query ?l) p = (xs, e)" by (cases "server (ld_query ?l) p")
  let ?t = "flow_answered server i s"
  have t: "fl_asked ?t = ?rest" "fl_more ?t = fl_more s" "fl_items ?t = (if fl_more s = Some k then fl_items s @ xs else fl_items s)"
    "fl_loads ?t = (fl_loads s)[k := ?l\<lparr> ld_ended := (e = Some False), ld_busy := False \<rparr>]"
    by (simp_all add: flow_answered_def kp se flow_next_def on_load_def splice1_def)
  have "load_inv j ?t" if "j < length (fl_loads s)" for j
    using that assms(1) page(3) other [of j] k
    by (cases "j = k") (auto simp: load_inv_def asked_by_def t flow_inv_def)
  moreover have "\<forall>(j, p) \<in> set ?rest. j < length (fl_loads s)"
    using assms(1) by (auto simp: flow_inv_def dest: in_set_takeD in_set_dropD)
  moreover have "shown_inv server ?t"
  proof (cases "fl_more s = Some k")
    case True
    obtain n where n: "ld_page ?l = Suc n" using page(4) by (cases "ld_page ?l") auto
    then show ?thesis
      using True assms(1) k page(1,2) se by (simp add: shown_inv_def t flow_inv_def pages_done_def pages_Suc)
  next
    case False
    then show ?thesis using assms(1) k by (auto simp: shown_inv_def t flow_inv_def pages_done_def nth_list_update split: option.splits)
  qed
  ultimately show ?thesis by (simp add: flow_inv_def t)
qed

lemma flow_inv_step: "flow_step server s t \<Longrightarrow> flow_inv server s \<Longrightarrow> flow_inv server t"
  by (elim flow_stepE)
    (simp_all add: flow_inv_load flow_inv_click flow_inv_scroll flow_inv_timer flow_inv_answered flow_inv_clear)

lemma flow_inv_empty: "flow_inv server empty_flow"
  by (simp add: flow_inv_def shown_inv_def empty_flow_def)

interpretation fm: machine "\<lambda>s. s = empty_flow" "flow_step server" "flow_inv server" for server
  by unfold_locales (simp_all add: flow_inv_empty flow_inv_step)

text \<open>Whatever happens, a list shows the answered pages of the process whose element it holds, in order and each once.\<close>

lemma shown_pages:
  assumes "(flow_step server)\<^sup>*\<^sup>* empty_flow s" "fl_more s = Some k"
  shows "fl_items s = pages server (ld_query (fl_loads s ! k)) (pages_done (fl_loads s ! k))"
  using fm.inv_reachable [OF refl assms(1)] assms(2) by (simp add: flow_inv_def shown_inv_def)

section \<open>A server that cuts its answer into pages\<close>

text \<open>The user scrolls to the bottom, and the page that is asked for comes.\<close>

definition scroll_round :: "('q, 'a) pager \<Rightarrow> ('q, 'a) flow_list \<Rightarrow> ('q, 'a) flow_list" where
  "scroll_round server s =
     (let s1 = flow_scroll s in if ld_timer (fl_loads s1 ! 0) then flow_answered server 0 (flow_timer True 0 s1) else s1)"

definition first_page :: "('q, 'a) pager \<Rightarrow> 'q \<Rightarrow> ('q, 'a) flow_list" where
  "first_page server q = flow_answered server 0 (flow_load q empty_flow)"

definition one_process :: "'q \<Rightarrow> 'a list \<Rightarrow> nat \<Rightarrow> bool \<Rightarrow> ('q, 'a) flow_list" where
  "one_process q xs p e =
     \<lparr> fl_items = xs, fl_more = Some 0,
        fl_loads = [\<lparr> ld_query = q, ld_page = p, ld_busy = False, ld_ended = e, ld_timer = False \<rparr>], fl_asked = [] \<rparr>"

lemmas flow_ops = flow_answered_def flow_timer_def flow_scroll_def flow_load_def flow_next_def on_load_def ask_page_def Let_def

lemma first_page_state: "first_page server q = one_process q (fst (server q 1)) 1 (snd (server q 1) = Some False)"
  by (simp add: first_page_def one_process_def empty_flow_def flow_ops case_prod_beta)

lemma scroll_round_state:
  "scroll_round server (one_process q xs p e) =
     (if e then one_process q xs p e
      else one_process q (xs @ fst (server q (Suc p))) (Suc p) (snd (server q (Suc p)) = Some False))"
  by (simp add: scroll_round_def one_process_def flow_ops case_prod_beta)

locale paged_server =
  fixes per :: nat and whole :: "'q \<Rightarrow> 'a list" and server :: "('q, 'a) pager"
  assumes per_pos: "0 < per"
    and slice: "server q (Suc p) = (take per (List.drop (per * p) (whole q)), Some (per * p + per < length (whole q)))"
begin

lemma take_page: "take (per * Suc n) xs = take (per * n) xs @ take per (List.drop (per * n) xs)"
  using take_add [of "per * n" per xs] by (simp add: add.commute)

lemma pages_prefix: "pages server q n = take (per * n) (whole q)"
  by (induction n) (simp_all add: pages_Suc slice take_page del: mult_Suc_right)

lemma shown_prefix:
  assumes "(flow_step server)\<^sup>*\<^sup>* empty_flow s" "fl_more s = Some k"
  shows "fl_items s = take (per * pages_done (fl_loads s ! k)) (whole (ld_query (fl_loads s ! k)))"
  using shown_pages [OF assms] by (simp add: pages_prefix)

lemma rounds:
  "\<exists>p e. (scroll_round server ^^ n) (first_page server q) = one_process q (take (per * p) (whole q)) p e
     \<and> (if e then length (whole q) \<le> per * p else p = Suc n)"
proof (induction n)
  case 0
  show ?case
    using slice [of q 0] by (intro exI [of _ 1] exI [of _ "\<not> per < length (whole q)"]) (simp add: first_page_state not_less)
next
  case (Suc n)
  then obtain p e where *: "(scroll_round server ^^ n) (first_page server q) = one_process q (take (per * p) (whole q)) p e"
    "if e then length (whole q) \<le> per * p else p = Suc n" by blast
  show ?case
  proof (cases e)
    case True
    then show ?thesis using * by (intro exI [of _ p] exI [of _ True]) (simp add: scroll_round_state)
  next
    case False
    then show ?thesis
      using * by (intro exI [of _ "Suc p"] exI [of _ "\<not> per * p + per < length (whole q)"])
        (simp add: scroll_round_state slice take_page not_less add.commute del: mult_Suc_right, simp add: add.commute)
  qed
qed

text \<open>Scrolling on, the user sees everything.\<close>

lemma all_shown: "length (whole q) \<le> n \<Longrightarrow> fl_items ((scroll_round server ^^ n) (first_page server q)) = whole q"
proof -
  assume n: "length (whole q) \<le> n"
  obtain p e where *: "(scroll_round server ^^ n) (first_page server q) = one_process q (take (per * p) (whole q)) p e"
    "if e then length (whole q) \<le> per * p else p = Suc n" using rounds by blast
  have "length (whole q) \<le> per * p"
  proof (cases e)
    case True
    then show ?thesis using *(2) by simp
  next
    case False
    then have "Suc n \<le> per * p" using *(2) per_pos mult_le_mono1 [of 1 per "Suc n"] by simp
    then show ?thesis using n by simp
  qed
  then show ?thesis using * by (simp add: one_process_def)
qed

end

end
