(* ===== verification/Rent.thy ===== *)
theory Rent
  imports Flow Houses
begin

text \<open>
  The map of the houses to rent, \<^verbatim>\<open>soufang/src/main/resources/static/js/rent-map.js\<close>: the labels of
  the regions with their boundaries, the list of houses beside the map, and the parameters of its requests. The map itself
  is a library: what the page asks of it is recorded, its coordinates are the texts they print as. Characters outside ASCII
  are written as \<open>u\<close> and their code points.
\<close>

section \<open>Requests and answers\<close>

record map_view =
  mv_zoom :: int
  mv_west :: string
  mv_north :: string
  mv_east :: string
  mv_south :: string

definition initial_params :: "string dict" where
  "initial_params = [(''orderBy'', ''lastUpdateTime''), (''orderDirection'', ''desc'')]"

definition view_params :: "map_view \<Rightarrow> string dict" where
  "view_params v =
     [(''level'', show_int (mv_zoom v)), (''leftLongitude'', mv_west v), (''leftLatitude'', mv_north v),
      (''rightLongitude'', mv_east v), (''rightLatitude'', mv_south v)]"

definition rent_target :: "string dict \<Rightarrow> string" where
  "rent_target ps = CHR ''&'' # concat (map (\<lambda>(k, v). k @ CHR ''='' # v @ ''&'') ps)"

text \<open>The request for a page: the city, the number of the first house, the number of houses, the other parameters.\<close>

datatype rent_request = Rent_request string nat nat string

definition rent_page :: "string \<Rightarrow> string \<Rightarrow> nat \<Rightarrow> rent_request" where
  "rent_page cityName q page = Rent_request cityName ((page - 1) * 3) 3 q"

definition rent_url :: "rent_request \<Rightarrow> string" where
  "rent_url r =
     (case r of Rent_request cityName start n q \<Rightarrow>
        ''/rent/house/map/houses?cityEnName='' @ cityName @ ''&start='' @ show_nat start @ ''&size='' @ show_nat n @ q)"

record house =
  hs_id :: nat
  hs_title :: string
  hs_cover :: string
  hs_room :: nat
  hs_parlour :: nat
  hs_area :: nat
  hs_direction :: int
  hs_price :: nat
  hs_district :: string
  hs_tags :: "string list"

record rent_answer =
  ra_code :: int
  ra_data :: "house list"
  ra_more :: "bool option"

definition direction_name :: "int \<Rightarrow> string" where
  "direction_name d =
     (if d = 1 then ''u671du4e1c'' else if d = 2 then ''u671du5357'' else if d = 3 then ''u671du897f'' else if d = 4 then ''u671du5317'' else ''u5357u5317'')"

definition house_li :: "house \<Rightarrow> string" where
  \<open>house_li h =
     ''<li class="list-item"><a href="/rent/house/show/'' @ show_nat (hs_id h) @ ''" target="_blank" title="'' @ hs_title h
     @ ''"data-community="1111027382235"> <div class="item-aside"><img src="'' @ hs_cover h
     @ ''?imageView2/1/w/116/h/116"><div class="item-btm"><span class="item-img-icon"><i class="i-icon-arrow"></i><i class="i-icon-dot"></i>''
     @ ''</span>&nbsp;&nbsp;</div></div><div class="item-main"><p class="item-tle">'' @ hs_title h
     @ ''</p><p class="item-des"> <span>'' @ show_nat (hs_room h) @ ''u5ba4'' @ show_nat (hs_parlour h) @ ''u5385</span><span>''
     @ show_nat (hs_area h) @ ''u5e73u7c73</span> <span>'' @ direction_name (hs_direction h)
     @ ''</span><span class="item-side">'' @ show_nat (hs_price h)
     @ ''<span>u5143/u6708</span></span></p><p class="item-community"><span class="item-replace-com">'' @ hs_district h
     @ ''</span><span class="item-exact-com">'' @ hs_district h @ ''</span></p><p class="item-tag-wrap">''
     @ concat (map (\<lambda>t. ''<span class="item-tag-color_2 item-extra">'' @ t @ ''</span>'') (hs_tags h))
     @ ''</p></div></a></li>''\<close>

definition house_rows :: "rent_answer \<Rightarrow> string list" where
  "house_rows r = (if ra_code r \<noteq> 200 then [''<li>u6570u636eu52a0u8f7du9519u8bef</li>''] else map house_li (ra_data r))"

definition rent_pager :: "(rent_request \<Rightarrow> rent_answer) \<Rightarrow> string \<Rightarrow> (string, string) pager" where
  "rent_pager backend cityName q p = (let r = backend (rent_page cityName q p) in (house_rows r, ra_more r))"

section \<open>The page\<close>

record region =
  rg_en :: string
  rg_cn :: string
  rg_point :: "string \<times> string"

text \<open>A label: its text, its position, whether it is shown, whether the mouse is over it.\<close>

record map_label =
  lb_content :: string
  lb_point :: "string \<times> string"
  lb_shown :: bool
  lb_active :: bool

datatype map_call = Zoom_in | Pan_to "string \<times> string"

text \<open>
  The houses counted in each region, the labels, the boundaries of each label text (numbers of polygons), whether each polygon
  is shown, the boundaries that are awaited, whether the layer of houses is there, the parameters, the chosen order, the list.
\<close>

record rent_map =
  rm_counts :: "nat dict"
  rm_labels :: "map_label list"
  rm_context :: "nat list dict"
  rm_polygons :: "bool list"
  rm_awaited :: "(string \<times> string) list"
  rm_layer :: bool
  rm_markers :: "(string \<times> string) list"
  rm_params :: "string dict"
  rm_order :: nat
  rm_flow :: "(string, string) flow_list"
  rm_calls :: "map_call list"
  rm_alerts :: "string list"

definition loadHouseData :: "rent_map \<Rightarrow> rent_map" where
  "loadHouseData s = s\<lparr> rm_flow := flow_load (rent_target (rm_params s)) (flow_clear (rm_flow s)) \<rparr>"

definition mapResize :: "map_view \<Rightarrow> rent_map \<Rightarrow> rent_map" where
  "mapResize v s0 =
     (let s = s0\<lparr> rm_params := view_params v \<rparr>
      in if mv_zoom v < 13 then s\<lparr> rm_labels := map (\<lambda>l. l\<lparr> lb_shown := True \<rparr>) (rm_labels s) \<rparr>
         else (loadHouseData s)\<lparr> rm_labels := map (\<lambda>l. l\<lparr> lb_shown := False \<rparr>) (rm_labels s) \<rparr>)"

text \<open>The order is chosen by the attributes of the clicked item.\<close>

definition order_click :: "nat \<Rightarrow> string \<Rightarrow> string \<Rightarrow> rent_map \<Rightarrow> rent_map" where
  "order_click i by dir s =
     loadHouseData (s\<lparr> rm_order := i, rm_params := dput ''orderDirection'' dir (dput ''orderBy'' by (rm_params s)) \<rparr>)"

definition house_count :: "nat dict \<Rightarrow> region \<Rightarrow> nat" where
  "house_count counts r = (case map_of counts (rg_en r) of Some n \<Rightarrow> n | None \<Rightarrow> 0)"

definition label_text :: "nat dict \<Rightarrow> region \<Rightarrow> string" where
  \<open>label_text counts r =
     ''<p style="margin-top: 20px; pointer-events: none">'' @ rg_cn r @ ''</p><p style="pointer-events: none">''
     @ show_nat (house_count counts r) @ ''u5957</p>''\<close>

definition draw_label :: "string \<Rightarrow> region \<Rightarrow> rent_map \<Rightarrow> rent_map" where
  "draw_label city r s =
     (let t = label_text (rm_counts s) r
      in s\<lparr> rm_labels := rm_labels s @ [\<lparr> lb_content = t, lb_point = rg_point r, lb_shown = True, lb_active = False \<rparr>],
           rm_context := dput t [] (rm_context s), rm_awaited := rm_awaited s @ [(city @ rg_cn r, t)] \<rparr>)"

definition drawRegion :: "string \<Rightarrow> region list \<Rightarrow> rent_map \<Rightarrow> rent_map" where
  "drawRegion city rs s = (fold (draw_label city) rs s)\<lparr> rm_layer := True \<rparr>"

text \<open>The boundaries of the region at a position of those awaited; the name is used by the library.\<close>

definition boundary_answered :: "nat \<Rightarrow> nat \<Rightarrow> rent_map \<Rightarrow> rent_map" where
  "boundary_answered i n s0 =
     (let t = snd (rm_awaited s0 ! i); s = s0\<lparr> rm_awaited := splice1 i (rm_awaited s0) \<rparr>; m = length (rm_polygons s)
      in if n = 0 then s\<lparr> rm_alerts := rm_alerts s @ [''u672au80fdu83b7u53d6u5f53u524du8f93u5165u884cu653fu533au57df''] \<rparr>
         else s\<lparr> rm_polygons := rm_polygons s @ replicate n False,
                rm_context := dput t ((case map_of (rm_context s) t of Some ps \<Rightarrow> ps | None \<Rightarrow> []) @ [m..<m + n]) (rm_context s) \<rparr>)"

definition hover :: "bool \<Rightarrow> nat \<Rightarrow> rent_map \<Rightarrow> rent_map" where
  "hover on i s =
     (let l = rm_labels s ! i; ps = (case map_of (rm_context s) (lb_content l) of Some ps \<Rightarrow> ps | None \<Rightarrow> [])
      in s\<lparr> rm_labels := (rm_labels s)[i := l\<lparr> lb_active := on \<rparr>], rm_polygons := fold (\<lambda>p bs. bs[p := on]) ps (rm_polygons s) \<rparr>)"

definition label_click :: "string \<times> string \<Rightarrow> rent_map \<Rightarrow> rent_map" where
  "label_click point s = s\<lparr> rm_calls := rm_calls s @ [Zoom_in, Pan_to point] \<rparr>"

text \<open>A house on the map is clicked: the text of the window, and the marker, which a click removes.\<close>

definition tip_text :: "string \<Rightarrow> nat \<Rightarrow> nat \<Rightarrow> string" where
  \<open>tip_text address price area =
     ''<p style="width:280px;margin: 0; line-height: 20px;">u5730u5740uff1a'' @ address @ ''<br/>u4ef7u683cuff1a'' @ show_nat price
     @ ''u5143/u6708<br/>u9762u79efuff1a'' @ show_nat area @ ''u5e73u65b9u7c73</p>''\<close>

definition houseTip :: "string \<times> string \<Rightarrow> rent_map \<Rightarrow> rent_map" where
  "houseTip point s = s\<lparr> rm_markers := rm_markers s @ [point] \<rparr>"

definition marker_click :: "nat \<Rightarrow> rent_map \<Rightarrow> rent_map" where
  "marker_click i s = s\<lparr> rm_markers := splice1 i (rm_markers s) \<rparr>"

definition rent_start :: rent_map where
  "rent_start =
     \<lparr> rm_counts = [], rm_labels = [], rm_context = [], rm_polygons = [], rm_awaited = [], rm_layer = False, rm_markers = [],
        rm_params = initial_params, rm_order = 0, rm_flow = empty_flow, rm_calls = [], rm_alerts = [] \<rparr>"

definition rent_load :: "string \<Rightarrow> region list \<Rightarrow> (string \<times> nat) list \<Rightarrow> rent_map" where
  "rent_load city rs agg =
     loadHouseData (drawRegion city rs (rent_start\<lparr> rm_counts := fold (\<lambda>(k, n). dput k n) agg (rm_counts rent_start) \<rparr>))"

section \<open>Events\<close>

datatype rent_event =
    Viewed map_view
  | Ordered nat string string
  | List_clicked
  | Scrolled
  | Timed bool nat
  | Page_came nat
  | Mouse bool nat
  | Boundary_came nat nat
  | Label_clicked "string \<times> string"
  | House_clicked "string \<times> string"
  | Marker_clicked nat

text \<open>An event that cannot happen (no such timer, request or label) changes nothing.\<close>

definition rent_do :: "(rent_request \<Rightarrow> rent_answer) \<Rightarrow> string \<Rightarrow> rent_event \<Rightarrow> rent_map \<Rightarrow> rent_map" where
  "rent_do backend city e s =
     (let fl = rm_flow s
      in case e of
           Viewed v \<Rightarrow> mapResize v s
         | Ordered i by dir \<Rightarrow> order_click i by dir s
         | List_clicked \<Rightarrow> s\<lparr> rm_flow := flow_click fl \<rparr>
         | Scrolled \<Rightarrow> s\<lparr> rm_flow := flow_scroll fl \<rparr>
         | Timed bottom k \<Rightarrow> if k < length (fl_loads fl) \<and> ld_timer (fl_loads fl ! k) then s\<lparr> rm_flow := flow_timer bottom k fl \<rparr> else s
         | Page_came i \<Rightarrow> if i < length (fl_asked fl) then s\<lparr> rm_flow := flow_answered (rent_pager backend city) i fl \<rparr> else s
         | Mouse on i \<Rightarrow> if i < length (rm_labels s) then hover on i s else s
         | Boundary_came i n \<Rightarrow> if i < length (rm_awaited s) then boundary_answered i n s else s
         | Label_clicked p \<Rightarrow> label_click p s
         | House_clicked p \<Rightarrow> houseTip p s
         | Marker_clicked i \<Rightarrow> if i < length (rm_markers s) then marker_click i s else s)"

definition rent_run :: "(rent_request \<Rightarrow> rent_answer) \<Rightarrow> string \<Rightarrow> rent_event list \<Rightarrow> rent_map \<Rightarrow> rent_map" where
  "rent_run backend city es s = fold (rent_do backend city) es s"

section \<open>The list of houses\<close>

abbreviation rent_pages :: "(rent_request \<Rightarrow> rent_answer) \<Rightarrow> string \<Rightarrow> rent_map \<Rightarrow> bool" where
  "rent_pages backend city s \<equiv> (flow_step (rent_pager backend city))\<^sup>*\<^sup>* empty_flow (rm_flow s)"

text \<open>The list belongs to the process that was started last; its parameters.\<close>

definition newest :: "('q, 'a) flow_list \<Rightarrow> bool" where
  "newest s \<longleftrightarrow> fl_loads s \<noteq> [] \<and> fl_more s = Some (length (fl_loads s) - 1)"

definition loaded_query :: "rent_map \<Rightarrow> string" where
  "loaded_query s = ld_query (last (fl_loads (rm_flow s)))"

text \<open>An operation that keeps the processes, their parameters and the element of the list.\<close>

definition same_processes :: "('q, 'a) flow_list \<Rightarrow> ('q, 'a) flow_list \<Rightarrow> bool" where
  "same_processes s t \<longleftrightarrow> map ld_query (fl_loads t) = map ld_query (fl_loads s) \<and> fl_more t = fl_more s"

lemma map_query_update: "ld_query l = ld_query (xs ! k) \<Longrightarrow> map ld_query (xs[k := l]) = map ld_query xs"
  by (cases "k < length xs") (simp_all add: map_update list_update_same_conv list_update_beyond not_less)

lemma same_processes_trans: "same_processes s t \<Longrightarrow> same_processes t u \<Longrightarrow> same_processes s u"
  by (simp add: same_processes_def)

lemma same_processes_refl: "same_processes s s"
  by (simp add: same_processes_def)

lemma same_processes_on_load: "(\<And>l. ld_query (f l) = ld_query l) \<Longrightarrow> same_processes s (on_load k f s)"
  by (simp add: same_processes_def on_load_def map_query_update)

lemma same_processes_ask: "same_processes s (ask_page k s)"
  by (simp add: same_processes_def map_query_update)

lemma same_processes_click: "same_processes s (flow_click s)"
  by (simp add: flow_click_def same_processes_refl same_processes_ask split: option.split)

lemma same_processes_scroll: "same_processes s (flow_scroll s)"
  by (simp add: same_processes_def flow_scroll_def comp_def)

lemma same_processes_timer: "same_processes s (flow_timer bottom k s)"
  using same_processes_on_load [of "\<lambda>l. l\<lparr> ld_timer := False \<rparr>" s k]
  by (auto simp: flow_timer_def Let_def intro: same_processes_trans same_processes_ask)

lemma same_processes_answered: "same_processes s (flow_answered server i s)"
  by (simp add: same_processes_def flow_answered_def flow_next_def on_load_def map_query_update split: prod.split)

lemmas same_processes_ops = same_processes_click same_processes_scroll same_processes_timer same_processes_answered

lemma same_processes_newest:
  assumes "same_processes s t" "newest s"
  shows "newest t \<and> ld_query (last (fl_loads t)) = ld_query (last (fl_loads s))"
proof -
  have q: "map ld_query (fl_loads t) = map ld_query (fl_loads s)" using assms(1) by (simp add: same_processes_def)
  then have l: "length (fl_loads t) = length (fl_loads s)" by (metis length_map)
  then have "fl_loads t \<noteq> []" using assms(2) by (auto simp: newest_def)
  then have "ld_query (last (fl_loads t)) = ld_query (last (fl_loads s))"
    using q l by (metis last_map length_0_conv)
  then show ?thesis using assms l \<open>fl_loads t \<noteq> []\<close> by (simp add: newest_def same_processes_def)
qed

lemma load_newest: "newest (flow_load q (flow_clear s)) \<and> ld_query (last (fl_loads (flow_load q (flow_clear s)))) = q"
  by (simp add: newest_def flow_load_def flow_clear_def Let_def last_conv_nth nth_list_update)

lemma loadHouseData_pages: "rent_pages backend city s \<Longrightarrow> rent_pages backend city (loadHouseData s)"
  by (auto simp: loadHouseData_def intro: rtranclp.rtrancl_into_rtrancl flow_step.Load flow_step.Clear)

lemma loadHouseData_newest: "newest (rm_flow (loadHouseData s)) \<and> loaded_query (loadHouseData s) = rent_target (rm_params s)"
  using load_newest by (simp add: loadHouseData_def loaded_query_def)

text \<open>Whether the parameters have changed since the list was loaded: a wide view changes them without loading.\<close>

definition stale_after :: "rent_event list \<Rightarrow> bool" where
  "stale_after es = fold (\<lambda>e b. case e of Viewed v \<Rightarrow> mv_zoom v < 13 | Ordered _ _ _ \<Rightarrow> False | _ \<Rightarrow> b) es False"

definition labels_on :: "rent_event list \<Rightarrow> bool" where
  "labels_on es = fold (\<lambda>e b. case e of Viewed v \<Rightarrow> mv_zoom v < 13 | _ \<Rightarrow> b) es True"

definition rent_inv :: "(rent_request \<Rightarrow> rent_answer) \<Rightarrow> string \<Rightarrow> bool \<Rightarrow> rent_map \<Rightarrow> bool" where
  "rent_inv backend city stale s \<longleftrightarrow>
     rent_pages backend city s \<and> newest (rm_flow s) \<and> (stale \<or> loaded_query s = rent_target (rm_params s))"

lemma rent_inv_loaded: "rent_pages backend city s \<Longrightarrow> rent_inv backend city False (loadHouseData s)"
  using loadHouseData_newest [of s] loadHouseData_pages [of backend city s]
  by (simp add: rent_inv_def loadHouseData_def)

lemma rent_inv_flow:
  assumes "rent_inv backend city b s" "rm_flow t = rm_flow s" "rm_params t = rm_params s \<or> b"
  shows "rent_inv backend city b t"
  using assms by (auto simp: rent_inv_def loaded_query_def)

lemma rent_inv_op:
  assumes "rent_inv backend city b s" "flow_step (rent_pager backend city) (rm_flow s) fl" "same_processes (rm_flow s) fl"
  shows "rent_inv backend city b (s\<lparr> rm_flow := fl \<rparr>)"
  using assms same_processes_newest [OF assms(3)]
  by (auto simp: rent_inv_def loaded_query_def intro: rtranclp.rtrancl_into_rtrancl)

lemma rent_inv_viewed:
  assumes "rent_inv backend city b s"
  shows "rent_inv backend city (mv_zoom v < 13) (mapResize v s)"
proof (cases "mv_zoom v < 13")
  case True
  then show ?thesis using assms by (simp add: mapResize_def Let_def rent_inv_def loaded_query_def)
next
  case False
  have "rent_inv backend city False (loadHouseData (s\<lparr> rm_params := view_params v \<rparr>))"
    by (rule rent_inv_loaded) (use assms in \<open>simp add: rent_inv_def\<close>)
  from rent_inv_flow [OF this] show ?thesis using False by (simp add: mapResize_def Let_def)
qed

lemma rent_inv_ordered: "rent_inv backend city b s \<Longrightarrow> rent_inv backend city False (order_click i by dir s)"
  unfolding order_click_def by (rule rent_inv_loaded) (simp add: rent_inv_def)

lemma rent_inv_do:
  assumes "rent_inv backend city b s"
  shows "rent_inv backend city (case e of Viewed v \<Rightarrow> mv_zoom v < 13 | Ordered _ _ _ \<Rightarrow> False | _ \<Rightarrow> b) (rent_do backend city e s)"
proof (cases e)
  case (Viewed v)
  then show ?thesis using rent_inv_viewed [OF assms] by (simp add: rent_do_def)
next
  case (Ordered i key dir)
  then show ?thesis using rent_inv_ordered [OF assms] by (simp add: rent_do_def)
next
  case (Timed bottom k)
  then show ?thesis
    using rent_inv_op [OF assms flow_step.Timer same_processes_timer] assms by (simp add: rent_do_def Let_def)
next
  case (Page_came i)
  then show ?thesis
    using rent_inv_op [OF assms flow_step.Answered same_processes_answered] assms by (simp add: rent_do_def Let_def)
next
  case List_clicked
  then show ?thesis
    using rent_inv_op [OF assms flow_step.Click same_processes_click] by (simp add: rent_do_def Let_def)
next
  case Scrolled
  then show ?thesis
    using rent_inv_op [OF assms flow_step.Scroll same_processes_scroll] by (simp add: rent_do_def Let_def)
qed (use rent_inv_flow [OF assms] assms in \<open>simp_all add: rent_do_def Let_def hover_def boundary_answered_def label_click_def houseTip_def marker_click_def\<close>)

lemma rent_inv_run:
  "rent_inv backend city b s \<Longrightarrow>
     rent_inv backend city (fold (\<lambda>e b. case e of Viewed v \<Rightarrow> mv_zoom v < 13 | Ordered _ _ _ \<Rightarrow> False | _ \<Rightarrow> b) es b) (rent_run backend city es s)"
  by (induction es arbitrary: b s) (simp_all add: rent_run_def rent_inv_do)

lemma rent_inv_start: "rent_inv backend city False (rent_load name rs agg)"
proof -
  have "rm_flow (fold (draw_label name) rs s) = rm_flow s" for s
    by (induction rs arbitrary: s) (simp_all add: draw_label_def Let_def)
  then show ?thesis unfolding rent_load_def by (intro rent_inv_loaded) (simp add: drawRegion_def rent_start_def)
qed

text \<open>The documented answer of the server: a page cut out of all houses that fit, and whether there are more.\<close>

definition slicing_backend :: "(string \<Rightarrow> string \<Rightarrow> house list) \<Rightarrow> rent_request \<Rightarrow> rent_answer" where
  "slicing_backend whole r =
     (case r of Rent_request cityName start n q \<Rightarrow>
        \<lparr> ra_code = 200, ra_data = take n (List.drop start (whole cityName q)), ra_more = Some (start + n < length (whole cityName q)) \<rparr>)"

interpretation rp: paged_server 3 "\<lambda>q. map house_li (whole city q)" "rent_pager (slicing_backend whole) city" for whole city
  by unfold_locales (simp_all add: rent_pager_def rent_page_def slicing_backend_def house_rows_def take_map drop_map mult.commute)


text \<open>C23: Who scrolls on sees every house: after as many pages as there are houses the list shows them all, in the order
  of the server.\<close>

theorem scrolling_shows_all:
  "fl_items ((scroll_round (rent_pager (slicing_backend whole) city) ^^ length (whole city q))
     (first_page (rent_pager (slicing_backend whole) city) q)) = map house_li (whole city q)"
  by (rule rp.all_shown) simp

section \<open>The order and the labels\<close>

definition keeps_params :: "rent_event \<Rightarrow> bool" where
  "keeps_params e = (case e of Viewed _ \<Rightarrow> False | Ordered _ _ _ \<Rightarrow> False | _ \<Rightarrow> True)"

lemma kept_params:
  "keeps_params e \<Longrightarrow> rm_params (rent_do backend city e s) = rm_params s \<and> rm_order (rent_do backend city e s) = rm_order s"
  by (cases e) (simp_all add: keeps_params_def rent_do_def Let_def hover_def boundary_answered_def label_click_def houseTip_def marker_click_def)

lemma kept_params_run:
  "list_all keeps_params es \<Longrightarrow>
     rm_params (rent_run backend city es s) = rm_params s \<and> rm_order (rent_run backend city es s) = rm_order s"
  by (induction es arbitrary: s) (simp_all add: rent_run_def kept_params)

text \<open>C31: Moving the map loses the order: whatever was ordered before, from the next move on the requests name no order at all,
  while the chosen order stays highlighted.\<close>

theorem move_forgets_order:
  assumes "list_all keeps_params later"
  shows "let s = rent_run backend city (earlier @ Viewed v # later) s0
    in rm_params s = view_params v \<and> \<not> has_key (rm_params s) ''orderBy'' \<and> \<not> has_key (rm_params s) ''orderDirection''
      \<and> rm_order s = rm_order (rent_run backend city earlier s0)"
proof -
  have r: "rent_run backend city (earlier @ Viewed v # later) s0
      = rent_run backend city later (mapResize v (rent_run backend city earlier s0))"
    by (simp add: rent_run_def rent_do_def)
  show ?thesis
    unfolding Let_def r using kept_params_run [OF assms]
    by (simp add: mapResize_def loadHouseData_def Let_def view_params_def has_key_iff)
qed

theorem move_forgets_order_witness:
  "let v = \<lparr> mv_zoom = 14, mv_west = ''1'', mv_north = ''2'', mv_east = ''3'', mv_south = ''1'' \<rparr>;
     s = rent_run (slicing_backend (\<lambda>_ _. [])) ''bj'' ([Ordered 1 ''price'' ''asc''] @ Viewed v # [Scrolled, Page_came 0]) (rent_load ''bj'' [] [])
   in \<not> has_key (rm_params s) ''orderBy'' \<and> rm_order s = 1"
proof -
  have "list_all keeps_params [Scrolled, Page_came 0]" by (simp add: keeps_params_def)
  note * = move_forgets_order [OF this, of "slicing_backend (\<lambda>_ _. [])" "''bj''" "[Ordered 1 ''price'' ''asc'']"
      "\<lparr> mv_zoom = 14, mv_west = ''1'', mv_north = ''2'', mv_east = ''3'', mv_south = ''1'' \<rparr>" "rent_load ''bj'' [] []", unfolded Let_def]
  have o: "rm_order (rent_run (slicing_backend (\<lambda>_ _. [])) ''bj'' [Ordered 1 ''price'' ''asc''] (rent_load ''bj'' [] [])) = 1"
    by (simp add: rent_run_def rent_do_def order_click_def loadHouseData_def)
  show ?thesis using * unfolding Let_def o by (elim conjE) (intro conjI)
qed

lemma labels_shown_do:
  assumes "list_all (\<lambda>l. lb_shown l = b) (rm_labels s)"
  shows "list_all (\<lambda>l. lb_shown l = (case e of Viewed v \<Rightarrow> mv_zoom v < 13 | _ \<Rightarrow> b)) (rm_labels (rent_do backend city e s))"
  using assms
  by (cases e) (auto simp: rent_do_def Let_def mapResize_def order_click_def loadHouseData_def hover_def boundary_answered_def label_click_def
      houseTip_def marker_click_def list_all_length nth_list_update)

text \<open>The labels of the regions are shown exactly while the last view of the map is wide.\<close>

theorem labels_shown_when_wide:
  "list_all (\<lambda>l. lb_shown l = labels_on es) (rm_labels (rent_run backend city es (rent_load name rs agg)))
     \<and> length (rm_labels (rent_run backend city es (rent_load name rs agg))) = length rs"
proof -
  have run: "list_all (\<lambda>l. lb_shown l = fold (\<lambda>e b. case e of Viewed v \<Rightarrow> mv_zoom v < 13 | _ \<Rightarrow> b) es b) (rm_labels (rent_run backend city es s))"
    if "list_all (\<lambda>l. lb_shown l = b) (rm_labels s)" for b s
    using that by (induction es arbitrary: b s) (simp_all add: rent_run_def labels_shown_do)
  have keep: "length (rm_labels (rent_do backend city e s)) = length (rm_labels s)" for e s
    by (cases e) (simp_all add: rent_do_def Let_def mapResize_def order_click_def loadHouseData_def hover_def boundary_answered_def label_click_def
      houseTip_def marker_click_def)
  then have keeps: "length (rm_labels (rent_run backend city es s)) = length (rm_labels s)" for s
    by (induction es arbitrary: s) (simp_all add: rent_run_def)
  have draw: "list_all (\<lambda>l. lb_shown l) (rm_labels (fold (draw_label name) rs s)) = list_all (\<lambda>l. lb_shown l) (rm_labels s)"
    "length (rm_labels (fold (draw_label name) rs s)) = length (rm_labels s) + length rs" for s
    by (induction rs arbitrary: s) (simp_all add: draw_label_def Let_def)
  show ?thesis
    using run [of True "rent_load name rs agg"] keeps [of "rent_load name rs agg"]
    by (simp add: labels_on_def rent_load_def loadHouseData_def drawRegion_def draw rent_start_def)
qed

end
