(* ===== verification/Center.thy ===== *)
theory Center
  imports Flow Houses
begin

text \<open>
  The pages of a user, \<^verbatim>\<open>soufang/src/main/resources/static/js/center.js\<close>: the menu, the lists of
  the houses that wait for an appointment, that have one and that have been visited, making and cancelling an appointment,
  and changing the data of the user. Characters outside ASCII are written as \<open>u\<close> and their code points.
\<close>

section \<open>Requests and entries\<close>

datatype list_request = List_request nat nat nat

definition list_page :: "nat \<Rightarrow> nat \<Rightarrow> list_request" where
  "list_page status page = List_request status ((page - 1) * 3) 3"

definition list_url :: "list_request \<Rightarrow> string" where
  "list_url r =
     (case r of List_request status start n \<Rightarrow>
        ''/api/user/house/subscribe/list?status='' @ show_nat status @ ''&start='' @ show_nat start @ ''&size='' @ show_nat n)"

text \<open>The data of a house in an entry, with the date of its appointment.\<close>

record visit =
  vs_house :: nat
  vs_cover :: string
  vs_title :: string
  vs_district :: string
  vs_room :: nat
  vs_parlour :: nat
  vs_area :: nat
  vs_floor :: nat
  vs_totalFloor :: nat
  vs_buildYear :: nat
  vs_street :: string
  vs_price :: nat
  vs_date :: date

record list_answer =
  la_data :: "visit list"
  la_more :: "bool option"

definition house_part :: "visit \<Rightarrow> string" where
  \<open>house_part v =
     ''<div class="cover fl"><img src="http://7xo6gy.com1.z0.glb.clouddn.com/'' @ vs_cover v
     @ ''" width="100px" height="80px"></div> <div class="info fl"><a><h1>'' @ vs_title v
     @ ''</h1></a><div class="des1"><i></i><span><a href="#" target="_blank">'' @ vs_district v
     @ ''</a></span><span class="line">|</span><span>'' @ show_nat (vs_room v) @ ''u5ba4'' @ show_nat (vs_parlour v)
     @ ''u5385</span><span class="line">|</span><span>'' @ show_nat (vs_area v)
     @ ''u5e73u7c73</span></div><div class="des2"><i></i><span>'' @ show_nat (vs_floor v) @ ''u5c42(u5171'' @ show_nat (vs_totalFloor v)
     @ ''u5c42)</span><span>'' @ show_nat (vs_buildYear v) @ ''u5efa</span><span>-</span><span>'' @ vs_street v @ ''</span><span>''
     @ show_nat (vs_price v) @ ''u5143/u6708</span></div></div>''\<close>

definition wait_li :: "visit \<Rightarrow> string" where
  \<open>wait_li v = ''<li><input type="radio" name="houseId" value="'' @ show_nat (vs_house v) @ ''">u9884u7ea6u6b64u623fu6e90'' @ house_part v @ ''</li>''\<close>

definition order_time :: "string \<Rightarrow> visit \<Rightarrow> string" where
  \<open>order_time label v = ''<li><span class="order-time">'' @ label @ date_Format ''yyyy-MM-dd'' (vs_date v) @ ''</span>''\<close>

definition subscribe_li :: "visit \<Rightarrow> string" where
  \<open>subscribe_li v =
     order_time ''u9884u7ea6u65f6u95f4uff1a'' v @ house_part v @ ''<div class="fl"><input type="radio" name="houseId" value="''
     @ show_nat (vs_house v) @ ''">u53d6u6d88u6b64u9884u7ea6</div></li>''\<close>

definition finish_li :: "visit \<Rightarrow> string" where
  "finish_li v = order_time ''u770bu623fu65f6u95f4uff1a'' v @ house_part v @ ''</li>''"

text \<open>An entry of a list: the value of its radio button, and its text.\<close>

type_synonym list_entry = "nat \<times> string"

definition list_entry_of :: "nat \<Rightarrow> visit \<Rightarrow> list_entry" where
  "list_entry_of status v = (vs_house v, if status = 1 then wait_li v else if status = 2 then subscribe_li v else finish_li v)"

definition user_pager :: "(list_request \<Rightarrow> list_answer) \<Rightarrow> (nat, list_entry) pager" where
  "user_pager backend status page = (let r = backend (list_page status page) in (map (list_entry_of status) (la_data r), la_more r))"

section \<open>The page\<close>

datatype user_request = Book nat string string | Cancel nat | Change string string

datatype user_answer = Success int string | Failure int string

text \<open>
  The chosen item of the menu and what it shows, the chosen tab, the lists by their status, the checked entry of each list,
  the question that is open, the requests under way.
\<close>

record user_page =
  uc_menu :: string
  uc_body :: string
  uc_tab :: string
  uc_lists :: "nat \<Rightarrow> (nat, list_entry) flow_list"
  uc_checked :: "nat \<Rightarrow> nat option"
  uc_question :: "nat option"
  uc_pending :: "user_request list"
  uc_messages :: "string list"

definition user_message :: "string \<Rightarrow> user_page \<Rightarrow> user_page" where
  "user_message m s = s\<lparr> uc_messages := uc_messages s @ [m] \<rparr>"

definition user_ask :: "user_request \<Rightarrow> user_page \<Rightarrow> user_page" where
  "user_ask r s = s\<lparr> uc_pending := uc_pending s @ [r] \<rparr>"

definition loadList :: "nat \<Rightarrow> user_page \<Rightarrow> user_page" where
  "loadList status s = s\<lparr> uc_lists := (uc_lists s)(status := flow_load status (uc_lists s status)) \<rparr>"

definition selectDataSource :: "string \<Rightarrow> user_page \<Rightarrow> user_page" where
  "selectDataSource bind s =
     (if bind = ''.wait-record'' then loadList 1 s
      else if bind = ''.subscribe'' then loadList 2 s
      else if bind = ''.finish-record'' then loadList 3 s
      else s)"

definition user_menu_click :: "string \<Rightarrow> user_page \<Rightarrow> user_page" where
  "user_menu_click data s = selectDataSource (CHR ''.'' # data) (s\<lparr> uc_menu := data, uc_body := data \<rparr>)"

definition user_tab_click :: "string \<Rightarrow> user_page \<Rightarrow> user_page" where
  "user_tab_click data s = s\<lparr> uc_tab := data \<rparr>"

definition user_init :: user_page where
  "user_init =
     loadList 1 \<lparr> uc_menu = ''wait-record'', uc_body = ''wait-record'', uc_tab = ''change-name'', uc_lists = (\<lambda>_. empty_flow),
       uc_checked = (\<lambda>_. None), uc_question = None, uc_pending = [], uc_messages = [] \<rparr>"

text \<open>The entry that is checked goes out of its list.\<close>

definition remove_checked :: "nat \<Rightarrow> user_page \<Rightarrow> user_page" where
  "remove_checked status s =
     (case uc_checked s status of None \<Rightarrow> s
      | Some h \<Rightarrow> s\<lparr> uc_lists := (uc_lists s)(status := (uc_lists s status)\<lparr> fl_items := filter (\<lambda>e. fst e \<noteq> h) (fl_items (uc_lists s status)) \<rparr>),
                   uc_checked := (uc_checked s)(status := None) \<rparr>)"

definition check_entry :: "nat \<Rightarrow> nat \<Rightarrow> user_page \<Rightarrow> user_page" where
  "check_entry status h s =
     (if h \<in> fst ` set (fl_items (uc_lists s status)) then s\<lparr> uc_checked := (uc_checked s)(status := Some h) \<rparr> else s)"

text \<open>Making an appointment sends the form as it is at the click.\<close>

definition book_click :: "string \<Rightarrow> string \<Rightarrow> user_page \<Rightarrow> user_page" where
  "book_click telephone orderTime s =
     (case uc_checked s 1 of None \<Rightarrow> user_message ''u8bf7u9009u62e9u8981u9884u7ea6u7684u623fu6e90'' s | Some h \<Rightarrow> user_ask (Book h telephone orderTime) s)"

text \<open>Cancelling one keeps the value of the checked entry until the question is answered.\<close>

definition cancel_click :: "user_page \<Rightarrow> user_page" where
  "cancel_click s =
     (case uc_checked s 2 of None \<Rightarrow> user_message ''u8bf7u9009u62e9u8981u53d6u6d88u9884u7ea6u7684u623fu6e90'' s | Some h \<Rightarrow> s\<lparr> uc_question := Some h \<rparr>)"

definition cancel_confirm :: "user_page \<Rightarrow> user_page" where
  "cancel_confirm s = (case uc_question s of None \<Rightarrow> s | Some h \<Rightarrow> user_ask (Cancel h) (s\<lparr> uc_question := None \<rparr>))"

definition cancel_url :: "nat \<Rightarrow> string" where
  "cancel_url h = ''/api/user/house/subscribe?houseId='' @ show_nat h"

section \<open>The data of the user\<close>

definition word_char :: "char \<Rightarrow> bool" where
  "word_char c \<longleftrightarrow>
     (let n = of_char c :: nat in (97 \<le> n \<and> n \<le> 122) \<or> (65 \<le> n \<and> n \<le> 90) \<or> (48 \<le> n \<and> n \<le> 57)) \<or> c = CHR ''_'' \<or> c = CHR ''-''"

definition is_word :: "string \<Rightarrow> bool" where
  "is_word w \<longleftrightarrow> w \<noteq> [] \<and> list_all word_char w"

text \<open>Whether the pattern of the addresses matches.\<close>

definition email_matches :: "string \<Rightarrow> bool" where
  "email_matches s =
     (takeWhile word_char s \<noteq> [] \<and>
      (case dropWhile word_char s of [] \<Rightarrow> False
       | c # r \<Rightarrow> c = CHR ''@'' \<and> 2 \<le> length (split_on CHR ''.'' r) \<and> list_all is_word (split_on CHR ''.'' r)))"

text \<open>A value that is empty or missing is refused with a message of its own.\<close>

definition name_click :: "string option \<Rightarrow> user_page \<Rightarrow> user_page" where
  "name_click v s =
     (case v of None \<Rightarrow> user_message ''u8bf7u8f93u5165u6635u79f0'' s
      | Some name \<Rightarrow> if name = [] then user_message ''u8bf7u8f93u5165u6635u79f0'' s else user_ask (Change ''name'' name) s)"

definition email_click :: "string option \<Rightarrow> user_page \<Rightarrow> user_page" where
  "email_click v s =
     (case v of None \<Rightarrow> user_message ''u8bf7u8f93u5165u90aeu7bb1'' s
      | Some email \<Rightarrow> if email = [] then user_message ''u8bf7u8f93u5165u90aeu7bb1'' s
          else if \<not> email_matches email then user_message ''u8bf7u8f93u5165u6b63u786eu7684u90aeu7bb1'' s
          else user_ask (Change ''email'' email) s)"

definition password_click :: "string option \<Rightarrow> user_page \<Rightarrow> user_page" where
  "password_click v s =
     (case v of None \<Rightarrow> user_message ''u8bf7u8f93u5165u5bc6u7801'' s
      | Some password \<Rightarrow> if password = [] then user_message ''u8bf7u8f93u5165u5bc6u7801'' s else user_ask (Change ''password'' password) s)"

definition submitSuccess :: "int \<Rightarrow> string \<Rightarrow> user_page \<Rightarrow> user_page" where
  "submitSuccess code message =
     user_message (if code = 200 then ''u5df2u4feeu6539u6210u529f!'' else if code = 403 then ''u767bu5f55u5931u6548!'' else message)"

definition submitError :: "int \<Rightarrow> string \<Rightarrow> user_page \<Rightarrow> user_page" where
  "submitError status response = user_message (if status = 403 then ''u767bu5f55u5931u6548!'' else ''Server Error: '' @ response)"

section \<open>Answers\<close>

definition book_answered :: "user_answer \<Rightarrow> user_page \<Rightarrow> user_page" where
  "book_answered a s =
     (case a of Success code message \<Rightarrow> if code = 200 then user_message ''u9884u7ea6u6210u529f'' (remove_checked 1 s) else user_message message s
      | Failure status response \<Rightarrow> user_message response s)"

definition cancel_answered :: "user_answer \<Rightarrow> user_page \<Rightarrow> user_page" where
  "cancel_answered a s =
     (case a of Success code message \<Rightarrow>
        if code = 200 then user_message ''u5df2u53d6u6d88u9884u7ea6!'' (remove_checked 2 s)
        else if code = 403 then user_message ''u8bf7u5148u767bu5f55,u518du6267u884cu64cdu4f5c'' s else user_message message s
      | Failure status response \<Rightarrow>
        user_message (if status = 403 then ''u8bf7u5148u767bu5f55,u518du6267u884cu9884u7ea6u64cdu4f5c'' else ''Server Error: '' @ response) s)"

definition change_answered :: "user_answer \<Rightarrow> user_page \<Rightarrow> user_page" where
  "change_answered a = (case a of Success code message \<Rightarrow> submitSuccess code message | Failure status response \<Rightarrow> submitError status response)"

text \<open>The answer to the request at a position of those under way.\<close>

definition user_answered :: "nat \<Rightarrow> user_answer \<Rightarrow> user_page \<Rightarrow> user_page" where
  "user_answered i a s0 =
     (let s = s0\<lparr> uc_pending := splice1 i (uc_pending s0) \<rparr>
      in case uc_pending s0 ! i of Book _ _ _ \<Rightarrow> book_answered a s | Cancel _ \<Rightarrow> cancel_answered a s | Change _ _ \<Rightarrow> change_answered a s)"

definition user_page_came :: "(list_request \<Rightarrow> list_answer) \<Rightarrow> nat \<Rightarrow> nat \<Rightarrow> user_page \<Rightarrow> user_page" where
  "user_page_came backend status i s = s\<lparr> uc_lists := (uc_lists s)(status := flow_answered (user_pager backend) i (uc_lists s status)) \<rparr>"

section \<open>Addresses\<close>

lemma word_char_specials: "\<not> word_char CHR ''@''" "\<not> word_char CHR ''.''"
  by (simp_all add: word_char_def Let_def)

lemma join_dots: "ws \<noteq> [] \<Longrightarrow> join [CHR ''.''] (v # ws) = v @ concat (map ((#) CHR ''.'') ws)"
proof (induction ws arbitrary: v)
  case Nil
  then show ?case by simp
next
  case (Cons w ws)
  then show ?case by (cases ws) auto
qed

text \<open>C36: An address is taken exactly when it is a word, an at sign, and a word followed by one or more words with a dot before
  each, where words are made of letters, digits, underscores and hyphens; every other text is refused and nothing is sent.\<close>

theorem email_sent_if_matching:
  "uc_pending (email_click (Some e) s) \<in> {uc_pending s, uc_pending s @ [Change ''email'' e]}
     \<and> (uc_pending (email_click (Some e) s) = uc_pending s @ [Change ''email'' e])
     = (\<exists>u v ws. ws \<noteq> [] \<and> list_all is_word (u # v # ws) \<and> e = u @ CHR ''@'' # v @ concat (map ((#) CHR ''.'') ws))"
proof -
  have "email_matches e = (\<exists>u v ws. ws \<noteq> [] \<and> list_all is_word (u # v # ws) \<and> e = u @ CHR ''@'' # v @ concat (map ((#) CHR ''.'') ws))"
  proof
    assume m: "email_matches e"
    then obtain r where r: "dropWhile word_char e = CHR ''@'' # r" "2 \<le> length (split_on CHR ''.'' r)" "list_all is_word (split_on CHR ''.'' r)"
      by (auto simp: email_matches_def split: list.splits)
    obtain v ws where w1: "split_on CHR ''.'' r = v # ws" using split_on_nonempty [of "CHR ''.''" r] by (cases "split_on CHR ''.'' r") simp_all
    with r(2) have w: "split_on CHR ''.'' r = v # ws" "ws \<noteq> []" by auto
    have "e = takeWhile word_char e @ CHR ''@'' # r" using r(1) takeWhile_dropWhile_id [of word_char e] by simp
    moreover have "r = v @ concat (map ((#) CHR ''.'') ws)" using join_split_on [of "CHR ''.''" r] w join_dots by simp
    moreover have "takeWhile word_char e \<noteq> []" using m by (simp add: email_matches_def)
    then have "is_word (takeWhile word_char e)" by (auto simp: is_word_def list_all_iff dest: set_takeWhileD)
    ultimately have "ws \<noteq> [] \<and> list_all is_word (takeWhile word_char e # v # ws) \<and> e = takeWhile word_char e @ CHR ''@'' # v @ concat (map ((#) CHR ''.'') ws)"
      using w r(3) by simp
    then show "\<exists>u v ws. ws \<noteq> [] \<and> list_all is_word (u # v # ws) \<and> e = u @ CHR ''@'' # v @ concat (map ((#) CHR ''.'') ws)" by blast
  next
    assume "\<exists>u v ws. ws \<noteq> [] \<and> list_all is_word (u # v # ws) \<and> e = u @ CHR ''@'' # v @ concat (map ((#) CHR ''.'') ws)"
    then obtain u v ws where w: "ws \<noteq> []" "is_word u" "list_all is_word (v # ws)" "e = u @ CHR ''@'' # v @ concat (map ((#) CHR ''.'') ws)"
      by auto
    have u: "takeWhile word_char e = u" "dropWhile word_char e = CHR ''@'' # v @ concat (map ((#) CHR ''.'') ws)"
      using w(2,4) word_char_specials(1) by (auto simp: is_word_def list_all_iff takeWhile_append dropWhile_append)
    have "split_on CHR ''.'' (join [CHR ''.''] (v # ws)) = v # ws"
      by (rule split_on_join) (use w(3) word_char_specials(2) in \<open>auto simp: is_word_def list_all_iff\<close>)
    then have "split_on CHR ''.'' (v @ concat (map ((#) CHR ''.'') ws)) = v # ws" using join_dots [OF w(1)] by simp
    then show "email_matches e" using u w(1,2,3) by (cases ws) (simp_all add: email_matches_def is_word_def)
  qed
  moreover have "e \<noteq> []" if "email_matches e" using that by (auto simp: email_matches_def)
  ultimately show ?thesis by (auto simp: email_click_def user_message_def user_ask_def)
qed

section \<open>Removing the entry of an appointment\<close>

definition entries :: "nat \<Rightarrow> user_page \<Rightarrow> nat list" where
  "entries status s = map fst (fl_items (uc_lists s status))"

text \<open>C27: A cancelled appointment is not what goes out of the list: when the user has checked another entry before the answer
  comes, that entry disappears, and the cancelled one stays.\<close>

theorem cancel_removes_checked:
  assumes "a \<noteq> b" "a \<in> set (entries 2 s)" "b \<in> set (entries 2 s)" "uc_pending s = []"
  shows "let s1 = cancel_confirm (cancel_click (check_entry 2 a s));
      s2 = user_answered 0 (Success 200 m) (check_entry 2 b s1)
    in uc_pending s1 = [Cancel a] \<and> a \<in> set (entries 2 s2) \<and> b \<notin> set (entries 2 s2)
      \<and> entries 2 s2 = filter (\<lambda>h. h \<noteq> b) (entries 2 s)"
  using assms
  by (auto simp: Let_def check_entry_def cancel_click_def cancel_confirm_def user_ask_def user_answered_def cancel_answered_def
      remove_checked_def user_message_def entries_def splice1_def filter_map comp_def)

text \<open>A page with two appointments.\<close>

definition two_appointments :: user_page where
  "two_appointments = user_init\<lparr> uc_lists := (\<lambda>_. one_process 2 [(7, []), (8, [])] 1 True) \<rparr>"

theorem cancel_removes_checked_witness:
  "let s1 = cancel_confirm (cancel_click (check_entry 2 7 two_appointments));
     s2 = user_answered 0 (Success 200 []) (check_entry 2 8 s1)
   in uc_pending s1 = [Cancel 7] \<and> 7 \<in> set (entries 2 s2) \<and> 8 \<notin> set (entries 2 s2) \<and> entries 2 s2 = filter (\<lambda>h. h \<noteq> 8) (entries 2 two_appointments)"
  by (rule cancel_removes_checked) (simp_all add: two_appointments_def entries_def one_process_def user_init_def loadList_def)

section \<open>Visiting a list again\<close>

lemma answer_elsewhere:
  assumes "fl_more s = Some k" "fl_asked s ! i = (j, p)" "j \<noteq> k"
  shows "fl_items (flow_answered server i s) = fl_items s \<and> fl_more (flow_answered server i s) = Some k"
  using assms by (simp add: flow_answered_def flow_next_def on_load_def split: prod.split)



section \<open>Paging over a list that shrinks\<close>

text \<open>The documented answer of the server about the visits in a list.\<close>

definition visit_backend :: "visit list \<Rightarrow> list_request \<Rightarrow> list_answer" where
  "visit_backend vs r =
     (case r of List_request status start n \<Rightarrow> \<lparr> la_data = take n (List.drop start vs), la_more = Some (start + n < length vs) \<rparr>)"

interpretation up: paged_server 3 "\<lambda>status. map (list_entry_of status) vs" "user_pager (visit_backend vs)" for vs
  by unfold_locales (simp_all add: user_pager_def list_page_def visit_backend_def take_map drop_map mult.commute)

text \<open>Scrolling through a list of the user that does not change shows all its entries, in the order of the server.\<close>

theorem scrolling_shows_entries:
  "fl_items ((scroll_round (user_pager (visit_backend vs)) ^^ length vs) (first_page (user_pager (visit_backend vs)) status))
     = map (list_entry_of status) vs"
  by (rule up.all_shown) simp

lemma filter_drop_past:
  assumes "distinct (map f (xs @ y # ys))" "length xs = 3" "h \<in> f ` set xs"
  shows "List.drop 3 (filter (\<lambda>v. f v \<noteq> h) (xs @ y # ys)) = ys"
proof -
  obtain v where "v \<in> set xs" "f v = h" using assms(3) by blast
  then obtain a c where v: "xs = a @ v # c" "f v = h" using split_list [of v xs] by blast
  have kept: "h \<notin> f ` set a" "h \<notin> f ` set c" "h \<notin> f ` set ys" "f y \<noteq> h" using assms(1) v by auto
  have "filter (\<lambda>v. f v \<noteq> h) a = a" "filter (\<lambda>v. f v \<noteq> h) c = c" "filter (\<lambda>v. f v \<noteq> h) ys = ys" "f y \<noteq> h"
    using kept by (auto simp: filter_id_conv image_iff)
  then have "filter (\<lambda>v. f v \<noteq> h) (xs @ y # ys) = (a @ c @ [y]) @ ys" using v by simp
  then show ?thesis using assms(2) v(1) by simp
qed

lemma second_page:
  "fl_items (scroll_round (user_pager (visit_backend vs)) (one_process status es 1 False)) = es @ map (list_entry_of status) (take 3 (List.drop 3 vs))"
  unfolding scroll_round_state by (simp add: one_process_def user_pager_def list_page_def visit_backend_def)

lemma entry_houses: "map fst (map (list_entry_of status) vs) = map vs_house vs"
  by (simp add: list_entry_of_def comp_def)


definition some_visit :: "nat \<Rightarrow> visit" where
  "some_visit h = \<lparr> vs_house = h, vs_cover = [], vs_title = [], vs_district = [], vs_room = 1, vs_parlour = 1, vs_area = 50, vs_floor = 1,
     vs_totalFloor = 6, vs_buildYear = 2000, vs_street = [], vs_price = 1000,
     vs_date = \<lparr> dt_year = 2018, dt_month = 0, dt_day = 1, dt_hours = 0, dt_minutes = 0, dt_seconds = 0, dt_ms = 0 \<rparr> \<rparr>"


end
