(* ===== verification/Histogram.thy ===== *)
theory Histogram
  imports Query DateRange
begin

text \<open>
  The histogram of a date field, \<^verbatim>\<open>ui/dateHistogram/dateHistogram.js\<close>: a clone of the query asks for
  the least and the greatest date, then for the counts per interval, and draws them as bars; a click on a bar writes its date
  into the field of the filter. Dates are integers (milliseconds). The quotients of the search for an interval are exact here;
  the rounding of the language cannot move a date range across the bound of 70.
\<close>

section \<open>The interval\<close>

text \<open>The names and factors in the order in which they are popped.\<close>

definition hist_units :: "(string \<times> int) list" where
  "hist_units = [(''minute'', 60000), (''hour'', 60), (''day'', 24), (''month'', 30), (''year'', 12), (''year'', 100000)]"

text \<open>
  The loop: a name and the length of its interval. \<open>None\<close> is what the loop leaves when both lists are used up: an
  undefined name, and no number.
\<close>

fun pick_interval :: "(string \<times> int) list \<Rightarrow> rat \<Rightarrow> int \<Rightarrow> (string \<times> int) option" where
  "pick_interval [] extent intervalRange = None"
| "pick_interval ((name, factor) # units) extent intervalRange =
     (let intervalRange' = intervalRange * factor; extent' = extent / of_int factor
      in if extent' > 70 then pick_interval units extent' intervalRange' else Some (name, intervalRange'))"

definition hist_interval :: "int \<Rightarrow> int \<Rightarrow> (string \<times> int) option" where
  "hist_interval smin smax = pick_interval hist_units (of_int (smax - smin)) 1"

definition hist_prec :: "string \<Rightarrow> nat option" where
  "hist_prec name = find_index (\<lambda>n. n = name) [''year'', ''month'', ''day'', ''hour'', ''minute'', ''second'']"

section \<open>The bars\<close>

definition hist_min :: "int \<Rightarrow> int \<Rightarrow> int" where
  "hist_min smin width = (smin div width) * width"

text \<open>\<open>parseInt\<close> of a quotient drops its fraction; a property with a negative name is no element of the array.\<close>

definition trunc_div :: "int \<Rightarrow> int \<Rightarrow> int" where
  "trunc_div a b = (if a \<ge> 0 then a div b else - ((- a) div b))"

definition put_bucket :: "int \<Rightarrow> int \<Rightarrow> int \<times> nat \<Rightarrow> nat list \<Rightarrow> nat list" where
  "put_bucket mn width entry buckets =
     (let i = trunc_div (fst entry - mn) width in if i < 0 then buckets else arr_set (nat i) 0 (snd entry) buckets)"

definition hist_columns :: "int \<Rightarrow> int \<Rightarrow> (int \<times> nat) list \<Rightarrow> nat list" where
  "hist_columns smin width entries = fold (put_bucket (hist_min smin width) width) entries []"

section \<open>The widget\<close>

datatype agg_result = Stats_of int int | Buckets_of "(int \<times> nat) list"

record histogram =
  hg_query :: query
  hg_field :: string
  hg_statAggs :: string
  hg_dateAggs :: "string option"
  hg_stats :: "int \<times> int"
  hg_interval :: "(string \<times> int) option"
  hg_changed :: bool
  hg_loading :: bool
  hg_columns :: "nat list"
  hg_posts :: "(string \<times> search \<times> snapshot) list"
  hg_printed :: "string list"
  hg_searches :: nat

text \<open>An aggregation is added for one search and taken out again.\<close>

definition hist_ask :: "jsval \<Rightarrow> histogram \<Rightarrow> string \<times> histogram" where
  "hist_ask ag h =
     (case addAggs ag (hg_query h) of (u, q) \<Rightarrow> (u, h\<lparr> hg_posts := hg_posts h @ [query_post q], hg_query := removeAggs u q \<rparr>))"

definition buildHistogram :: "histogram \<Rightarrow> histogram" where
  "buildHistogram h =
     (case hist_ask (Obj [(''stats'', Obj [(''field'', Str (hg_field h))])]) h of (u, h') \<Rightarrow> h'\<lparr> hg_statAggs := u \<rparr>)"

definition date_aggs :: "string \<Rightarrow> string option \<Rightarrow> jsval" where
  "date_aggs field name =
     Obj [(''date_histogram'', Obj [(''field'', Str field), (''interval'', case name of Some n \<Rightarrow> Str n | None \<Rightarrow> Undef)])]"

definition stat_handler :: "agg_result dict \<Rightarrow> histogram \<Rightarrow> histogram" where
  "stat_handler results h =
     (case map_of results (hg_statAggs h) of
        Some (Stats_of mn mx) \<Rightarrow>
          (let iv = hist_interval mn mx
           in case hist_ask (date_aggs (hg_field h) (map_option fst iv)) (h\<lparr> hg_stats := (mn, mx), hg_interval := iv \<rparr>) of
                (u, h') \<Rightarrow> h'\<lparr> hg_dateAggs := Some u \<rparr>)
      | _ \<Rightarrow> h)"

definition aggs_handler :: "agg_result dict \<Rightarrow> histogram \<Rightarrow> histogram" where
  "aggs_handler results h =
     (case hg_dateAggs h of None \<Rightarrow> h
      | Some u \<Rightarrow>
          (case (map_of results u, hg_interval h) of
             (Some (Buckets_of entries), Some (name, width)) \<Rightarrow>
               h\<lparr> hg_loading := False, hg_columns := hist_columns (fst (hg_stats h)) width entries \<rparr>
           | _ \<Rightarrow> h))"

text \<open>The answer to the search at a position of those under way; \<open>None\<close> is a failure.\<close>

definition hist_answered :: "nat \<Rightarrow> agg_result dict option \<Rightarrow> histogram \<Rightarrow> histogram" where
  "hist_answered i answer h0 =
     (case hg_posts h0 ! i of (path, sent, state) \<Rightarrow>
        (let h = h0\<lparr> hg_posts := splice1 i (hg_posts h0),
                     hg_query := query_done state (case answer of None \<Rightarrow> Null | Some _ \<Rightarrow> Obj []) (hg_query h0) \<rparr>
         in case answer of None \<Rightarrow> h | Some results \<Rightarrow> aggs_handler results (stat_handler results h)))"

text \<open>The events of the query that the histogram belongs to.\<close>

definition outer_results :: "histogram \<Rightarrow> histogram" where
  "outer_results h = (if hg_changed h then (buildHistogram h)\<lparr> hg_changed := False \<rparr> else h)"

definition outer_setIndex :: "string \<Rightarrow> bool \<Rightarrow> histogram \<Rightarrow> histogram" where
  "outer_setIndex index add h = h\<lparr> hg_query := setIndex index add (hg_query h), hg_changed := True \<rparr>"

definition outer_setType :: "string \<Rightarrow> bool \<Rightarrow> histogram \<Rightarrow> histogram" where
  "outer_setType type add h = h\<lparr> hg_query := setType type add (hg_query h), hg_changed := True \<rparr>"

definition hist_init :: "query \<Rightarrow> string \<Rightarrow> histogram res" where
  "hist_init outer field =
     res_bind (clone outer) (\<lambda>q.
       Inr (buildHistogram
         \<lparr> hg_query = q\<lparr> search := (search q)\<lparr> page_size := Num 0 \<rparr> \<rparr>, hg_field = field, hg_statAggs = [], hg_dateAggs = None,
            hg_stats = (0, 0), hg_interval = None, hg_changed = False, hg_loading = True, hg_columns = [], hg_posts = [],
            hg_printed = [], hg_searches = 0 \<rparr>))"

text \<open>A bar is clicked: its date, to the precision of the interval, and a search of the outer query.\<close>

definition bar_click :: "bool \<Rightarrow> nat \<Rightarrow> histogram \<Rightarrow> histogram" where
  "bar_click printEl i h =
     (case hg_interval h of Some (name, width) \<Rightarrow>
        if printEl then h\<lparr> hg_printed := hg_printed h @
             [case hist_prec name of Some p \<Rightarrow> drp_print (hist_min (fst (hg_stats h)) width + int i * width) p | None \<Rightarrow> []],
             hg_searches := Suc (hg_searches h) \<rparr> else h
      | None \<Rightarrow> h)"

definition hist_template :: "(string \<Rightarrow> string) \<Rightarrow> jsval" where
  "hist_template tr =
     Obj [(''tag'', Str ''DIV''), (''cls'', Str ''uiDateHistogram loading''), (''css'', Obj [(''height'', Str ''50px'')]),
          (''children'', Arr [Str (tr ''General.LoadingAggs'')])]"

section \<open>The choice of the interval\<close>

lemma interval_cases:
  assumes "0 \<le> d"
  shows "pick_interval hist_units (of_int d) 1 =
    (if d \<le> 4200000 then Some (''minute'', 60000) else if d \<le> 252000000 then Some (''hour'', 3600000)
     else if d \<le> 6048000000 then Some (''day'', 86400000) else if d \<le> 181440000000 then Some (''month'', 2592000000)
     else if d \<le> 2177280000000 then Some (''year'', 31104000000)
     else if d \<le> 217728000000000000 then Some (''year'', 3110400000000000) else None)"
  by (simp add: hist_units_def Let_def divide_simps not_less)

text \<open>The greatest difference of two dates of the language.\<close>

definition date_span :: int where
  "date_span = 17280000000000000"

text \<open>The six lengths of an interval.\<close>

definition interval_lengths :: "int list" where
  "interval_lengths = [60000, 3600000, 86400000, 2592000000, 31104000000, 3110400000000000]"

lemma named_intervals:
  "hist_prec ''minute'' = Some 4" "hist_prec ''hour'' = Some 3" "hist_prec ''day'' = Some 2" "hist_prec ''month'' = Some 1"
  "hist_prec ''year'' = Some 0"
  by (simp_all add: hist_prec_def)

lemma interval_is_least:
  assumes "smin \<le> smax"
  shows "map_option snd (hist_interval smin smax) = List.find (\<lambda>w. smax - smin \<le> 70 * w) interval_lengths"
proof -
  have d: "0 \<le> smax - smin" using assms by simp
  show ?thesis unfolding hist_interval_def interval_cases [OF d] interval_lengths_def by simp
qed

lemma interval_exists:
  assumes "smin \<le> smax" "smax - smin \<le> date_span"
  shows "\<exists>name width. hist_interval smin smax = Some (name, width) \<and> hist_prec name \<noteq> None \<and> 0 < width \<and> smax - smin \<le> 70 * width"
proof -
  have d: "0 \<le> smax - smin" using assms by simp
  show ?thesis unfolding hist_interval_def interval_cases [OF d] using assms(2) by (simp add: date_span_def named_intervals)
qed

section \<open>The columns\<close>

lemma put_bucket_length: "length (put_bucket mn w e bs) = (if trunc_div (fst e - mn) w < 0 then length bs else max (length bs) (Suc (nat (trunc_div (fst e - mn) w))))"
  by (simp add: put_bucket_def Let_def)

lemma columns_bound:
  assumes "list_all (\<lambda>e. trunc_div (fst e - mn) w \<le> int n) es" "length bs \<le> Suc n"
  shows "length (fold (put_bucket mn w) es bs) \<le> Suc n"
  using assms
proof (induction es arbitrary: bs)
  case Nil
  then show ?case by simp
next
  case (Cons e es)
  have "length (put_bucket mn w e bs) \<le> Suc n" using Cons.prems by (auto simp: put_bucket_length)
  with Cons show ?case by simp
qed

lemma hist_min_near: "0 < w \<Longrightarrow> hist_min smin w \<le> smin \<and> smin < hist_min smin w + w"
  using pos_mod_bound [of w smin] pos_mod_sign [of w smin] by (simp add: hist_min_def minus_mod_eq_div_mult [symmetric])

lemma trunc_div_mono_bound:
  assumes "0 < w" "a < w * k" "0 < k"
  shows "trunc_div a w \<le> k - 1"
proof (cases "0 \<le> a")
  case True
  have "a div w < k"
  proof (rule ccontr)
    assume "\<not> a div w < k"
    then have "w * k \<le> w * (a div w)" using assms(1) by (simp add: mult_left_mono)
    also have "\<dots> \<le> a" using pos_mod_sign [OF assms(1), of a] mult_div_mod_eq [of w a] by linarith
    finally show False using assms(2) by simp
  qed
  then show ?thesis using True by (simp add: trunc_div_def)
next
  case False
  then have "0 \<le> (- a) div w" using assms(1) pos_imp_zdiv_nonneg_iff [of w "- a"] by simp
  then show ?thesis using False assms(3) by (simp add: trunc_div_def)
qed

text \<open>C34: For every range of dates the search for an interval ends with one that has a precision, the shortest of the six lengths of
  which at most seventy cover the range; and the buckets up to the greatest date, in any order, make at most seventy-two columns.\<close>

theorem interval_found:
  assumes "smin \<le> smax" "smax - smin \<le> date_span" "list_all (\<lambda>e. fst e \<le> smax) entries"
  shows "\<exists>name width. hist_interval smin smax = Some (name, width) \<and> hist_prec name \<noteq> None
    \<and> List.find (\<lambda>w. smax - smin \<le> 70 * w) interval_lengths = Some width \<and> length (hist_columns smin width entries) \<le> 72"
proof -
  obtain name w where w: "hist_interval smin smax = Some (name, w)" "hist_prec name \<noteq> None" "0 < w" "smax - smin \<le> 70 * w"
    using interval_exists [OF assms(1,2)] by blast
  have "smax - hist_min smin w < w * 72" using hist_min_near [OF w(3), of smin] w(3,4) by linarith
  then have "list_all (\<lambda>e. trunc_div (fst e - hist_min smin w) w \<le> int 71) entries"
    using assms(3) trunc_div_mono_bound [OF w(3), of _ 72] by (fastforce simp: list_all_iff)
  from columns_bound [OF this, of "[]"] have "length (hist_columns smin w entries) \<le> 72" by (simp add: hist_columns_def)
  then show ?thesis using w interval_is_least [OF assms(1)] by auto
qed

theorem interval_found_witness:
  "\<exists>name width. hist_interval 1514764800000 1517443200000 = Some (name, width) \<and> length (hist_columns 1514764800000 width [(1514764800000, 3)]) \<le> 72"
  using interval_found [of 1514764800000 1517443200000 "[(1514764800000, 3)]"] by (simp add: date_span_def) blast

section \<open>What the bars show\<close>

definition bar_at :: "nat list \<Rightarrow> nat \<Rightarrow> nat" where
  "bar_at bs j = (if j < length bs then bs ! j else 0)"

lemma bar_at_set: "bar_at (arr_set i 0 v bs) j = (if j = i then v else bar_at bs j)"
  by (auto simp: bar_at_def)

text \<open>The column of a bucket that starts at a multiple of the length.\<close>

definition column_of :: "int \<Rightarrow> int \<Rightarrow> int \<times> nat \<Rightarrow> nat" where
  "column_of mn w e = nat ((fst e - mn) div w)"

definition aligned :: "int \<Rightarrow> int \<Rightarrow> int \<times> nat \<Rightarrow> bool" where
  "aligned mn w e \<longleftrightarrow> w dvd fst e - mn \<and> mn \<le> fst e"

lemma put_aligned: "0 < w \<Longrightarrow> aligned mn w e \<Longrightarrow> put_bucket mn w e bs = arr_set (column_of mn w e) 0 (snd e) bs"
  by (simp add: put_bucket_def Let_def aligned_def column_of_def trunc_div_def pos_imp_zdiv_neg_iff)

lemma column_start: "0 < w \<Longrightarrow> aligned mn w e \<Longrightarrow> mn + int (column_of mn w e) * w = fst e"
  by (simp add: aligned_def column_of_def pos_imp_zdiv_nonneg_iff)

lemma columns_distinct:
  assumes "0 < w" "list_all (aligned mn w) es" "distinct (map fst es)"
  shows "distinct (map (column_of mn w) es)"
proof -
  have "inj_on (column_of mn w) (set es)"
  proof (rule inj_onI)
    fix x y assume *: "x \<in> set es" "y \<in> set es" "column_of mn w x = column_of mn w y"
    then have "fst x = fst y" using assms(1,2) column_start [of w mn x] column_start [of w mn y] by (simp add: list_all_iff)
    then show "x = y" using assms(3) * by (auto simp: distinct_map dest: inj_onD)
  qed
  then show ?thesis using assms(3) by (simp add: distinct_map)
qed

lemma bars_of_buckets:
  assumes "0 < w" "list_all (aligned mn w) es" "distinct (map (column_of mn w) es)"
    "list_all (\<lambda>e. bar_at bs (column_of mn w e) = 0) es"
  shows "sum_list (fold (put_bucket mn w) es bs) = sum_list bs + sum_list (map snd es)
    \<and> (\<forall>j. bar_at (fold (put_bucket mn w) es bs) j = (case map_of (map (\<lambda>e. (column_of mn w e, snd e)) es) j of Some v \<Rightarrow> v | None \<Rightarrow> bar_at bs j))"
  using assms(2-)
proof (induction es arbitrary: bs)
  case Nil
  then show ?case by simp
next
  case (Cons e es)
  let ?i = "column_of mn w e" and ?bs = "arr_set (column_of mn w e) 0 (snd e) bs"
  have n: "column_of mn w x \<noteq> ?i" if "x \<in> set es" for x
    using Cons.prems(2) imageI [OF that, of "column_of mn w"] by auto
  have put: "put_bucket mn w e bs = ?bs" using put_aligned [OF assms(1)] Cons.prems by simp
  have "sum_list ?bs = sum_list bs + snd e"
    using Cons.prems(3) by (auto simp: arr_set_def bar_at_def sum_list_update sum_list_replicate)
  moreover have "list_all (\<lambda>e. bar_at ?bs (column_of mn w e) = 0) es"
    using Cons.prems(3) n by (simp add: list_all_iff bar_at_set)
  moreover have "map_of (map (\<lambda>e. (column_of mn w e, snd e)) es) ?i = None"
    using Cons.prems(2) by (auto simp: map_of_eq_None_iff)
  ultimately show ?case using Cons.IH [of ?bs] Cons.prems by (auto simp: put bar_at_set split: option.split)
qed

text \<open>C21: When the buckets start at multiples of the length, as those of minutes, hours and days do, every bucket has a bar of its own,
  with its count and, when it is clicked, its date; and no count is added or lost.\<close>

theorem bars_show_counts:
  assumes "0 < width" "distinct (map fst entries)" "list_all (\<lambda>e. width dvd fst e \<and> hist_min smin width \<le> fst e) entries"
  shows "sum_list (hist_columns smin width entries) = sum_list (map snd entries)
    \<and> list_all (\<lambda>(key, n). bar_at (hist_columns smin width entries) (column_of (hist_min smin width) width (key, n)) = n
        \<and> hist_min smin width + int (column_of (hist_min smin width) width (key, n)) * width = key) entries"
proof -
  let ?mn = "hist_min smin width"
  have a: "list_all (aligned ?mn width) entries"
    using assms(3) by (auto simp: list_all_iff aligned_def hist_min_def)
  note d = columns_distinct [OF assms(1) a assms(2)]
  note b = bars_of_buckets [OF assms(1) a d, of "[]"]
  have "bar_at (hist_columns smin width entries) (column_of ?mn width e) = snd e" if "e \<in> set entries" for e
  proof -
    have "map_of (map (\<lambda>e. (column_of ?mn width e, snd e)) entries) (column_of ?mn width e) = Some (snd e)"
      by (rule map_of_is_SomeI) (use that d in \<open>auto simp: comp_def\<close>)
    then show ?thesis using b by (simp add: hist_columns_def bar_at_def list_all_iff)
  qed
  then show ?thesis
    using b a column_start [OF assms(1)] by (auto simp: hist_columns_def bar_at_def list_all_iff)
qed

theorem bars_show_counts_witness:
  "sum_list (hist_columns 90000000 86400000 [(86400000, 3), (259200000, 4)]) = 7"
  using bars_show_counts [of 86400000 "[(86400000, 3), (259200000, 4)]" 90000000] by (simp add: hist_min_def)



section \<open>A failed search\<close>

lemma remove_all_history:
  fixes q' :: query
  shows "fold (\<lambda>u r. res_bind r (removeClause u)) us r = Inr q' \<Longrightarrow> (\<exists>q. r = Inr q \<and> history q' = history q)"
proof (induction us arbitrary: r)
  case (Cons u us)
  then have "\<exists>q. res_bind r (removeClause u) = Inr q \<and> history q' = history q" by (simp del: res_bind_Inr)
  then obtain q x where "r = Inr x" "removeClause u x = Inr q" "history q' = history q" by auto
  then show ?case using history_keeps(2) [of u x q] by simp
qed simp

lemma fresh_history:
  "case query_init 50 of Inl e \<Rightarrow> False
   | Inr q \<Rightarrow> length (history q) = 1 \<and> sn_indices (hd (history q)) = [] \<and> sn_types (hd (history q)) = [] \<and> page_size (sn_search (hd (history q))) = Num 50"
  by code_simp

lemma clone_history:
  assumes "clone outer = Inr q"
  shows "\<exists>st. history q = [st] \<and> sn_indices st = [] \<and> sn_types st = [] \<and> page_size (sn_search st) = Num 50"
proof -
  obtain q0 where q0: "query_init 50 = Inr q0"
    "fold (\<lambda>u r. res_bind r (removeClause u)) (keys (refmap (restoreState (Some (getState outer)) q0)))
       (Inr (restoreState (Some (getState outer)) q0)) = Inr q"
    using assms by (auto simp: clone_def Let_def)
  have "history q = history q0" using remove_all_history [OF q0(2)] by (simp add: restoreState_def Let_def)
  moreover have "\<exists>st. history q0 = [st] \<and> sn_indices st = [] \<and> sn_types st = [] \<and> page_size (sn_search st) = Num 50"
    using fresh_history q0(1) by (cases "history q0") auto
  ultimately show ?thesis by simp
qed


definition some_outer :: query where
  "some_outer = (case query_init 50 of Inr q \<Rightarrow> setIndex ''logs'' True q | Inl _ \<Rightarrow> empty_query 50)"


end
