(* ===== verification/Spec2Isabelle.thy ===== *)
theory Spec2Isabelle
  imports Templates Model Query MetaData Results Services Panels Widgets DragDrop NodesView Filters Shell Clusterer Upload Houses Forms Rent Center Histogram
begin

text \<open>
  A verification development for the scripts of this repository. The repository holds two programs of its own in
  JavaScript: the browser application elasticsearch-head (\<^verbatim>\<open>elasticsearch-head-master/src\<close>; the paths under
  \<^verbatim>\<open>app/\<close> and \<^verbatim>\<open>vendor/\<close> below are relative to it), which shows and edits an Elasticsearch cluster, and
  the pages of the house renting application (\<^verbatim>\<open>soufang/src/main/resources/static/js\<close>). Both run in one thread:
  a handler runs to its end, then the next event is taken; what is concurrent is the order in which answers, timers and
  clicks arrive. Accordingly every operation is a function on an explicit state, every answer is an event of its own that
  may come at any position among those under way, and the reachable states of a component are those of an inductive step
  relation or of a fold over a list of events.

  \<^bold>\<open>How the theories follow the code.\<close>
  \<^theory_text>\<open>Prelude\<close>: JavaScript values, objects in enumeration order, strings, numbers, arrays, thrown errors
  (\<open>Inl\<close> of an error), the locale \<open>dictionary\<close> (laws of a map, interpreted on the objects) and the locale
  \<open>machine\<close> (a step relation with an invariant).
  \<^theory_text>\<open>Boot\<close>: \<^verbatim>\<open>app/base/boot.js\<close>.
  \<^theory_text>\<open>Observable\<close>: \<^verbatim>\<open>app/ux/class.js\<close>, \<^verbatim>\<open>observable.js\<close>, \<^verbatim>\<open>singleton.js\<close>.
  \<^theory_text>\<open>Templates\<close>: \<^verbatim>\<open>app/ux/templates\<close>.
  \<^theory_text>\<open>Dom\<close>: the renderers of templates \<^verbatim>\<open>vendor/joey\<close>, \<^verbatim>\<open>vendor/nohtml\<close>.
  \<^theory_text>\<open>Model\<close>: \<^verbatim>\<open>app/data/model\<close>.
  \<^theory_text>\<open>Query\<close>: \<^verbatim>\<open>app/data/boolQuery.js\<close>, \<^verbatim>\<open>query.js\<close>.
  \<^theory_text>\<open>MetaData\<close>: \<^verbatim>\<open>app/data/metaData.js\<close>, \<^verbatim>\<open>metaDataFactory.js\<close>.
  \<^theory_text>\<open>Results\<close>: the data sources of \<^verbatim>\<open>app/data\<close>, \<^verbatim>\<open>app/ui/table\<close>, \<^verbatim>\<open>resultTable\<close>,
  \<^verbatim>\<open>csvTable\<close>, \<^verbatim>\<open>jsonPretty\<close>.
  \<^theory_text>\<open>Services\<close>: \<^verbatim>\<open>app/services\<close> (cluster, cluster state, preferences).
  \<^theory_text>\<open>Panels\<close>, \<^theory_text>\<open>Widgets\<close>, \<^theory_text>\<open>DragDrop\<close>: the panels, dialogs, fields, forms, buttons, menus and
  sections of \<^verbatim>\<open>app/ui\<close> and \<^verbatim>\<open>app/ux\<close>.
  \<^theory_text>\<open>Overview\<close>, \<^theory_text>\<open>NodesView\<close>: \<^verbatim>\<open>app/ui/clusterOverview\<close>, \<^verbatim>\<open>nodesView\<close>,
  \<^verbatim>\<open>indexOverview\<close>.
  \<^theory_text>\<open>DateRange\<close>: \<^verbatim>\<open>vendor/dateRangeParser\<close>. \<^theory_text>\<open>Histogram\<close>: \<^verbatim>\<open>app/ui/dateHistogram\<close>.
  \<^theory_text>\<open>Filters\<close>: \<^verbatim>\<open>app/ui/queryFilter\<close>, \<^verbatim>\<open>filterBrowser\<close>, \<^verbatim>\<open>indexSelector\<close>.
  \<^theory_text>\<open>Request\<close>: \<^verbatim>\<open>app/ui/anyRequest\<close>.
  \<^theory_text>\<open>Shell\<close>: \<^verbatim>\<open>app/app.js\<close>, \<^verbatim>\<open>app/ui/header\<close>, \<^verbatim>\<open>clusterConnect\<close>, \<^verbatim>\<open>browser\<close>,
  \<^verbatim>\<open>structuredQuery\<close>.
  For the houses: \<^theory_text>\<open>Clusterer\<close> (\<^verbatim>\<open>baidu-map/MarkerClusterer.js\<close>), \<^theory_text>\<open>Upload\<close>
  (\<^verbatim>\<open>admin/upload.js\<close>), \<^theory_text>\<open>Houses\<close> and \<^theory_text>\<open>Forms\<close> (\<^verbatim>\<open>common.js\<close> and the other files of \<^verbatim>\<open>admin\<close>),
  \<^theory_text>\<open>Flow\<close> (the paging of \<^verbatim>\<open>static/lib/layui/lay/modules/flow.js\<close>), \<^theory_text>\<open>Rent\<close>
  (\<^verbatim>\<open>rent-map.js\<close>), \<^theory_text>\<open>Center\<close> (\<^verbatim>\<open>center.js\<close>).
  Definitions have the names of the functions they translate, with a prefix where two files share a name; the fields of an
  object are the fields of a record with a prefix of two letters.

  \<^bold>\<open>How the parts interact.\<close> A query posts its search and remembers the state of that moment; its answer goes through a
  data source into a table. The metadata factory reads the cluster state that the cluster state service publishes, the
  filters read the metadata and change the query. The histogram clones a query and listens to the original. The pages of
  the application show and hide these widgets. The pages of the user and the map of the houses are two clients of the
  paged list, each with its own server requests.

  \<^bold>\<open>Interfaces.\<close> \<open>event_source\<close> (\<^theory_text>\<open>Observable\<close>), \<open>clause_builder\<close> (\<^theory_text>\<open>Query\<close>, one
  contract for both query builders, interpreted twice), \<open>form_field\<close> (\<^theory_text>\<open>Widgets\<close>), \<open>dictionary\<close> and
  \<open>machine\<close> (\<^theory_text>\<open>Prelude\<close>; the latter interpreted in \<^theory_text>\<open>Flow\<close>), \<open>paged_server\<close> (\<^theory_text>\<open>Flow\<close>,
  interpreted in \<^theory_text>\<open>Rent\<close> and \<^theory_text>\<open>Center\<close>): the laws a provider promises, proved of the definitions of
  the code, and the lemmas its clients rest on.
\<close>

text \<open>
  \<^bold>\<open>What the lemmas show.\<close>
  Invariants of every reachable state: the clauses and references of a query and its history; the published cluster state;
  the stack of panels and its modal layer; the pages and tabs; the choice of indices and types; the clusters of markers; the
  counters of the upload; the list of houses under moves, orders, scrolling and late pages.
  Refinement: the clusters are those of an abstract clustering of the visible markers. Equivalence: the pretty view and the
  JSON value; the accepted addresses and the language of the pattern. Round trips: clauses added and removed, results
  written as CSV and read back, the address of the cluster, printed dates. Termination: every recursive function is total
  or, for the search of a free tab number, proved to end. Bounds: the named periods, the percentage of an upload, the
  columns of the histogram. Errors: thrown exceptions are values; what is thrown, and that nothing is drawn then. Behaviour that
  looks unintended is proved as it is and named as such in the comment before the theorem.

  \<^bold>\<open>Bounds and fuel.\<close>
  \<open>search_ref\<close> (\<^theory_text>\<open>Shell\<close>) is a \<^theory_text>\<open>partial_function\<close>, and ends in every state within one round more
  than there are pages. \<open>createField\<close> and \<open>procPath\<close> (\<^theory_text>\<open>MetaData\<close>) take the depth of the call stack,
  because the code recurses without end on a sub-field that has the name of its parent; running out is the
  \<open>RangeError\<close> the runtime throws. \<open>select_index\<close> and \<open>select_type\<close> (\<^theory_text>\<open>Filters\<close>) take the
  depth of clicks within clicks; two is enough, since a click that clears another element clicks no further, and every
  click is proved to return. \<open>pick_interval\<close> (\<^theory_text>\<open>Histogram\<close>) consumes a list of six units, as the code pops them.
  The rounds of \<open>scroll_round\<close> (\<^theory_text>\<open>Flow\<close>): as many rounds as there are entries show them all.

  \<^bold>\<open>Numbers and texts.\<close> Numbers are integers, or rational numbers where the code divides; the byte and count formats treat
  the rounding of doubles. Characters have codes below 256, or are written as \<open>u\<close> and their code point where the
  source has Chinese texts. The calendar is that of UTC.

  \<^bold>\<open>Not modelled.\<close>
  Third-party code (jQuery but for what templates go through, raphael, layui but for the paging, DataTables, the uploader, the
  map, bootstrap and whatever lies under \<^verbatim>\<open>static/lib\<close>): it has its own authors, and the model has the calls it gets
  as recorded values and its answers as arguments. \<^verbatim>\<open>_site\<close> is built from the modelled sources. Tables of messages
  (\<^verbatim>\<open>lang\<close>) are data; \<open>i18n.text\<close> is an argument. Sizes, offsets, animations and styles of elements are what
  the browser lays out. The proxy and the Grunt files only call packages that are not in the repository. The Java program is
  another language; its answers are arguments, and where a theorem needs what they promise, the promise is a definition
  (\<open>slicing_backend\<close>, \<open>visit_backend\<close>: \<^verbatim>\<open>HouseController.java\<close> and \<^verbatim>\<open>UserController.java\<close> set
  \<open>more\<close> to whether the total exceeds the end of the page).
\<close>

end
